(* ===== verification/Os_Prelude.thy ===== *)
theory Os_Prelude
  imports Main "HOL-Library.Word"
begin

unbundle bit_operations_syntax

text \<open>
  Shared vocabulary of the development: the widths of the C integers, the result type of an
  operation that can fail, array accesses with their bounds, the counting loops of the source, and
  the generic lemmas the components share.
\<close>

section \<open>Machine integers and results\<close>

type_synonym u8 = "8 word"
type_synonym u16 = "16 word"
type_synonym u32 = "32 word"

text \<open>
  A C function that does not reach its normal end yields a fault: \<open>OsAssert e\<close> is a failed
  \<open>os_assert\<close> on the expression \<open>e\<close> (in the source the system stays in \<open>os_on_assert\<close> for
  ever), \<open>OutOfBounds\<close> an array access outside the array, \<open>DivByZero\<close> a remainder by 0,
  \<open>VaArgOverrun\<close> a \<open>va_arg\<close> past the last argument, \<open>OutOfFuel\<close> a loop that has used up
  the iterations the model allows it.
\<close>

datatype fault =
    OsAssert string
  | OutOfBounds
  | DivByZero
  | VaArgOverrun
  | OutOfFuel

type_synonym 'a res = "fault + 'a"

named_theorems res_simps "evaluation of sequenced operations"

primrec bindR :: "'a res \<Rightarrow> ('a \<Rightarrow> 'b res) \<Rightarrow> 'b res" where
  "bindR (Inl e) f = Inl e"
| "bindR (Inr x) f = f x"

lemma bindR_eq_Inr [res_simps]: "(bindR m f = Inr y) \<longleftrightarrow> (\<exists>x. m = Inr x \<and> f x = Inr y)"
  by (cases m) auto

lemma bindR_eq_Inl: "(bindR m f = Inl e) \<longleftrightarrow> m = Inl e \<or> (\<exists>x. m = Inr x \<and> f x = Inl e)"
  by (cases m) auto

lemma bindR_assoc: "bindR (bindR m f) g = bindR m (\<lambda>x. bindR (f x) g)"
  by (cases m) auto

lemma bindR_cong [fundef_cong]:
  "m = m' \<Longrightarrow> (\<And>x. m' = Inr x \<Longrightarrow> f x = g x) \<Longrightarrow> bindR m f = bindR m' g"
  by (cases m') auto

lemma bindR_Inr_right [simp]: "bindR m Inr = m"
  by (cases m) auto

text \<open>
  The port, \<open>os_port.h\<close>: both macros are empty, so that interrupts are locked out nowhere in the kernel. They
  act on whatever state the caller has.
\<close>

definition os_enable_interrupts :: "'w \<Rightarrow> 'w" where
  "os_enable_interrupts w = w"

definition os_disable_interrupts :: "'w \<Rightarrow> 'w" where
  "os_disable_interrupts w = w"

lemma port_macros [simp]: "os_enable_interrupts w = w" "os_disable_interrupts w = w"
  by (simp_all add: os_enable_interrupts_def os_disable_interrupts_def)

text \<open>The macros \<open>os_assert\<close> and \<open>os_assert_with_return\<close>: go on when the test holds.\<close>

definition os_assert :: "bool \<Rightarrow> string \<Rightarrow> 'a res \<Rightarrow> 'a res" where
  "os_assert test expr k = (if test then k else Inl (OsAssert expr))"

lemma os_assert_True [simp]: "os_assert True e k = k"
  by (simp add: os_assert_def)

lemma os_assert_False [simp]: "os_assert False e k = Inl (OsAssert e)"
  by (simp add: os_assert_def)

lemma os_assert_eq_Inr [res_simps]: "(os_assert b e k = Inr y) \<longleftrightarrow> b \<and> k = Inr y"
  by (simp add: os_assert_def)

section \<open>Arrays\<close>

definition aget :: "'a list \<Rightarrow> nat \<Rightarrow> 'a res" where
  "aget xs i = (if i < length xs then Inr (xs ! i) else Inl OutOfBounds)"

definition aput :: "'a list \<Rightarrow> nat \<Rightarrow> 'a \<Rightarrow> 'a list res" where
  "aput xs i x = (if i < length xs then Inr (xs[i := x]) else Inl OutOfBounds)"

lemma aget_in [simp]: "i < length xs \<Longrightarrow> aget xs i = Inr (xs ! i)"
  by (simp add: aget_def)

lemma aput_in [simp]: "i < length xs \<Longrightarrow> aput xs i x = Inr (xs[i := x])"
  by (simp add: aput_def)

lemma aget_out [simp]: "length xs \<le> i \<Longrightarrow> aget xs i = Inl OutOfBounds"
  by (simp add: aget_def)

lemma aput_out [simp]: "length xs \<le> i \<Longrightarrow> aput xs i x = Inl OutOfBounds"
  by (simp add: aput_def)

lemma aget_eq_Inr [res_simps]: "(aget xs i = Inr x) \<longleftrightarrow> i < length xs \<and> xs ! i = x"
  by (simp add: aget_def)

lemma aput_eq_Inr [res_simps]: "(aput xs i x = Inr ys) \<longleftrightarrow> i < length xs \<and> ys = xs[i := x]"
  by (auto simp: aput_def)

lemma nth_list_update_if: "i < length xs \<Longrightarrow> xs[j := x] ! i = (if i = j then x else xs ! i)"
  by simp

lemma take_update_last: "n < length xs \<Longrightarrow> take (Suc n) (xs[n := x]) = take n xs @ [x]"
  by (simp add: take_Suc_conv_app_nth)

lemma map_update_same: "i < length xs \<Longrightarrow> f x = f (xs ! i) \<Longrightarrow> map f (xs[i := x]) = map f xs"
  by (simp add: map_update list_update_same_conv)

section \<open>Counting loops\<close>

lemma unat_plus_one:
  assumes "i < (n :: 'w::len word)"
  shows "unat (i + 1) = Suc (unat i)"
proof -
  have "unat n < 2 ^ LENGTH('w)"
    by (rule unsigned_less)
  with assms [unfolded word_less_nat_alt] have "unat i + 1 < 2 ^ LENGTH('w)"
    by linarith
  then show ?thesis
    using unat_add_lem [of i 1] by simp
qed

text \<open>
  \<open>for_ne i n body s\<close> is the loop \<open>for (; i != n; ++i) body\<close> on a counter of fixed width. It
  always ends: the distance \<open>n - i\<close> (modulo the width) shrinks.
\<close>

function for_ne :: "'w::len word \<Rightarrow> 'w word \<Rightarrow> ('w word \<Rightarrow> 's \<Rightarrow> 's res) \<Rightarrow> 's \<Rightarrow> 's res" where
  "for_ne i n body s = (if i = n then Inr s else bindR (body i s) (for_ne (i + 1) n body))"
  by pat_completeness auto
termination
proof (relation "measure (\<lambda>(i, n, body, s). unat (n - i))")
  fix i n :: "'w::len word" and body :: "'w word \<Rightarrow> 's \<Rightarrow> 's res" and s s' :: 's
  assume "i \<noteq> n"
  then have "unat ((n - i) - 1) < unat (n - i)"
    by (intro measure_unat) simp
  then show "((i + 1, n, body, s'), i, n, body, s) \<in> measure (\<lambda>(i, n, body, s). unat (n - i))"
    by (simp add: diff_diff_eq)
qed simp

declare for_ne.simps [simp del]

text \<open>The same loop with a \<open>break\<close>: the body says whether to leave.\<close>

function for_ne_break ::
    "'w::len word \<Rightarrow> 'w word \<Rightarrow> ('w word \<Rightarrow> 's \<Rightarrow> (bool \<times> 's) res) \<Rightarrow> 's \<Rightarrow> 's res" where
  "for_ne_break i n body s =
     (if i = n then Inr s
      else bindR (body i s) (\<lambda>r. if fst r then Inr (snd r) else for_ne_break (i + 1) n body (snd r)))"
  by pat_completeness auto
termination
proof (relation "measure (\<lambda>(i, n, body, s). unat (n - i))")
  fix i n :: "'w::len word" and body :: "'w word \<Rightarrow> 's \<Rightarrow> (bool \<times> 's) res" and s s' :: 's
  assume "i \<noteq> n"
  then have "unat ((n - i) - 1) < unat (n - i)"
    by (intro measure_unat) simp
  then show "((i + 1, n, body, s'), i, n, body, s) \<in> measure (\<lambda>(i, n, body, s). unat (n - i))"
    by (simp add: diff_diff_eq)
qed simp

declare for_ne_break.simps [simp del]

primrec foldR :: "('i \<Rightarrow> 's \<Rightarrow> 's res) \<Rightarrow> 'i list \<Rightarrow> 's \<Rightarrow> 's res" where
  "foldR f [] s = Inr s"
| "foldR f (x # xs) s = bindR (f x s) (foldR f xs)"

lemma foldR_append: "foldR f (xs @ ys) s = bindR (foldR f xs s) (foldR f ys)"
  by (induction xs arbitrary: s) (auto simp: bindR_assoc intro: bindR_cong)

lemma foldR_map: "foldR f (map g xs) s = foldR (\<lambda>x. f (g x)) xs s"
  by (induction xs arbitrary: s) (auto intro: bindR_cong)

text \<open>The counting loop runs its body for the indices below the bound, in order.\<close>

lemma for_ne_fold_aux:
  assumes "unat i + k = unat n"
  shows "for_ne i n body s = foldR (\<lambda>j. body (of_nat j)) [unat i..<unat n] s"
  using assms
proof (induction k arbitrary: i s)
  case 0
  then have "i = n" by (simp add: word_unat_eq_iff)
  then show ?case by (simp add: for_ne.simps)
next
  case (Suc k)
  then have ne: "i \<noteq> n" and lt: "unat i < unat n" by auto
  have step: "unat (i + 1) = Suc (unat i)"
    using lt by (intro unat_plus_one) (simp add: word_less_nat_alt)
  have IH: "for_ne (i + 1) n body = foldR (\<lambda>j. body (of_nat j)) [Suc (unat i)..<unat n]"
    using Suc.IH [of "i + 1"] Suc.prems step by (intro ext) simp
  show ?case
    using ne lt by (simp add: for_ne.simps [of i] IH upt_conv_Cons)
qed

lemma for_ne_fold: "for_ne 0 n body s = foldR (\<lambda>j. body (of_nat j)) [0..<unat n] s"
  using for_ne_fold_aux [of 0 "unat n" n body s] by simp

text \<open>An invariant of the body is an invariant of the loop.\<close>

lemma foldR_inv:
  assumes "\<And>i s s'. i \<in> set is \<Longrightarrow> P s \<Longrightarrow> f i s = Inr s' \<Longrightarrow> P s'"
    and "P s" and "foldR f is s = Inr s'"
  shows "P s'"
  using assms
proof (induction "is" arbitrary: s)
  case (Cons i js)
  from Cons.prems(3) obtain s1 where s1: "f i s = Inr s1" "foldR f js s1 = Inr s'"
    by (auto simp: bindR_eq_Inr)
  have "P s1" using Cons.prems(1) [of i s s1] Cons.prems(2) s1(1) by simp
  moreover have "\<And>k s s'. k \<in> set js \<Longrightarrow> P s \<Longrightarrow> f k s = Inr s' \<Longrightarrow> P s'"
    by (rule Cons.prems(1)) simp_all
  ultimately show ?case using s1(2) by (metis Cons.IH)
qed simp

text \<open>A body that cannot fail under the invariant gives a loop that cannot fail.\<close>

lemma foldR_total:
  assumes "\<And>i s. i \<in> set is \<Longrightarrow> P s \<Longrightarrow> \<exists>s'. f i s = Inr s' \<and> P s'" and "P s"
  shows "\<exists>s'. foldR f is s = Inr s' \<and> P s'"
  using assms
proof (induction "is" arbitrary: s)
  case (Cons i js)
  from Cons.prems(1) [of i s] Cons.prems(2) obtain s1 where s1: "f i s = Inr s1" "P s1"
    by auto
  then have "\<exists>s'. foldR f js s1 = Inr s' \<and> P s'"
    using Cons.IH [of s1] Cons.prems(1) by simp
  with s1 show ?case by simp
qed simp

text \<open>The same operation several times in a row.\<close>

primrec iterR :: "nat \<Rightarrow> ('s \<Rightarrow> 's res) \<Rightarrow> 's \<Rightarrow> 's res" where
  "iterR 0 f s = Inr s"
| "iterR (Suc k) f s = bindR (f s) (iterR k f)"

lemma iterR_snoc: "iterR (Suc k) f s = bindR (iterR k f s) f"
proof (induction k arbitrary: s)
  case 0
  show ?case by (cases "f s") simp_all
next
  case (Suc k)
  show ?case by (cases "f s") (simp_all add: Suc [symmetric])
qed

lemma bindR_ex_Inr: "m = Inr x \<Longrightarrow> \<exists>y. f x = Inr y \<and> P y \<Longrightarrow> \<exists>y. bindR m f = Inr y \<and> P y"
  by simp

text \<open>
  A loop over an array whose round \<open>j\<close> replaces entry \<open>j\<close> by \<open>h\<close> of it maps \<open>h\<close> over the
  entries it visits.
\<close>

lemma foldR_pointwise:
  assumes "\<And>j ys. j < n \<Longrightarrow> length ys = length xs \<Longrightarrow> ys ! j = xs ! j \<Longrightarrow> f j (mk ys) = Inr (mk (ys[j := h (xs ! j)]))"
    and "n \<le> length xs"
  shows "foldR f [0..<n] (mk xs) = Inr (mk (map h (take n xs) @ drop n xs))"
  using assms
proof (induction n)
  case 0
  then show ?case by simp
next
  case (Suc n)
  let ?ys = "map h (take n xs) @ drop n xs"
  have IH: "foldR f [0..<n] (mk xs) = Inr (mk ?ys)"
    using Suc by (intro Suc.IH) auto
  have "f n (mk ?ys) = Inr (mk (?ys[n := h (xs ! n)]))"
    using Suc.prems(2) by (intro Suc.prems(1)) (auto simp: nth_append)
  moreover have "?ys[n := h (xs ! n)] = map h (take (Suc n) xs) @ drop (Suc n) xs"
    using Suc.prems(2)
    by (intro nth_equalityI) (auto simp: nth_append nth_list_update less_Suc_eq)
  ultimately show ?case by (simp add: foldR_append IH)
qed

text \<open>A loop over the indices below \<open>n\<close> with an invariant that depends on the index.\<close>

lemma foldR_upt_inv:
  assumes "\<And>k s. k < n \<Longrightarrow> I k s \<Longrightarrow> \<exists>s'. f k s = Inr s' \<and> I (Suc k) s'" and "I 0 s"
  shows "\<exists>s'. foldR f [0..<n] s = Inr s' \<and> I n s'"
  using assms(1)
proof (induction n)
  case 0
  then show ?case using assms(2) by simp
next
  case (Suc n)
  then obtain s1 where s1: "foldR f [0..<n] s = Inr s1" "I n s1" by auto
  with Suc.prems [of n s1] obtain s2 where "f n s1 = Inr s2" "I (Suc n) s2" by auto
  with s1 show ?case by (simp add: foldR_append)
qed

lemma unat_of_nat_u8: "n < 256 \<Longrightarrow> unat (of_nat n :: u8) = n"
  by (simp add: unat_of_nat take_bit_nat_eq_self)

lemma unat_of_nat_u16: "n < 65536 \<Longrightarrow> unat (of_nat n :: u16) = n"
  by (simp add: unat_of_nat take_bit_nat_eq_self)

lemma of_nat_u8_eq: "n < 256 \<Longrightarrow> (of_nat n = (x :: u8)) \<longleftrightarrow> n = unat x"
  by (auto simp: unat_of_nat_u8)

text \<open>A search loop: the body leaves with \<open>x\<close> at the first index that satisfies \<open>Q\<close>.\<close>

lemma for_ne_break_search_aux:
  assumes "unat i + k = unat n"
    and "\<And>j. unat i \<le> j \<Longrightarrow> j < unat n \<Longrightarrow> body (of_nat j) y = Inr (if Q j then (True, x) else (False, y))"
  shows "for_ne_break i n body y = Inr (if \<exists>j. unat i \<le> j \<and> j < unat n \<and> Q j then x else y)"
  using assms
proof (induction k arbitrary: i)
  case 0
  then have "i = n" by (simp add: word_unat_eq_iff)
  then show ?case by (auto simp: for_ne_break.simps)
next
  case (Suc k)
  then have ne: "i \<noteq> n" and lt: "unat i < unat n" by auto
  have step: "unat (i + 1) = Suc (unat i)"
    using lt by (intro unat_plus_one) (simp add: word_less_nat_alt)
  have here: "body i y = Inr (if Q (unat i) then (True, x) else (False, y))"
    using Suc.prems(2) [of "unat i"] lt by simp
  have IH: "for_ne_break (i + 1) n body y = Inr (if \<exists>j. Suc (unat i) \<le> j \<and> j < unat n \<and> Q j then x else y)"
    using Suc.IH [of "i + 1"] Suc.prems step by simp
  have split: "(\<exists>j. unat i \<le> j \<and> j < unat n \<and> Q j) \<longleftrightarrow>
      Q (unat i) \<or> (\<exists>j. Suc (unat i) \<le> j \<and> j < unat n \<and> Q j)"
    using lt by (metis Suc_le_eq le_neq_implies_less less_imp_le order_refl)
  show ?case
    unfolding split using ne here IH
    by (cases "Q (unat i)") (simp_all add: for_ne_break.simps [of i])
qed

lemma for_ne_break_search:
  assumes "\<And>j. j < unat n \<Longrightarrow> body (of_nat j) y = Inr (if Q j then (True, x) else (False, y))"
  shows "for_ne_break 0 n body y = Inr (if \<exists>j < unat n. Q j then x else y)"
  using for_ne_break_search_aux [of 0 "unat n" n body y Q x] assms by simp

lemma ucast_u8_u16 [simp]: "unat (ucast (x :: u8) :: u16) = unat x"
  using unsigned_less [of x, where ?'a = nat] by (simp add: unsigned_ucast_eq take_bit_nat_eq_self)

lemma ucast_u16_u8_back [simp]: "ucast (ucast (x :: u8) :: u16) = x"
proof -
  have "unat (ucast (ucast x :: u16) :: u8) = take_bit 8 (unat x)"
    by (simp add: unsigned_ucast_eq [of "ucast x :: u16"])
  then show ?thesis
    using unsigned_less [of x, where ?'a = nat] by (simp add: word_unat_eq_iff take_bit_nat_eq_self)
qed

section \<open>Walking around a ring\<close>

text \<open>\<open>cyc n i m\<close>: the \<open>m\<close> indices below \<open>n\<close> that follow \<open>i\<close> (with it) around the table.\<close>

fun cyc :: "nat \<Rightarrow> nat \<Rightarrow> nat \<Rightarrow> nat list" where
  "cyc n i 0 = []"
| "cyc n i (Suc m) = i # cyc n (if Suc i = n then 0 else Suc i) m"

lemma cyc_nth: "i < n \<Longrightarrow> d < m \<Longrightarrow> cyc n i m ! d = (i + d) mod n"
proof (induction n i m arbitrary: d rule: cyc.induct)
  case (2 n i m)
  show ?case
  proof (cases d)
    case 0
    then show ?thesis using 2 by simp
  next
    case (Suc e)
    moreover have "Suc (i + e) mod Suc i = e mod Suc i"
      by (metis add_Suc mod_add_self1)
    ultimately show ?thesis using 2 by (cases "Suc i = n") auto
  qed
qed simp

lemma length_cyc [simp]: "length (cyc n i m) = m"
  by (induction n i m rule: cyc.induct) auto

end
