(* ===== verification/Os_Types.thy ===== *)
theory Os_Types
  imports Os_Prelude
begin

text \<open>
  The data of the kernel: the compile-time configuration of \<open>os_defines.h\<close>, the enumerations and
  structures of the modules, one record per module for its static variables, and the record of
  the whole kernel. Arrays are lists whose length is the declared size; a pointer to a task
  procedure or to user data is an address (0 is NULL).
\<close>

section \<open>Configuration\<close>

text \<open>The macros a user defines in \<open>user_os_config.h\<close> (\<open>Mem_t\<close> is not needed: addresses are abstract).\<close>

record config =
  N_TASKS :: nat
  N_QUEUES :: nat
  N_SEMAPHORES :: nat
  N_EVENTS :: nat
  ROUND_ROBIN :: bool

text \<open>The static assertions: every number of objects is below 255.\<close>

definition config_ok :: "config \<Rightarrow> bool" where
  "config_ok cfg \<longleftrightarrow>
     N_TASKS cfg < 255 \<and> N_QUEUES cfg < 255 \<and> N_SEMAPHORES cfg < 255 \<and> N_EVENTS cfg < 255"

definition N_TOTAL_SEMAPHORES :: "config \<Rightarrow> nat" where
  "N_TOTAL_SEMAPHORES cfg = N_SEMAPHORES cfg + N_QUEUES cfg"

definition N_TOTAL_EVENTS :: "config \<Rightarrow> nat" where
  "N_TOTAL_EVENTS cfg = N_EVENTS cfg + N_QUEUES cfg"

definition EVENT_QUEUE_SIZE :: "config \<Rightarrow> nat" where
  "EVENT_QUEUE_SIZE cfg = N_TOTAL_EVENTS cfg div 9 + 1"

lemma EVENT_QUEUE_SIZE_pos [simp]: "0 < EVENT_QUEUE_SIZE cfg"
  by (simp add: EVENT_QUEUE_SIZE_def)

abbreviation (input) NO_TID :: "'w::len word" where "NO_TID \<equiv> 255"
abbreviation (input) NO_EVENT :: "'w::len word" where "NO_EVENT \<equiv> 255"
abbreviation (input) NO_QUEUE :: u8 where "NO_QUEUE \<equiv> 255"
abbreviation (input) NO_SEM :: u16 where "NO_SEM \<equiv> 255"
abbreviation (input) NO_MSG_ID :: u8 where "NO_MSG_ID \<equiv> 255"
abbreviation (input) ISR_TID :: u8 where "ISR_TID \<equiv> 254"

section \<open>Tasks\<close>

datatype TaskState_t =
    SUSPENDED
  | WAITING_SEM
  | WAITING_TIME
  | WAITING_EVENT
  | WAITING_EVENT_TIMEOUT
  | READY
  | RUNNING
  | KILLED

text \<open>The value of an enumerator, counted from 0 in the order of declaration.\<close>

fun task_state_num :: "TaskState_t \<Rightarrow> u8" where
  "task_state_num SUSPENDED = 0"
| "task_state_num WAITING_SEM = 1"
| "task_state_num WAITING_TIME = 2"
| "task_state_num WAITING_EVENT = 3"
| "task_state_num WAITING_EVENT_TIMEOUT = 4"
| "task_state_num READY = 5"
| "task_state_num RUNNING = 6"
| "task_state_num KILLED = 7"

text \<open>
  The task control block. The fields of \<open>struct tcb\<close> carry the prefix \<open>tcb_\<close>. A semaphore id
  (\<open>Sem_t\<close>, \<open>int16_t\<close>) is a 16-bit word read with \<open>sint\<close>.
\<close>

record tcb =
  tcb_taskproc :: nat
  tcb_state :: TaskState_t
  tcb_savedState :: TaskState_t
  tcb_internal_state :: u16
  tcb_time :: u32
  tcb_tid :: u8
  tcb_prio :: u8
  tcb_semaphore :: u16
  tcb_msgQ :: u8
  tcb_waitQ :: u8
  tcb_msgChangeEvent :: u8
  tcb_msgResult :: u8
  tcb_waitSingleEvent :: bool
  tcb_clockId :: u8
  tcb_eventQueue :: "u8 list"
  tcb_data :: nat

record task_st =
  task_list :: "tcb list"
  nTasks :: u8
  last_running_task :: u16

section \<open>Semaphores\<close>

record SemValue_t =
  maxValue :: u8
  semValue :: u8

record sem_st =
  semList :: "SemValue_t list"
  nSemaphores :: u8

section \<open>Events\<close>

record Event_t =
  event_id :: u8
  signaledByTid :: u8

record event_st =
  eventList :: "Event_t list"
  nEvents :: u8
  lastSignaledEvent :: u8

section \<open>Message queues\<close>

text \<open>
  The storage of a queue is the sequence of bytes its owner passed to \<open>os_task_create\<close>.
\<close>

type_synonym bytes = "u8 list"

record OSQueue_t =
  q_list :: bytes
  q_messageSize :: u16
  q_head :: u8
  q_tail :: u8
  q_size :: u8

record OSMsgQ_t =
  mq_q :: OSQueue_t
  mq_taskId :: u8
  mq_change :: u8

record msgq_st =
  msgQList :: "OSMsgQ_t list"
  nQueues :: u8

section \<open>The kernel\<close>

record kernel_st =
  running :: u8
  running_tid :: u16

record os =
  os_tasks :: task_st
  os_sems :: sem_st
  os_events :: event_st
  os_msgqs :: msgq_st
  os_kern :: kernel_st

text \<open>A task procedure and a callback: C functions without arguments that act on the kernel.\<close>

type_synonym proc = "os \<Rightarrow> os res"

text \<open>Updates of one component of the kernel.\<close>

definition on_tasks :: "(task_st \<Rightarrow> task_st res) \<Rightarrow> os \<Rightarrow> os res" where
  "on_tasks f s = bindR (f (os_tasks s)) (\<lambda>t. Inr (s\<lparr>os_tasks := t\<rparr>))"

definition on_sems :: "(sem_st \<Rightarrow> sem_st res) \<Rightarrow> os \<Rightarrow> os res" where
  "on_sems f s = bindR (f (os_sems s)) (\<lambda>t. Inr (s\<lparr>os_sems := t\<rparr>))"

definition on_events :: "(event_st \<Rightarrow> event_st res) \<Rightarrow> os \<Rightarrow> os res" where
  "on_events f s = bindR (f (os_events s)) (\<lambda>t. Inr (s\<lparr>os_events := t\<rparr>))"

lemma on_tasks_eq_Inr [res_simps]:
  "(on_tasks f s = Inr s') \<longleftrightarrow> (\<exists>t. f (os_tasks s) = Inr t \<and> s' = s\<lparr>os_tasks := t\<rparr>)"
  by (auto simp: on_tasks_def bindR_eq_Inr)

lemma on_sems_eq_Inr [res_simps]:
  "(on_sems f s = Inr s') \<longleftrightarrow> (\<exists>t. f (os_sems s) = Inr t \<and> s' = s\<lparr>os_sems := t\<rparr>)"
  by (auto simp: on_sems_def bindR_eq_Inr)

lemma on_events_eq_Inr [res_simps]:
  "(on_events f s = Inr s') \<longleftrightarrow> (\<exists>t. f (os_events s) = Inr t \<and> s' = s\<lparr>os_events := t\<rparr>)"
  by (auto simp: on_events_def bindR_eq_Inr)

section \<open>A small configuration for concrete runs\<close>

definition demo_cfg :: config where
  "demo_cfg = \<lparr>N_TASKS = 3, N_QUEUES = 1, N_SEMAPHORES = 2, N_EVENTS = 2, ROUND_ROBIN = False\<rparr>"

text \<open>A task of that configuration: its number, state and priority.\<close>

definition demo_tcb :: "nat \<Rightarrow> TaskState_t \<Rightarrow> u8 \<Rightarrow> tcb" where
  "demo_tcb i st p = \<lparr>tcb_taskproc = 1, tcb_state = st, tcb_savedState = READY, tcb_internal_state = 0,
     tcb_time = 0, tcb_tid = of_nat i, tcb_prio = p, tcb_semaphore = 0, tcb_msgQ = 255, tcb_waitQ = 0,
     tcb_msgChangeEvent = 0, tcb_msgResult = 0, tcb_waitSingleEvent = False, tcb_clockId = 255,
     tcb_eventQueue = [0], tcb_data = 0\<rparr>"

definition demo_tasks :: "tcb list \<Rightarrow> task_st" where
  "demo_tasks l = \<lparr>task_list = l, nTasks = of_nat (length l), last_running_task = 0\<rparr>"

lemma demo_tcb_sel [simp]:
  "tcb_state (demo_tcb i st p) = st" "tcb_prio (demo_tcb i st p) = p" "tcb_tid (demo_tcb i st p) = of_nat i"
  "tcb_taskproc (demo_tcb i st p) = 1" "tcb_eventQueue (demo_tcb i st p) = [0]" "tcb_time (demo_tcb i st p) = 0"
  "tcb_savedState (demo_tcb i st p) = READY" "tcb_internal_state (demo_tcb i st p) = 0"
  "tcb_semaphore (demo_tcb i st p) = 0" "tcb_msgQ (demo_tcb i st p) = 255"
  "tcb_waitSingleEvent (demo_tcb i st p) = False" "tcb_clockId (demo_tcb i st p) = 255"
  by (simp_all add: demo_tcb_def)

lemma demo_tasks_sel [simp]:
  "task_list (demo_tasks l) = l" "nTasks (demo_tasks l) = of_nat (length l)" "last_running_task (demo_tasks l) = 0"
  by (simp_all add: demo_tasks_def)

lemma demo_cfg_sel [simp]:
  "N_TASKS demo_cfg = 3" "N_QUEUES demo_cfg = 1" "N_SEMAPHORES demo_cfg = 2" "N_EVENTS demo_cfg = 2"
  "ROUND_ROBIN demo_cfg = False" "EVENT_QUEUE_SIZE demo_cfg = 1" "N_TOTAL_EVENTS demo_cfg = 3"
  "N_TOTAL_SEMAPHORES demo_cfg = 3"
  by (simp_all add: demo_cfg_def EVENT_QUEUE_SIZE_def N_TOTAL_EVENTS_def N_TOTAL_SEMAPHORES_def)

end
