(* ===== verification/Os_Sem.thy ===== *)
theory Os_Sem
  imports Os_Types
begin

text \<open>
  The semaphore module \<open>os_sem.c\<close>: a table of bounded counters, handed out one after the other.
  The operations, the interface of a saturating counter and its instance on the table, and the
  refinement of the table to a list of counters over the natural numbers.
\<close>

section \<open>Operations\<close>

definition os_sem_init :: "config \<Rightarrow> sem_st \<Rightarrow> sem_st" where
  "os_sem_init cfg s = (if N_TOTAL_SEMAPHORES cfg > 0 then s\<lparr>nSemaphores := 0\<rparr> else s)"

text \<open>
  The id that is returned is computed in \<open>int\<close> and converted to the signed 16-bit \<open>Sem_t\<close>.
\<close>

definition os_sem_create :: "config \<Rightarrow> u8 \<Rightarrow> u8 \<Rightarrow> sem_st \<Rightarrow> (u16 \<times> sem_st) res" where
  "os_sem_create cfg max0 initial s =
     (if N_TOTAL_SEMAPHORES cfg > 0 then
        os_assert (unat (nSemaphores s) < N_TOTAL_SEMAPHORES cfg) ''nSemaphores < N_TOTAL_SEMAPHORES''
          (bindR (aput (semList s) (unat (nSemaphores s)) \<lparr>maxValue = max0, semValue = initial\<rparr>)
             (\<lambda>l. let n = nSemaphores s + 1
                  in Inr (word_of_int (uint n - 1), s\<lparr>semList := l, nSemaphores := n\<rparr>)))
      else Inr (- 1, s))"

definition sem_bin_create :: "config \<Rightarrow> bool \<Rightarrow> sem_st \<Rightarrow> (u16 \<times> sem_st) res" where
  "sem_bin_create cfg initial s = os_sem_create cfg 1 (if initial then 1 else 0) s"

definition sem_counting_create :: "config \<Rightarrow> u8 \<Rightarrow> u8 \<Rightarrow> sem_st \<Rightarrow> (u16 \<times> sem_st) res" where
  "sem_counting_create cfg max0 initial s = os_sem_create cfg max0 initial s"

text \<open>The entry \<open>semList[sem]\<close> of a signed id.\<close>

definition sem_index :: "u16 \<Rightarrow> nat res" where
  "sem_index sem = (if sint sem < 0 then Inl OutOfBounds else Inr (nat (sint sem)))"

definition os_sem_larger_than_zero :: "config \<Rightarrow> u16 \<Rightarrow> sem_st \<Rightarrow> bool res" where
  "os_sem_larger_than_zero cfg sem s =
     (if N_TOTAL_SEMAPHORES cfg > 0 then
        bindR (sem_index sem) (\<lambda>i. bindR (aget (semList s) i) (\<lambda>v. Inr (semValue v > 0)))
      else Inr False)"

definition os_sem_value_get :: "config \<Rightarrow> u16 \<Rightarrow> sem_st \<Rightarrow> u16 res" where
  "os_sem_value_get cfg sem s =
     (if N_TOTAL_SEMAPHORES cfg > 0 then
        bindR (sem_index sem) (\<lambda>i. bindR (aget (semList s) i) (\<lambda>v. Inr (ucast (semValue v))))
      else Inr 0)"

definition os_sem_num_sems_get :: "sem_st \<Rightarrow> u8" where
  "os_sem_num_sems_get s = nSemaphores s"

definition os_sem_decrement :: "config \<Rightarrow> u16 \<Rightarrow> sem_st \<Rightarrow> sem_st res" where
  "os_sem_decrement cfg sem s =
     (if N_TOTAL_SEMAPHORES cfg > 0 then
        bindR (sem_index sem) (\<lambda>i. bindR (aget (semList s) i) (\<lambda>v.
          if semValue v > 0
          then bindR (aput (semList s) i (v\<lparr>semValue := semValue v - 1\<rparr>)) (\<lambda>l. Inr (s\<lparr>semList := l\<rparr>))
          else Inr s))
      else Inr s)"

definition os_sem_increment :: "config \<Rightarrow> u16 \<Rightarrow> sem_st \<Rightarrow> sem_st res" where
  "os_sem_increment cfg sem s =
     (if N_TOTAL_SEMAPHORES cfg > 0 then
        bindR (sem_index sem) (\<lambda>i. bindR (aget (semList s) i) (\<lambda>v.
          if semValue v < maxValue v
          then bindR (aput (semList s) i (v\<lparr>semValue := semValue v + 1\<rparr>)) (\<lambda>l. Inr (s\<lparr>semList := l\<rparr>))
          else Inr s))
      else Inr s)"

section \<open>Invariant\<close>

text \<open>
  The table has its declared size, no more semaphores are in use than it has entries, and the
  value of a semaphore in use is at most its maximum.
\<close>

definition sem_inv :: "config \<Rightarrow> sem_st \<Rightarrow> bool" where
  "sem_inv cfg s \<longleftrightarrow>
     length (semList s) = N_TOTAL_SEMAPHORES cfg \<and>
     unat (nSemaphores s) \<le> N_TOTAL_SEMAPHORES cfg \<and>
     (\<forall>i < unat (nSemaphores s). semValue (semList s ! i) \<le> maxValue (semList s ! i))"

text \<open>A handle of a semaphore that has been created.\<close>

definition sem_handle :: "sem_st \<Rightarrow> u16 \<Rightarrow> bool" where
  "sem_handle s sem \<longleftrightarrow> 0 \<le> sint sem \<and> nat (sint sem) < unat (nSemaphores s)"

definition sem_no :: "u16 \<Rightarrow> nat" where
  "sem_no sem = nat (sint sem)"

lemma sem_handleD:
  assumes "sem_handle s sem" and "sem_inv cfg s"
  shows "sem_index sem = Inr (sem_no sem)" "sem_no sem < length (semList s)"
    "sem_no sem < unat (nSemaphores s)" "0 < N_TOTAL_SEMAPHORES cfg"
  using assms by (auto simp: sem_handle_def sem_index_def sem_no_def sem_inv_def)

lemma sem_inv_init:
  "length (semList s) = N_TOTAL_SEMAPHORES cfg \<Longrightarrow> N_TOTAL_SEMAPHORES cfg = 0 \<longrightarrow> nSemaphores s = 0 \<Longrightarrow>
   sem_inv cfg (os_sem_init cfg s)"
  by (auto simp: sem_inv_def os_sem_init_def split: if_splits)

text \<open>What creating a semaphore does when there is room.\<close>

lemma os_sem_create_room:
  assumes "sem_inv cfg s" and "unat (nSemaphores s) < N_TOTAL_SEMAPHORES cfg"
  shows "os_sem_create cfg m v s =
    Inr (word_of_int (uint (nSemaphores s + 1) - 1),
         s\<lparr>semList := (semList s)[unat (nSemaphores s) := \<lparr>maxValue = m, semValue = v\<rparr>],
           nSemaphores := nSemaphores s + 1\<rparr>)"
  using assms by (simp add: os_sem_create_def sem_inv_def Let_def)

lemma nSemaphores_succ:
  assumes "unat n < N" and "N \<le> 255"
  shows "unat (n + 1 :: u8) = Suc (unat n)" "n + 1 \<noteq> (0 :: u8)"
    "sint (word_of_int (uint (n + 1) - 1) :: u16) = int (unat n)"
proof -
  show 1: "unat (n + 1) = Suc (unat n)"
    using assms unat_add_lem [of n 1] by simp
  then show "n + 1 \<noteq> 0" by auto
  have "uint (n + 1) - 1 = int (unat n)"
    by (simp only: uint_nat 1)
  moreover have "signed_take_bit 15 (int (unat n)) = int (unat n)"
  proof (rule signed_take_bit_int_eq_self)
    show "- (2 ^ 15) \<le> int (unat n)"
      by (rule order.trans [OF _ of_nat_0_le_iff]) simp
    have "int (unat n) < 2 ^ 8"
      using unsigned_less [of n, where ?'a = int] by simp
    then show "int (unat n) < 2 ^ 15"
      by (rule less_le_trans) simp
  qed
  ultimately show "sint (word_of_int (uint (n + 1) - 1) :: u16) = int (unat n)"
    by (simp only: sint_sbintrunc') simp
qed

lemma os_sem_create_inv:
  assumes "sem_inv cfg s" and "N_TOTAL_SEMAPHORES cfg \<le> 255" and "v \<le> m"
    and "os_sem_create cfg m v s = Inr (sem, s')" and "0 < N_TOTAL_SEMAPHORES cfg"
  shows "sem_inv cfg s'"
proof -
  have room: "unat (nSemaphores s) < N_TOTAL_SEMAPHORES cfg"
    using assms(4,5) by (simp add: os_sem_create_def os_assert_eq_Inr)
  note n = nSemaphores_succ [OF room assms(2)]
  show ?thesis
    using assms(1,3,4) room n(1)
    by (auto simp: os_sem_create_room [OF assms(1) room] sem_inv_def nth_list_update less_Suc_eq)
qed

section \<open>The saturating counter\<close>

text \<open>
  What the users of a semaphore rely on: it stays between 0 and its capacity, an increment at the
  capacity and a decrement at 0 change nothing, and neither operation fails on a valid state.
\<close>

locale saturating_counter =
  fixes valid :: "'s \<Rightarrow> bool" and cap :: "'s \<Rightarrow> nat" and cval :: "'s \<Rightarrow> nat"
    and inc :: "'s \<Rightarrow> 's res" and dec :: "'s \<Rightarrow> 's res"
  assumes cval_le: "valid s \<Longrightarrow> cval s \<le> cap s"
    and inc_ok: "valid s \<Longrightarrow> \<exists>s'. inc s = Inr s' \<and> valid s' \<and> cap s' = cap s \<and> cval s' = min (cap s) (Suc (cval s))"
    and dec_ok: "valid s \<Longrightarrow> \<exists>s'. dec s = Inr s' \<and> valid s' \<and> cap s' = cap s \<and> cval s' = cval s - 1"
begin

lemma iter_inc:
  "valid s \<Longrightarrow> \<exists>s'. iterR k inc s = Inr s' \<and> valid s' \<and> cap s' = cap s \<and> cval s' = min (cap s) (cval s + k)"
proof (induction k arbitrary: s)
  case 0
  then show ?case using cval_le by simp
next
  case (Suc k)
  from inc_ok [OF Suc.prems] obtain s1
    where s1: "inc s = Inr s1" "valid s1" "cap s1 = cap s" "cval s1 = min (cap s) (Suc (cval s))"
    by blast
  from Suc.IH [OF s1(2)] s1 cval_le [OF Suc.prems] show ?case by auto
qed

lemma iter_dec:
  "valid s \<Longrightarrow> \<exists>s'. iterR k dec s = Inr s' \<and> valid s' \<and> cap s' = cap s \<and> cval s' = cval s - k"
proof (induction k arbitrary: s)
  case 0
  then show ?case by simp
next
  case (Suc k)
  from dec_ok [OF Suc.prems] obtain s1
    where s1: "dec s = Inr s1" "valid s1" "cap s1 = cap s" "cval s1 = cval s - 1"
    by blast
  from Suc.IH [OF s1(2)] s1 show ?case by auto
qed

text \<open>After \<open>k\<close> increments the counter can be decremented \<open>min cap (cval + k)\<close> times before it is 0.\<close>

lemma inc_then_dec:
  assumes "valid s"
  shows "\<exists>s1 s2. iterR k inc s = Inr s1 \<and> iterR j dec s1 = Inr s2 \<and>
    cval s2 = min (cap s) (cval s + k) - j"
proof -
  obtain s1 where s1: "iterR k inc s = Inr s1" "valid s1" "cval s1 = min (cap s) (cval s + k)"
    using iter_inc [OF assms] by blast
  moreover obtain s2 where "iterR j dec s1 = Inr s2" "cval s2 = cval s1 - j"
    using iter_dec [OF s1(2)] by blast
  ultimately show ?thesis by auto
qed

end

text \<open>A created semaphore is such a counter.\<close>

definition sem_valid :: "config \<Rightarrow> u16 \<Rightarrow> sem_st \<Rightarrow> bool" where
  "sem_valid cfg sem s \<longleftrightarrow> sem_inv cfg s \<and> sem_handle s sem"

definition sem_cap :: "u16 \<Rightarrow> sem_st \<Rightarrow> nat" where
  "sem_cap sem s = unat (maxValue (semList s ! sem_no sem))"

definition sem_val :: "u16 \<Rightarrow> sem_st \<Rightarrow> nat" where
  "sem_val sem s = unat (semValue (semList s ! sem_no sem))"

lemma os_sem_increment_step:
  assumes "sem_inv cfg s" and "sem_handle s sem"
  shows "os_sem_increment cfg sem s =
    Inr (if semValue (semList s ! sem_no sem) < maxValue (semList s ! sem_no sem)
         then s\<lparr>semList := (semList s)[sem_no sem := (semList s ! sem_no sem)
                \<lparr>semValue := semValue (semList s ! sem_no sem) + 1\<rparr>]\<rparr>
         else s)"
  using sem_handleD [OF assms(2,1)] by (simp add: os_sem_increment_def)

lemma os_sem_decrement_step:
  assumes "sem_inv cfg s" and "sem_handle s sem"
  shows "os_sem_decrement cfg sem s =
    Inr (if 0 < semValue (semList s ! sem_no sem)
         then s\<lparr>semList := (semList s)[sem_no sem := (semList s ! sem_no sem)
                \<lparr>semValue := semValue (semList s ! sem_no sem) - 1\<rparr>]\<rparr>
         else s)"
  using sem_handleD [OF assms(2,1)] by (simp add: os_sem_decrement_def)

lemma unat_minus_one_word: "0 < (x :: 'w::len word) \<Longrightarrow> unat (x - 1) = unat x - 1"
  by (simp add: unat_minus_one word_gt_0)

lemma os_sem_increment_valid:
  assumes "sem_inv cfg s" and "sem_handle s sem"
  obtains s' where "os_sem_increment cfg sem s = Inr s'" "sem_inv cfg s'"
    "nSemaphores s' = nSemaphores s" "sem_cap sem s' = sem_cap sem s"
    "sem_val sem s' = min (sem_cap sem s) (Suc (sem_val sem s))"
    "\<forall>i. i \<noteq> sem_no sem \<longrightarrow> semList s' ! i = semList s ! i"
proof (cases "semValue (semList s ! sem_no sem) < maxValue (semList s ! sem_no sem)")
  case True
  have le: "semValue (semList s ! sem_no sem) + 1 \<le> maxValue (semList s ! sem_no sem)"
    using True by (rule inc_le)
  show ?thesis
    using that [of "s\<lparr>semList := (semList s)[sem_no sem := (semList s ! sem_no sem)
                \<lparr>semValue := semValue (semList s ! sem_no sem) + 1\<rparr>]\<rparr>"]
      True le assms(1) sem_handleD [OF assms(2,1)] unat_plus_one [OF True]
    by (auto simp: os_sem_increment_step [OF assms] sem_inv_def sem_cap_def sem_val_def
        nth_list_update word_le_nat_alt)
next
  case False
  have "semValue (semList s ! sem_no sem) \<le> maxValue (semList s ! sem_no sem)"
    using assms(1) sem_handleD [OF assms(2,1)] by (simp add: sem_inv_def)
  with False have "semValue (semList s ! sem_no sem) = maxValue (semList s ! sem_no sem)"
    by simp
  then show ?thesis
    using that [of s] assms(1) by (simp add: os_sem_increment_step [OF assms] sem_cap_def sem_val_def)
qed

lemma os_sem_decrement_valid:
  assumes "sem_inv cfg s" and "sem_handle s sem"
  obtains s' where "os_sem_decrement cfg sem s = Inr s'" "sem_inv cfg s'"
    "nSemaphores s' = nSemaphores s" "sem_cap sem s' = sem_cap sem s"
    "sem_val sem s' = sem_val sem s - 1"
    "\<forall>i. i \<noteq> sem_no sem \<longrightarrow> semList s' ! i = semList s ! i"
proof (cases "0 < semValue (semList s ! sem_no sem)")
  case True
  have le: "semValue (semList s ! sem_no sem) \<le> maxValue (semList s ! sem_no sem)"
    using assms(1) sem_handleD [OF assms(2,1)] by (simp add: sem_inv_def)
  with True have le': "semValue (semList s ! sem_no sem) - 1 \<le> maxValue (semList s ! sem_no sem)"
    by (simp add: word_le_nat_alt unat_minus_one_word)
  show ?thesis
    using that [of "s\<lparr>semList := (semList s)[sem_no sem := (semList s ! sem_no sem)
                \<lparr>semValue := semValue (semList s ! sem_no sem) - 1\<rparr>]\<rparr>"]
      True le' assms(1) sem_handleD [OF assms(2,1)] unat_minus_one_word [OF True]
    by (auto simp: os_sem_decrement_step [OF assms] sem_inv_def sem_cap_def sem_val_def nth_list_update)
next
  case False
  then show ?thesis
    using that [of s] assms(1) by (simp add: os_sem_decrement_step [OF assms] sem_val_def word_gt_0)
qed

interpretation sem_counter: saturating_counter
    "sem_valid cfg sem" "sem_cap sem" "sem_val sem" "os_sem_increment cfg sem" "os_sem_decrement cfg sem"
  for cfg sem
proof
  fix s assume v: "sem_valid cfg sem s"
  then have i: "sem_inv cfg s" and h: "sem_handle s sem" by (auto simp: sem_valid_def)
  show "sem_val sem s \<le> sem_cap sem s"
    using i sem_handleD [OF h i] by (simp add: sem_inv_def sem_cap_def sem_val_def word_le_nat_alt)
  show "\<exists>s'. os_sem_increment cfg sem s = Inr s' \<and> sem_valid cfg sem s' \<and> sem_cap sem s' = sem_cap sem s \<and>
      sem_val sem s' = min (sem_cap sem s) (Suc (sem_val sem s))"
    using os_sem_increment_valid [OF i h] h by (metis sem_valid_def sem_handle_def)
  show "\<exists>s'. os_sem_decrement cfg sem s = Inr s' \<and> sem_valid cfg sem s' \<and> sem_cap sem s' = sem_cap sem s \<and>
      sem_val sem s' = sem_val sem s - 1"
    using os_sem_decrement_valid [OF i h] h by (metis sem_valid_def sem_handle_def)
qed

section \<open>Specification and refinement\<close>

text \<open>
  The abstract table: the list of (maximum, value) pairs of the semaphores in use, over the
  natural numbers, with increment and decrement as saturating arithmetic on one entry.
\<close>

datatype sem_op = Sem_inc u16 | Sem_dec u16

fun sem_op_id :: "sem_op \<Rightarrow> u16" where
  "sem_op_id (Sem_inc h) = h"
| "sem_op_id (Sem_dec h) = h"

fun sem_step :: "config \<Rightarrow> sem_op \<Rightarrow> sem_st \<Rightarrow> sem_st res" where
  "sem_step cfg (Sem_inc h) s = os_sem_increment cfg h s"
| "sem_step cfg (Sem_dec h) s = os_sem_decrement cfg h s"

fun sem_spec_step :: "sem_op \<Rightarrow> (nat \<times> nat) list \<Rightarrow> (nat \<times> nat) list" where
  "sem_spec_step (Sem_inc h) t =
     t[sem_no h := (fst (t ! sem_no h), min (fst (t ! sem_no h)) (snd (t ! sem_no h) + 1))]"
| "sem_spec_step (Sem_dec h) t =
     t[sem_no h := (fst (t ! sem_no h), snd (t ! sem_no h) - 1)]"

definition sem_abs :: "sem_st \<Rightarrow> (nat \<times> nat) list" where
  "sem_abs s = map (\<lambda>v. (unat (maxValue v), unat (semValue v))) (take (unat (nSemaphores s)) (semList s))"

lemma sem_abs_nth:
  "sem_inv cfg s \<Longrightarrow> sem_handle s h \<Longrightarrow> sem_abs s ! sem_no h = (sem_cap h s, sem_val h s)"
  using sem_handleD [of s h cfg] by (simp add: sem_abs_def sem_cap_def sem_val_def)

lemma sem_abs_update:
  assumes "sem_inv cfg s" and "sem_inv cfg s'" and "nSemaphores s' = nSemaphores s" and "sem_handle s h"
    and "\<forall>i. i \<noteq> sem_no h \<longrightarrow> semList s' ! i = semList s ! i"
  shows "sem_abs s' = (sem_abs s)[sem_no h := (sem_cap h s', sem_val h s')]"
proof (rule nth_equalityI)
  show "length (sem_abs s') = length ((sem_abs s)[sem_no h := (sem_cap h s', sem_val h s')])"
    using assms(1-3) by (simp add: sem_abs_def sem_inv_def)
  fix i assume "i < length (sem_abs s')"
  then have i: "i < unat (nSemaphores s)" "i < length (semList s)" "i < length (semList s')"
    using assms(1-3) by (auto simp: sem_abs_def sem_inv_def)
  show "sem_abs s' ! i = (sem_abs s)[sem_no h := (sem_cap h s', sem_val h s')] ! i"
    using i assms(3,5) by (cases "i = sem_no h") (simp_all add: sem_abs_def sem_cap_def sem_val_def)
qed

lemma sem_step_refines:
  assumes "sem_inv cfg s" and "sem_handle s (sem_op_id p)"
  obtains s' where "sem_step cfg p s = Inr s'" "sem_inv cfg s'" "nSemaphores s' = nSemaphores s"
    "sem_abs s' = sem_spec_step p (sem_abs s)"
proof (cases p)
  case (Sem_inc h)
  with assms(2) have h: "sem_handle s h" by simp
  from os_sem_increment_valid [OF assms(1) h] obtain s' where
    s': "os_sem_increment cfg h s = Inr s'" "sem_inv cfg s'" "nSemaphores s' = nSemaphores s"
    "sem_cap h s' = sem_cap h s" "sem_val h s' = min (sem_cap h s) (Suc (sem_val h s))"
    "\<forall>i. i \<noteq> sem_no h \<longrightarrow> semList s' ! i = semList s ! i" .
  show ?thesis
    using that [of s'] s' Sem_inc sem_abs_nth [OF assms(1) h] sem_abs_update [OF assms(1) s'(2,3) h s'(6)]
    by simp
next
  case (Sem_dec h)
  with assms(2) have h: "sem_handle s h" by simp
  from os_sem_decrement_valid [OF assms(1) h] obtain s' where
    s': "os_sem_decrement cfg h s = Inr s'" "sem_inv cfg s'" "nSemaphores s' = nSemaphores s"
    "sem_cap h s' = sem_cap h s" "sem_val h s' = sem_val h s - 1"
    "\<forall>i. i \<noteq> sem_no h \<longrightarrow> semList s' ! i = semList s ! i" .
  show ?thesis
    using that [of s'] s' Sem_dec sem_abs_nth [OF assms(1) h] sem_abs_update [OF assms(1) s'(2,3) h s'(6)]
    by simp
qed

section \<open>Properties\<close>

definition demo_sems :: sem_st where
  "demo_sems = \<lparr>semList = [\<lparr>maxValue = 3, semValue = 1\<rparr>, \<lparr>maxValue = 1, semValue = 0\<rparr>, \<lparr>maxValue = 0, semValue = 0\<rparr>],
     nSemaphores = 2\<rparr>"

lemma demo_sems_inv: "sem_inv demo_cfg demo_sems" "sem_handle demo_sems 0" "sem_handle demo_sems 1"
  by (simp_all add: sem_inv_def demo_sems_def sem_handle_def
      less_2_cases_iff)

text \<open>C27: any sequence of \<open>os_sem_increment\<close> and \<open>os_sem_decrement\<close> on created semaphores runs
  without a fault, keeps every value within its maximum, and computes the saturating arithmetic
  of the abstract table (each operation changes its own semaphore and no other).\<close>

theorem sem_run_refines:
  assumes "sem_inv cfg s" and "\<forall>p \<in> set ops. sem_handle s (sem_op_id p)"
  shows "\<exists>s'. foldR (sem_step cfg) ops s = Inr s' \<and> sem_inv cfg s' \<and> nSemaphores s' = nSemaphores s \<and>
    sem_abs s' = fold sem_spec_step ops (sem_abs s)"
  using assms
proof (induction ops arbitrary: s)
  case Nil
  then show ?case by simp
next
  case (Cons p ops)
  from Cons.prems have "sem_handle s (sem_op_id p)" by simp
  with Cons.prems(1) obtain s1 where s1: "sem_step cfg p s = Inr s1" "sem_inv cfg s1"
    "nSemaphores s1 = nSemaphores s" "sem_abs s1 = sem_spec_step p (sem_abs s)"
    by (rule sem_step_refines)
  moreover have "\<forall>q \<in> set ops. sem_handle s1 (sem_op_id q)"
    using Cons.prems(2) s1(3) by (simp add: sem_handle_def)
  ultimately show ?case using Cons.IH [of s1] by simp
qed

theorem sem_run_refines_witness:
  "\<exists>s'. foldR (sem_step demo_cfg) [Sem_inc 0, Sem_dec 1, Sem_inc 1, Sem_inc 1] demo_sems = Inr s' \<and>
    sem_abs s' = [(3, 2), (1, 1)]"
  using sem_run_refines [of demo_cfg demo_sems "[Sem_inc 0, Sem_dec 1, Sem_inc 1, Sem_inc 1]"] demo_sems_inv
  by (auto simp: sem_abs_def demo_sems_def sem_no_def)

text \<open>A semaphore of capacity \<open>c\<close> whose value is \<open>v\<close> can, after \<open>k\<close> signals, be taken exactly
  \<open>min c (v + k)\<close> times: after \<open>j\<close> further decrements its value is \<open>min c (v + k) - j\<close>.\<close>

theorem sem_signals_then_waits:
  assumes "sem_inv cfg s" and "sem_handle s sem"
  shows "\<exists>s1 s2. iterR k (os_sem_increment cfg sem) s = Inr s1 \<and>
    iterR j (os_sem_decrement cfg sem) s1 = Inr s2 \<and>
    sem_val sem s2 = min (sem_cap sem s) (sem_val sem s + k) - j"
  using assms by (intro sem_counter.inc_then_dec) (simp add: sem_valid_def)

theorem sem_signals_then_waits_witness:
  "\<exists>s1 s2. iterR 4 (os_sem_increment demo_cfg 0) demo_sems = Inr s1 \<and>
    iterR 2 (os_sem_decrement demo_cfg 0) s1 = Inr s2 \<and> sem_val 0 s2 = 1"
  using sem_signals_then_waits [OF demo_sems_inv(1,2), of 4 2]
  by (simp add: sem_val_def sem_cap_def demo_sems_def sem_no_def)

text \<open>Creating a semaphore in a table with room returns a handle that was not in use before,
  with the given initial value, leaves every semaphore in use as it was, and keeps the invariant;
  the totals the ids are computed from must fit the 8-bit counter.\<close>

theorem sem_create_fresh:
  assumes "sem_inv cfg s" and "N_TOTAL_SEMAPHORES cfg \<le> 255"
    and "unat (nSemaphores s) < N_TOTAL_SEMAPHORES cfg" and "v \<le> m"
  shows "\<exists>sem s'. os_sem_create cfg m v s = Inr (sem, s') \<and> sem_inv cfg s' \<and>
    \<not> sem_handle s sem \<and> sem_handle s' sem \<and> os_sem_value_get cfg sem s' = Inr (ucast v) \<and>
    sem_abs s' = sem_abs s @ [(unat m, unat v)]"
proof -
  let ?n = "unat (nSemaphores s)"
  let ?s' = "s\<lparr>semList := (semList s)[?n := \<lparr>maxValue = m, semValue = v\<rparr>], nSemaphores := nSemaphores s + 1\<rparr>"
  let ?h = "word_of_int (uint (nSemaphores s + 1) - 1) :: u16"
  note n = nSemaphores_succ [OF assms(3,2)]
  have c: "os_sem_create cfg m v s = Inr (?h, ?s')"
    by (rule os_sem_create_room [OF assms(1,3)])
  have inv: "sem_inv cfg ?s'"
    using os_sem_create_inv [OF assms(1,2,4) c] assms(3) by simp
  have h: "sem_handle ?s' ?h" "\<not> sem_handle s ?h" "sem_no ?h = ?n"
    using n by (auto simp: sem_handle_def sem_no_def)
  have len: "?n < length (semList s)"
    using assms(1,3) by (simp add: sem_inv_def)
  have "os_sem_value_get cfg ?h ?s' = Inr (ucast v)"
    using sem_handleD [OF h(1) inv] h(3) len by (simp add: os_sem_value_get_def)
  moreover have "sem_abs ?s' = sem_abs s @ [(unat m, unat v)]"
    using n(1) len by (simp add: sem_abs_def take_update_last)
  ultimately show ?thesis using c inv h(1,2) by blast
qed

theorem sem_create_fresh_witness:
  "\<exists>sem s'. os_sem_create demo_cfg 5 4 demo_sems = Inr (sem, s') \<and> sem_handle s' sem \<and>
    sem_abs s' = [(3, 1), (1, 0), (5, 4)]"
proof -
  have "N_TOTAL_SEMAPHORES demo_cfg \<le> 255" "unat (nSemaphores demo_sems) < N_TOTAL_SEMAPHORES demo_cfg"
    "(4 :: u8) \<le> 5"
    by (simp_all add: demo_sems_def)
  from sem_create_fresh [OF demo_sems_inv(1) this] show ?thesis
    by (auto simp: sem_abs_def demo_sems_def)
qed

text \<open>C38: the static assertions allow up to 508 semaphores in total, but the counter of created
  semaphores has 8 bits: the 256th creation succeeds, returns the id -1, which is not the id of
  any semaphore, and resets the counter to 0, so that the table looks empty again.\<close>

theorem sem_create_wraps:
  assumes "length (semList s) = N_TOTAL_SEMAPHORES cfg" and "255 < N_TOTAL_SEMAPHORES cfg"
    and "nSemaphores s = 255"
  shows "\<exists>s'. os_sem_create cfg m v s = Inr (- 1, s') \<and> os_sem_num_sems_get s' = 0 \<and>
    os_sem_value_get cfg (- 1) s' = Inl OutOfBounds"
  using assms
  by (simp add: os_sem_create_def os_sem_num_sems_get_def os_sem_value_get_def sem_index_def Let_def)

definition big_cfg :: config where
  "big_cfg = \<lparr>N_TASKS = 1, N_QUEUES = 128, N_SEMAPHORES = 128, N_EVENTS = 1, ROUND_ROBIN = False\<rparr>"

theorem sem_create_wraps_witness:
  "config_ok big_cfg \<and> (\<exists>s'. os_sem_create big_cfg 1 1
     \<lparr>semList = replicate 256 \<lparr>maxValue = 1, semValue = 0\<rparr>, nSemaphores = 255\<rparr> = Inr (- 1, s') \<and>
     os_sem_num_sems_get s' = 0)"
  using sem_create_wraps
    [of "\<lparr>semList = replicate 256 \<lparr>maxValue = 1, semValue = 0\<rparr>, nSemaphores = 255\<rparr>" big_cfg 1 1]
  by (auto simp: big_cfg_def N_TOTAL_SEMAPHORES_def config_ok_def)

end
