(* ===== verification/Os_Task.thy ===== *)
theory Os_Task
  imports Os_Types
begin

text \<open>
  The operations of \<open>os_task.c\<close> on the task table, but for task creation and the clock tick, which
  also reach the message queues (\<open>Os_Tick\<close>), and the choice of the next task (\<open>Os_Sched\<close>).
  (\<open>Os_Task_Inv\<close> has the invariant of the task table and its preservation by every operation.)
\<close>

section \<open>Access to the task table\<close>

definition tcb_get :: "task_st \<Rightarrow> nat \<Rightarrow> tcb res" where
  "tcb_get s i = aget (task_list s) i"

definition mod_tcb :: "nat \<Rightarrow> (tcb \<Rightarrow> tcb) \<Rightarrow> task_st \<Rightarrow> task_st res" where
  "mod_tcb i f s =
     bindR (tcb_get s i) (\<lambda>t. Inr (s\<lparr>task_list := (task_list s)[i := f t]\<rparr>))"

section \<open>Initialisation and plain fields\<close>

definition tcb_reset :: "tcb \<Rightarrow> tcb" where
  "tcb_reset t = t\<lparr>tcb_clockId := 255, tcb_internal_state := 255, tcb_msgQ := 0, tcb_waitQ := 0,
     tcb_msgChangeEvent := 0, tcb_msgResult := 0, tcb_prio := 0, tcb_savedState := SUSPENDED,
     tcb_semaphore := NO_SEM, tcb_state := SUSPENDED, tcb_taskproc := 0, tcb_tid := NO_TID,
     tcb_time := 0, tcb_waitSingleEvent := False,
     tcb_eventQueue := map (\<lambda>_. 255) (tcb_eventQueue t), tcb_data := 0\<rparr>"

definition os_task_init :: "task_st \<Rightarrow> task_st" where
  "os_task_init s = s\<lparr>last_running_task := 0, nTasks := 0, task_list := map tcb_reset (task_list s)\<rparr>"

definition task_state_get :: "u8 \<Rightarrow> task_st \<Rightarrow> TaskState_t res" where
  "task_state_get tid s = os_assert (tid < nTasks s) ''tid < nTasks''
     (bindR (tcb_get s (unat tid)) (\<lambda>t. Inr (tcb_state t)))"

definition os_task_kill :: "u8 \<Rightarrow> task_st \<Rightarrow> task_st res" where
  "os_task_kill tid s = os_assert (tid < nTasks s) ''tid < nTasks''
     (mod_tcb (unat tid) (tcb_state_update (\<lambda>_. KILLED)) s)"

text \<open>The argument is the id of the running task, which the source reads from the kernel.\<close>

definition task_get_data :: "u16 \<Rightarrow> task_st \<Rightarrow> nat res" where
  "task_get_data rtid s = bindR (tcb_get s (unat rtid)) (\<lambda>t. Inr (tcb_data t))"

definition os_task_prio_get :: "u8 \<Rightarrow> task_st \<Rightarrow> u8 res" where
  "os_task_prio_get tid s = os_assert (tid < nTasks s) ''tid < nTasks''
     (bindR (tcb_get s (unat tid)) (\<lambda>t. Inr (tcb_prio t)))"

definition task_internal_state_get :: "u8 \<Rightarrow> task_st \<Rightarrow> u16 res" where
  "task_internal_state_get tid s = bindR (tcb_get s (unat tid)) (\<lambda>t. Inr (tcb_internal_state t))"

definition os_task_internal_state_set :: "u8 \<Rightarrow> u16 \<Rightarrow> task_st \<Rightarrow> task_st res" where
  "os_task_internal_state_set tid st s = mod_tcb (unat tid) (tcb_internal_state_update (\<lambda>_. st)) s"

definition os_task_msgQ_get :: "u8 \<Rightarrow> task_st \<Rightarrow> u8 res" where
  "os_task_msgQ_get tid s = bindR (tcb_get s (unat tid)) (\<lambda>t. Inr (tcb_msgQ t))"

definition os_task_set_wait_queue :: "u8 \<Rightarrow> u8 \<Rightarrow> task_st \<Rightarrow> task_st res" where
  "os_task_set_wait_queue tid queue s = mod_tcb (unat tid) (tcb_waitQ_update (\<lambda>_. queue)) s"

definition os_task_get_wait_queue :: "u8 \<Rightarrow> task_st \<Rightarrow> u8 res" where
  "os_task_get_wait_queue tid s = bindR (tcb_get s (unat tid)) (\<lambda>t. Inr (tcb_waitQ t))"

definition os_task_set_change_event :: "u8 \<Rightarrow> u8 \<Rightarrow> task_st \<Rightarrow> task_st res" where
  "os_task_set_change_event tid event s = mod_tcb (unat tid) (tcb_msgChangeEvent_update (\<lambda>_. event)) s"

definition os_task_get_change_event :: "u8 \<Rightarrow> task_st \<Rightarrow> u8 res" where
  "os_task_get_change_event tid s = bindR (tcb_get s (unat tid)) (\<lambda>t. Inr (tcb_msgChangeEvent t))"

definition os_task_set_msg_result :: "u8 \<Rightarrow> u8 \<Rightarrow> task_st \<Rightarrow> task_st res" where
  "os_task_set_msg_result tid result s = mod_tcb (unat tid) (tcb_msgResult_update (\<lambda>_. result)) s"

definition os_task_get_msg_result :: "u8 \<Rightarrow> task_st \<Rightarrow> u8 res" where
  "os_task_get_msg_result tid s = bindR (tcb_get s (unat tid)) (\<lambda>t. Inr (tcb_msgResult t))"

definition os_task_timeout_get :: "u8 \<Rightarrow> task_st \<Rightarrow> u32 res" where
  "os_task_timeout_get tid s = bindR (tcb_get s (unat tid)) (\<lambda>t. Inr (tcb_time t))"

text \<open>The two test helpers read the internal state through 8-bit variables.\<close>

definition task_should_run_test :: "u16 \<Rightarrow> task_st \<Rightarrow> bool res" where
  "task_should_run_test id0 s =
     bindR (task_internal_state_get (ucast id0) s) (\<lambda>st.
       let state = ucast st :: u8 in Inr (state = 0 \<or> state = 99))"

definition task_is_killed :: "u16 \<Rightarrow> task_st \<Rightarrow> bool res" where
  "task_is_killed id0 s =
     bindR (task_internal_state_get (ucast id0) s) (\<lambda>st.
       let state = ucast st :: u8 in Inr (state = task_state_num KILLED))"

definition task_set_no_running_task :: "task_st \<Rightarrow> task_st" where
  "task_set_no_running_task s = s\<lparr>last_running_task := NO_TID\<rparr>"

section \<open>State changes\<close>

definition task_ready_set :: "u8 \<Rightarrow> task_st \<Rightarrow> task_st res" where
  "task_ready_set tid s = os_assert (tid < nTasks s) ''tid < nTasks''
     (mod_tcb (unat tid) (tcb_state_update (\<lambda>_. READY)) s)"

definition os_task_ready_set :: "u8 \<Rightarrow> task_st \<Rightarrow> task_st res" where
  "os_task_ready_set tid s = os_assert (tid < nTasks s) ''tid < nTasks'' (task_ready_set tid s)"

definition task_suspended_set :: "u8 \<Rightarrow> task_st \<Rightarrow> task_st res" where
  "task_suspended_set tid s = mod_tcb (unat tid) (tcb_state_update (\<lambda>_. SUSPENDED)) s"

definition task_waiting_time_set :: "u8 \<Rightarrow> task_st \<Rightarrow> task_st res" where
  "task_waiting_time_set tid s = mod_tcb (unat tid) (tcb_state_update (\<lambda>_. WAITING_TIME)) s"

definition task_waiting_event_set :: "u8 \<Rightarrow> task_st \<Rightarrow> task_st res" where
  "task_waiting_event_set tid s = mod_tcb (unat tid) (tcb_state_update (\<lambda>_. WAITING_EVENT)) s"

definition task_waiting_event_timeout_set :: "u8 \<Rightarrow> task_st \<Rightarrow> task_st res" where
  "task_waiting_event_timeout_set tid s =
     mod_tcb (unat tid) (tcb_state_update (\<lambda>_. WAITING_EVENT_TIMEOUT)) s"

definition task_wait_sem_set :: "u8 \<Rightarrow> u16 \<Rightarrow> task_st \<Rightarrow> task_st res" where
  "task_wait_sem_set tid sem s = os_assert (tid < nTasks s) ''tid < nTasks''
     (mod_tcb (unat tid)
        (\<lambda>t. t\<lparr>tcb_time := 0, tcb_state := WAITING_SEM, tcb_semaphore := sem\<rparr>) s)"

definition os_task_suspend :: "u8 \<Rightarrow> task_st \<Rightarrow> task_st res" where
  "os_task_suspend tid s = os_assert (tid < nTasks s) ''tid < nTasks''
     (bindR (tcb_get s (unat tid)) (\<lambda>t.
        let state = tcb_state t in
        if state \<noteq> KILLED \<and> state \<noteq> SUSPENDED then
          bindR (if state = WAITING_SEM
                 then mod_tcb (unat tid) (\<lambda>t. t\<lparr>tcb_savedState := READY, tcb_internal_state := 0\<rparr>) s
                 else mod_tcb (unat tid) (tcb_savedState_update (\<lambda>_. state)) s)
            (task_suspended_set tid)
        else Inr s))"

definition os_task_resume :: "u8 \<Rightarrow> task_st \<Rightarrow> task_st res" where
  "os_task_resume tid s = os_assert (tid < nTasks s) ''tid < nTasks''
     (bindR (tcb_get s (unat tid)) (\<lambda>t.
        if tcb_state t = SUSPENDED
        then mod_tcb (unat tid) (tcb_state_update (\<lambda>_. tcb_savedState t)) s
        else Inr s))"

definition os_task_wait_time_set :: "u8 \<Rightarrow> u8 \<Rightarrow> u32 \<Rightarrow> task_st \<Rightarrow> task_st res" where
  "os_task_wait_time_set tid id0 time s = os_assert (tid < nTasks s) ''tid < nTasks''
     (os_assert (time > 0) ''time > 0''
        (bindR (mod_tcb (unat tid) (\<lambda>t. t\<lparr>tcb_clockId := id0, tcb_time := time\<rparr>) s)
           (task_waiting_time_set tid)))"

section \<open>The event wait queue of a task\<close>

text \<open>
  The queue is a bitmap: event \<open>e\<close> is bit \<open>e & 7\<close> of byte \<open>e / 8\<close>.
\<close>

definition event_mask :: "u8 \<Rightarrow> u8" where
  "event_mask eventId = push_bit (unat (eventId AND 7)) 1"

definition event_byte :: "u8 \<Rightarrow> nat" where
  "event_byte eventId = unat (eventId div 8)"

definition wq_add :: "u8 \<Rightarrow> u8 list \<Rightarrow> u8 list res" where
  "wq_add eventId l = bindR (aget l (event_byte eventId)) (\<lambda>b.
     aput l (event_byte eventId) (b OR event_mask eventId))"

definition wq_del :: "u8 \<Rightarrow> u8 list \<Rightarrow> u8 list res" where
  "wq_del eventId l = bindR (aget l (event_byte eventId)) (\<lambda>b.
     aput l (event_byte eventId) (b AND NOT (event_mask eventId)))"

definition wq_mem :: "u8 \<Rightarrow> u8 list \<Rightarrow> bool res" where
  "wq_mem eventId l = bindR (aget l (event_byte eventId)) (\<lambda>b. Inr (b AND event_mask eventId \<noteq> 0))"

text \<open>The two loops run downwards from \<open>EVENT_QUEUE_SIZE - 1\<close> to 0.\<close>

fun wq_zero :: "nat \<Rightarrow> u8 list \<Rightarrow> u8 list res" where
  "wq_zero 0 l = Inr l"
| "wq_zero (Suc e) l = bindR (aput l e 0) (wq_zero e)"

fun wq_scan :: "nat \<Rightarrow> u8 list \<Rightarrow> bool res" where
  "wq_scan 0 l = Inr True"
| "wq_scan (Suc e) l = bindR (aget l e) (\<lambda>b. if b \<noteq> 0 then Inr False else wq_scan e l)"

definition os_task_clear_wait_queue :: "config \<Rightarrow> u8 \<Rightarrow> task_st \<Rightarrow> task_st res" where
  "os_task_clear_wait_queue cfg tid s =
     bindR (mod_tcb (unat tid) (tcb_waitSingleEvent_update (\<lambda>_. False)) s) (\<lambda>s1.
     bindR (tcb_get s1 (unat tid)) (\<lambda>t.
     bindR (wq_zero (EVENT_QUEUE_SIZE cfg) (tcb_eventQueue t)) (\<lambda>q.
       mod_tcb (unat tid) (tcb_eventQueue_update (\<lambda>_. q)) s1)))"

definition os_task_wait_queue_empty :: "config \<Rightarrow> u8 \<Rightarrow> task_st \<Rightarrow> bool res" where
  "os_task_wait_queue_empty cfg tid s =
     bindR (tcb_get s (unat tid)) (\<lambda>t. wq_scan (EVENT_QUEUE_SIZE cfg) (tcb_eventQueue t))"

definition os_task_wait_event :: "u8 \<Rightarrow> u8 \<Rightarrow> bool \<Rightarrow> u32 \<Rightarrow> task_st \<Rightarrow> task_st res" where
  "os_task_wait_event tid eventId waitSingleEvent timeout s = os_assert (tid < nTasks s) ''tid < nTasks''
     (bindR (tcb_get s (unat tid)) (\<lambda>t.
      bindR (wq_add eventId (tcb_eventQueue t)) (\<lambda>q.
      bindR (mod_tcb (unat tid)
              (\<lambda>t. t\<lparr>tcb_eventQueue := q, tcb_waitSingleEvent := waitSingleEvent\<rparr>) s) (\<lambda>s1.
        if timeout \<noteq> 0
        then bindR (os_task_wait_time_set tid 0 timeout s1) (task_waiting_event_timeout_set tid)
        else task_waiting_event_set tid s1))))"

text \<open>One round of the loop of \<open>os_task_signal_event\<close>, for task \<open>i\<close>.\<close>

definition signal_event_body :: "config \<Rightarrow> u8 \<Rightarrow> u8 \<Rightarrow> task_st \<Rightarrow> task_st res" where
  "signal_event_body cfg eventId i s =
     bindR (tcb_get s (unat i)) (\<lambda>t.
     let taskWaitStateOK = (tcb_state t = WAITING_EVENT \<or> tcb_state t = WAITING_EVENT_TIMEOUT) in
     bindR (wq_mem eventId (tcb_eventQueue t)) (\<lambda>taskWaitingForEvent.
       if taskWaitingForEvent \<and> taskWaitStateOK then
         bindR (wq_del eventId (tcb_eventQueue t)) (\<lambda>q.
         bindR (mod_tcb (unat i) (tcb_eventQueue_update (\<lambda>_. q)) s) (\<lambda>s1.
         bindR (if tcb_waitSingleEvent t then Inr True else os_task_wait_queue_empty cfg i s1) (\<lambda>done.
           if done then bindR (os_task_clear_wait_queue cfg i s1) (task_ready_set i)
           else Inr s1)))
       else Inr s))"

definition os_task_signal_event :: "config \<Rightarrow> u8 \<Rightarrow> task_st \<Rightarrow> task_st res" where
  "os_task_signal_event cfg eventId s = for_ne 0 (nTasks s) (signal_event_body cfg eventId) s"

section \<open>The wait queue as a set of events\<close>

lemma event_byte_eq: "event_byte e = unat e div 8"
  by (simp add: event_byte_def unat_div)

lemma event_shift_eq: "unat (e AND 7 :: u8) = unat e mod 8"
proof -
  have "e AND 7 = take_bit 3 e"
    by (simp add: take_bit_eq_mask mask_eq_exp_minus_1)
  then show ?thesis by (simp add: take_bit_eq_mod unat_mod)
qed

lemma bit_event_mask: "bit (event_mask e) k \<longleftrightarrow> k = unat e mod 8"
proof -
  have "unat e mod 8 < 8" by simp
  then show ?thesis
    by (auto simp: event_mask_def event_shift_eq push_bit_eq_mult bit_exp_iff)
qed

lemma event_mask_test: "(b AND event_mask e \<noteq> 0) \<longleftrightarrow> bit b (unat e mod 8)"
  using bit_imp_le_length [of b "unat e mod 8"]
  by (auto simp: bit_eq_iff [of "b AND event_mask e" 0] bit_and_iff bit_event_mask)

definition wq_elems :: "u8 list \<Rightarrow> nat set" where
  "wq_elems l = {e. e div 8 < length l \<and> bit (l ! (e div 8)) (e mod 8)}"

lemma eq_div_mod_8: "x div 8 = e div 8 \<Longrightarrow> x mod 8 = e mod 8 \<Longrightarrow> x = (e :: nat)"
  by (metis div_mult_mod_eq)

lemma wq_add_elems:
  assumes "unat e div 8 < length l"
  shows "wq_add e l = Inr (l[unat e div 8 := l ! (unat e div 8) OR event_mask e])"
    "wq_elems (l[unat e div 8 := l ! (unat e div 8) OR event_mask e]) = insert (unat e) (wq_elems l)"
  using assms
  by (auto simp: wq_add_def event_byte_eq wq_elems_def nth_list_update bit_or_iff bit_event_mask
      intro: eq_div_mod_8 split: if_splits)

lemma wq_del_elems:
  assumes "unat e div 8 < length l"
  shows "wq_del e l = Inr (l[unat e div 8 := l ! (unat e div 8) AND NOT (event_mask e)])"
    "wq_elems (l[unat e div 8 := l ! (unat e div 8) AND NOT (event_mask e)]) = wq_elems l - {unat e}"
  using assms
  by (auto simp: wq_del_def event_byte_eq wq_elems_def nth_list_update bit_and_iff bit_not_iff bit_event_mask
      intro: eq_div_mod_8 split: if_splits)

lemma wq_mem_elems:
  "unat e div 8 < length l \<Longrightarrow> wq_mem e l = Inr (unat e \<in> wq_elems l)"
  by (simp add: wq_mem_def event_byte_eq event_mask_test wq_elems_def)

lemma wq_zero_eq: "n \<le> length l \<Longrightarrow> wq_zero n l = Inr (replicate n 0 @ drop n l)"
proof (induction n arbitrary: l)
  case (Suc n)
  then have "wq_zero n (l[n := 0]) = Inr (replicate n 0 @ drop n (l[n := 0]))" by simp
  moreover have "drop n (l[n := 0]) = 0 # drop (Suc n) l"
    using Suc.prems by (simp add: drop_update_swap Cons_nth_drop_Suc [symmetric])
  ultimately show ?case using Suc.prems by (simp add: replicate_app_Cons_same)
qed simp

lemma wq_scan_eq: "n \<le> length l \<Longrightarrow> wq_scan n l = Inr (\<forall>b \<in> set (take n l). b = 0)"
  by (induction n) (auto simp: take_Suc_conv_app_nth)

lemma wq_elems_empty: "wq_elems l = {} \<longleftrightarrow> (\<forall>b \<in> set l. b = 0)"
proof
  assume e: "wq_elems l = {}"
  show "\<forall>b \<in> set l. b = 0"
  proof
    fix b assume "b \<in> set l"
    then obtain i where i: "i < length l" "b = l ! i" by (auto simp: in_set_conv_nth)
    have "\<not> bit b k" if "k < 8" for k
    proof -
      have "8 * i + k \<notin> wq_elems l" using e by simp
      then show ?thesis using that i by (simp add: wq_elems_def)
    qed
    then show "b = 0" by (intro bit_word_eqI) simp
  qed
next
  assume "\<forall>b \<in> set l. b = 0"
  then have "l ! i = 0" if "i < length l" for i
    using that by simp
  then show "wq_elems l = {}" by (auto simp: wq_elems_def)
qed

lemma wq_elems_bound: "e \<in> wq_elems l \<Longrightarrow> e < 8 * length l"
  by (auto simp: wq_elems_def)

end
