(* ===== verification/Os_Task_Inv.thy ===== *)
theory Os_Task_Inv
  imports Os_Task
begin

text \<open>
  The invariant of the task table, its preservation by every operation of \<open>Os_Task\<close>, and the
  arguments with which the operations do not fault.
\<close>

section \<open>The invariant\<close>

definition task_inv :: "config \<Rightarrow> task_st \<Rightarrow> bool" where
  "task_inv cfg s \<longleftrightarrow>
     length (task_list s) = N_TASKS cfg \<and> N_TASKS cfg < 255 \<and> unat (nTasks s) \<le> N_TASKS cfg \<and>
     (\<forall>i < N_TASKS cfg. length (tcb_eventQueue (task_list s ! i)) = EVENT_QUEUE_SIZE cfg) \<and>
     (\<forall>i < unat (nTasks s). tcb_tid (task_list s ! i) = of_nat i \<and> tcb_taskproc (task_list s ! i) \<noteq> 0) \<and>
     distinct (map tcb_prio (take (unat (nTasks s)) (task_list s))) \<and>
     (last_running_task s = NO_TID \<or> unat (last_running_task s) < max 1 (unat (nTasks s)))"

text \<open>What no operation on an existing task changes.\<close>

definition tcb_same :: "tcb \<Rightarrow> tcb \<Rightarrow> bool" where
  "tcb_same t t' \<longleftrightarrow> tcb_tid t' = tcb_tid t \<and> tcb_prio t' = tcb_prio t \<and>
     tcb_taskproc t' = tcb_taskproc t \<and> tcb_msgQ t' = tcb_msgQ t \<and> length (tcb_eventQueue t') = length (tcb_eventQueue t)"

lemma tcb_same_refl [simp]: "tcb_same t t"
  by (simp add: tcb_same_def)

lemma tcb_get_eq_Inr [res_simps]: "(tcb_get s i = Inr t) \<longleftrightarrow> i < length (task_list s) \<and> task_list s ! i = t"
  by (simp add: tcb_get_def aget_eq_Inr)

lemma tcb_get_in [simp]: "i < length (task_list s) \<Longrightarrow> tcb_get s i = Inr (task_list s ! i)"
  by (simp add: tcb_get_def)

lemma tcb_get_out [simp]: "length (task_list s) \<le> i \<Longrightarrow> tcb_get s i = Inl OutOfBounds"
  by (simp add: tcb_get_def)

lemma mod_tcb_eq_Inr [res_simps]:
  "(mod_tcb i f s = Inr s') \<longleftrightarrow>
     i < length (task_list s) \<and> s' = s\<lparr>task_list := (task_list s)[i := f (task_list s ! i)]\<rparr>"
  by (auto simp: mod_tcb_def bindR_eq_Inr tcb_get_eq_Inr)

lemma mod_tcb_in [simp]:
  "i < length (task_list s) \<Longrightarrow> mod_tcb i f s = Inr (s\<lparr>task_list := (task_list s)[i := f (task_list s ! i)]\<rparr>)"
  by (simp add: mod_tcb_def)

lemma map_prio_take_cong:
  "length l' = length l \<Longrightarrow> (\<And>i. i < length l \<Longrightarrow> tcb_prio (l' ! i) = tcb_prio (l ! i)) \<Longrightarrow>
   map tcb_prio (take m l') = map tcb_prio (take m l)"
  by (rule nth_equalityI) auto

text \<open>A table whose entries agree with the old ones on what never changes keeps the invariant.\<close>

lemma task_inv_same:
  assumes "task_inv cfg s" and "length l' = length (task_list s)"
    and "\<And>i. i < length (task_list s) \<Longrightarrow> tcb_same (task_list s ! i) (l' ! i)"
  shows "task_inv cfg (s\<lparr>task_list := l'\<rparr>)"
proof -
  have "map tcb_prio (take m l') = map tcb_prio (take m (task_list s))" for m
    using assms(2,3) by (intro map_prio_take_cong) (auto simp: tcb_same_def)
  then show ?thesis
    using assms unfolding task_inv_def by (auto simp: tcb_same_def)
qed

lemma task_inv_update:
  assumes "task_inv cfg s" and "tcb_same (task_list s ! i) t'"
  shows "task_inv cfg (s\<lparr>task_list := (task_list s)[i := t']\<rparr>)"
  using assms(2) by (intro task_inv_same [OF assms(1)]) (auto simp: nth_list_update_if)

lemma task_inv_map:
  assumes "task_inv cfg s" and "\<And>t. length (tcb_eventQueue t) = EVENT_QUEUE_SIZE cfg \<Longrightarrow> tcb_same t (h t)"
    and "n \<le> length (task_list s)"
  shows "task_inv cfg (s\<lparr>task_list := map h (take n (task_list s)) @ drop n (task_list s)\<rparr>)"
proof (rule task_inv_same [OF assms(1)])
  fix i assume i: "i < length (task_list s)"
  then have "tcb_same (task_list s ! i) (h (task_list s ! i))"
    using assms(1) by (intro assms(2)) (simp add: task_inv_def)
  then show "tcb_same (task_list s ! i) ((map h (take n (task_list s)) @ drop n (task_list s)) ! i)"
    using i assms(3) by (auto simp: nth_append)
qed (use assms(3) in simp)

lemma task_inv_index: "task_inv cfg s \<Longrightarrow> tid < nTasks s \<Longrightarrow> unat tid < length (task_list s)"
  by (auto simp: task_inv_def word_less_nat_alt)

lemma task_inv_queue:
  "task_inv cfg s \<Longrightarrow> i < length (task_list s) \<Longrightarrow> length (tcb_eventQueue (task_list s ! i)) = EVENT_QUEUE_SIZE cfg"
  by (simp add: task_inv_def)

text \<open>After \<open>os_task_init\<close> the table is empty.\<close>

lemma task_inv_init:
  "length (task_list s) = N_TASKS cfg \<Longrightarrow> N_TASKS cfg < 255 \<Longrightarrow>
   \<forall>t \<in> set (task_list s). length (tcb_eventQueue t) = EVENT_QUEUE_SIZE cfg \<Longrightarrow> task_inv cfg (os_task_init s)"
  by (simp add: task_inv_def os_task_init_def tcb_reset_def)

lemma tcb_get_queue:
  "task_inv cfg s \<Longrightarrow> tcb_get s i = Inr t \<Longrightarrow> length (tcb_eventQueue t) = EVENT_QUEUE_SIZE cfg"
  by (auto simp: tcb_get_eq_Inr task_inv_queue)

section \<open>Preservation\<close>

text \<open>\<open>keeps cfg f\<close>: where \<open>f\<close> ends normally it keeps the invariant, the number of tasks, the
  position of the round-robin scheduler and the message queue of every task.\<close>

definition task_kept :: "config \<Rightarrow> task_st \<Rightarrow> task_st \<Rightarrow> bool" where
  "task_kept cfg s s' \<longleftrightarrow>
     task_inv cfg s' \<and> nTasks s' = nTasks s \<and> last_running_task s' = last_running_task s \<and>
     map tcb_msgQ (task_list s') = map tcb_msgQ (task_list s)"

definition keeps :: "config \<Rightarrow> (task_st \<Rightarrow> task_st res) \<Rightarrow> bool" where
  "keeps cfg f \<longleftrightarrow> (\<forall>s s'. task_inv cfg s \<longrightarrow> f s = Inr s' \<longrightarrow> task_kept cfg s s')"

lemma keepsI: "(\<And>s s'. task_inv cfg s \<Longrightarrow> f s = Inr s' \<Longrightarrow> task_kept cfg s s') \<Longrightarrow> keeps cfg f"
  unfolding keeps_def by blast

lemma keepsD: "keeps cfg f \<Longrightarrow> task_inv cfg s \<Longrightarrow> f s = Inr s' \<Longrightarrow> task_kept cfg s s'"
  unfolding keeps_def by blast

lemma task_kept_refl: "task_inv cfg s \<Longrightarrow> task_kept cfg s s"
  by (simp add: task_kept_def)

lemma task_kept_trans: "task_kept cfg s s1 \<Longrightarrow> task_kept cfg s1 s2 \<Longrightarrow> task_kept cfg s s2"
  by (simp add: task_kept_def)

lemma task_keptD:
  "task_kept cfg s s' \<Longrightarrow> task_inv cfg s'" "task_kept cfg s s' \<Longrightarrow> nTasks s' = nTasks s"
  "task_kept cfg s s' \<Longrightarrow> last_running_task s' = last_running_task s"
  "task_kept cfg s s' \<Longrightarrow> map tcb_msgQ (task_list s') = map tcb_msgQ (task_list s)"
  by (simp_all add: task_kept_def)

text \<open>One rule per way of building an operation.\<close>

lemma keeps_Inr: "keeps cfg Inr"
  by (rule keepsI) (auto intro: task_kept_refl)

lemma keeps_assert: "keeps cfg f \<Longrightarrow> keeps cfg (\<lambda>s. os_assert (b s) e (f s))"
  by (rule keepsI) (auto simp: os_assert_eq_Inr dest: keepsD)

lemma keeps_if: "keeps cfg f \<Longrightarrow> keeps cfg g \<Longrightarrow> keeps cfg (\<lambda>s. if b s then f s else g s)"
  by (rule keepsI) (auto dest: keepsD split: if_splits)

lemma keeps_seq: "keeps cfg f \<Longrightarrow> keeps cfg g \<Longrightarrow> keeps cfg (\<lambda>s. bindR (f s) g)"
  by (rule keepsI) (auto simp: bindR_eq_Inr intro: task_kept_trans dest: keepsD task_keptD(1))

lemma keeps_get:
  assumes "\<And>x s0. task_inv cfg s0 \<Longrightarrow> g s0 = Inr x \<Longrightarrow> keeps cfg (f x)"
  shows "keeps cfg (\<lambda>s. bindR (g s) (\<lambda>x. f x s))"
  by (rule keepsI) (auto simp: bindR_eq_Inr intro: keepsD [OF assms])

lemma keeps_mod:
  assumes "\<And>t. length (tcb_eventQueue t) = EVENT_QUEUE_SIZE cfg \<Longrightarrow> tcb_same t (f t)"
  shows "keeps cfg (mod_tcb i f)"
proof (rule keepsI)
  fix s s' assume inv: "task_inv cfg s" and r: "mod_tcb i f s = Inr s'"
  from r have i: "i < length (task_list s)" and s': "s' = s\<lparr>task_list := (task_list s)[i := f (task_list s ! i)]\<rparr>"
    by (simp_all add: mod_tcb_eq_Inr)
  have "task_inv cfg s'"
    unfolding s' by (intro task_inv_update inv assms task_inv_queue [OF inv i])
  moreover have "tcb_msgQ (f (task_list s ! i)) = tcb_msgQ (task_list s ! i)"
    using assms [OF task_inv_queue [OF inv i]] by (simp add: tcb_same_def)
  ultimately show "task_kept cfg s s'"
    using i by (simp add: task_kept_def s' map_update_same)
qed

lemma keeps_foldR: "(\<And>i. keeps cfg (f i)) \<Longrightarrow> keeps cfg (foldR f is)"
proof (induction "is")
  case Nil
  have "foldR f [] = Inr" by (rule ext) simp
  then show ?case by (simp add: keeps_Inr)
next
  case (Cons i js)
  have "keeps cfg (\<lambda>s. bindR (f i s) (foldR f js))"
    using Cons by (intro keeps_seq) auto
  moreover have "foldR f (i # js) = (\<lambda>s. bindR (f i s) (foldR f js))" by (rule ext) simp
  ultimately show ?case by simp
qed

lemma keeps_for_ne:
  assumes "\<And>i. keeps cfg (f i)"
  shows "keeps cfg (\<lambda>s. for_ne 0 (n s) f s)"
  using keepsD [OF keeps_foldR [of cfg "\<lambda>j. f (of_nat j)"]] assms
  by (intro keepsI) (auto simp: for_ne_fold)

text \<open>The operations.\<close>

lemma keeps_setters:
  "keeps cfg (task_suspended_set tid)" "keeps cfg (task_waiting_time_set tid)"
  "keeps cfg (task_waiting_event_set tid)" "keeps cfg (task_waiting_event_timeout_set tid)"
  "keeps cfg (os_task_internal_state_set tid st)" "keeps cfg (os_task_set_wait_queue tid q)"
  "keeps cfg (os_task_set_change_event tid e)" "keeps cfg (os_task_set_msg_result tid r)"
  unfolding task_suspended_set_def [abs_def] task_waiting_time_set_def [abs_def]
    task_waiting_event_set_def [abs_def] task_waiting_event_timeout_set_def [abs_def]
    os_task_internal_state_set_def [abs_def] os_task_set_wait_queue_def [abs_def]
    os_task_set_change_event_def [abs_def] os_task_set_msg_result_def [abs_def]
  by (rule keeps_mod, simp add: tcb_same_def)+

lemma keeps_asserted:
  "keeps cfg (os_task_kill tid)" "keeps cfg (task_ready_set tid)" "keeps cfg (task_wait_sem_set tid sem)"
  unfolding os_task_kill_def [abs_def] task_ready_set_def [abs_def] task_wait_sem_set_def [abs_def]
  by (rule keeps_assert, rule keeps_mod, simp add: tcb_same_def)+

lemma keeps_ready_set: "keeps cfg (os_task_ready_set tid)"
  unfolding os_task_ready_set_def [abs_def] by (intro keeps_assert keeps_asserted)

lemma keeps_wait_time_set: "keeps cfg (os_task_wait_time_set tid cid time)"
  unfolding os_task_wait_time_set_def [abs_def]
  by (intro keeps_assert keeps_seq keeps_mod keeps_setters) (simp add: tcb_same_def)

lemma keeps_suspend: "keeps cfg (os_task_suspend tid)"
  unfolding os_task_suspend_def [abs_def] Let_def
  by (intro keeps_assert keeps_get keeps_if keeps_seq keeps_mod keeps_setters keeps_Inr)
    (simp_all add: tcb_same_def)

lemma keeps_resume: "keeps cfg (os_task_resume tid)"
  unfolding os_task_resume_def [abs_def]
  by (intro keeps_assert keeps_get keeps_if keeps_mod keeps_Inr) (simp add: tcb_same_def)

lemma keeps_clear_wait_queue: "keeps cfg (os_task_clear_wait_queue cfg tid)"
proof -
  have "keeps cfg (\<lambda>s. bindR (tcb_get s (unat tid)) (\<lambda>t.
     bindR (wq_zero (EVENT_QUEUE_SIZE cfg) (tcb_eventQueue t)) (\<lambda>q.
       mod_tcb (unat tid) (tcb_eventQueue_update (\<lambda>_. q)) s)))"
    by (intro keeps_get keeps_mod) (auto simp: tcb_same_def tcb_get_queue wq_zero_eq)
  then show ?thesis
    unfolding os_task_clear_wait_queue_def [abs_def]
    by (intro keeps_seq keeps_mod) (simp_all add: tcb_same_def)
qed

lemma wq_length:
  "wq_add e l = Inr q \<Longrightarrow> length q = length l" "wq_del e l = Inr q \<Longrightarrow> length q = length l"
  by (auto simp: wq_add_def wq_del_def res_simps)

lemma keeps_wait_event: "keeps cfg (os_task_wait_event tid e single timeout)"
  unfolding os_task_wait_event_def [abs_def]
  by (intro keeps_assert keeps_get keeps_seq keeps_mod keeps_if keeps_wait_time_set keeps_setters)
    (auto simp: tcb_same_def tcb_get_queue dest!: wq_length)

lemma keeps_signal_event_body: "keeps cfg (signal_event_body cfg e i)"
proof -
  have inner: "keeps cfg (\<lambda>s. bindR (mod_tcb (unat i) (tcb_eventQueue_update (\<lambda>_. q)) s) (\<lambda>s1.
         bindR (if single then Inr True else os_task_wait_queue_empty cfg i s1) (\<lambda>done.
           if done then bindR (os_task_clear_wait_queue cfg i s1) (task_ready_set i)
           else Inr s1)))" if "length q = EVENT_QUEUE_SIZE cfg" for q single
    using that
    by (intro keeps_seq keeps_mod keeps_get keeps_if keeps_clear_wait_queue keeps_asserted keeps_Inr)
      (simp add: tcb_same_def)
  show ?thesis
    unfolding signal_event_body_def [abs_def] Let_def
    by (rule keeps_get, rule keeps_get, rule keeps_if, rule keeps_get, rule inner)
      (auto simp: tcb_get_queue intro: keeps_Inr dest!: wq_length)
qed

lemma keeps_signal_event: "keeps cfg (os_task_signal_event cfg e)"
  unfolding os_task_signal_event_def [abs_def] by (intro keeps_for_ne keeps_signal_event_body)

lemmas keeps_ops = keeps_setters keeps_asserted keeps_ready_set keeps_wait_time_set keeps_suspend
  keeps_resume keeps_clear_wait_queue keeps_wait_event keeps_signal_event

section \<open>Concrete tables\<close>

lemma demo_inv3:
  "a \<noteq> b \<Longrightarrow> a \<noteq> c \<Longrightarrow> b \<noteq> c \<Longrightarrow>
   task_inv demo_cfg (demo_tasks [demo_tcb 0 x a, demo_tcb 1 y b, demo_tcb 2 z c])"
proof -
  have "i < 3 \<longleftrightarrow> i = 0 \<or> i = 1 \<or> i = 2" for i :: nat by auto
  then show "a \<noteq> b \<Longrightarrow> a \<noteq> c \<Longrightarrow> b \<noteq> c \<Longrightarrow>
     task_inv demo_cfg (demo_tasks [demo_tcb 0 x a, demo_tcb 1 y b, demo_tcb 2 z c])"
    by (simp add: task_inv_def)
qed

lemmas demo_inv3_Suc = demo_inv3 [unfolded One_nat_def]

end
