(* ===== verification/Os_Wait.thy ===== *)
theory Os_Wait
  imports Os_Task_Inv
begin

text \<open>
  Waiting for events and suspending a task: the wait queue of a task as a set of events (the locale
  \<open>event_set\<close> and its instance on the bitmap), what one signal does to the whole task table, and
  the properties of waiting, signalling, suspending, resuming and killing.
\<close>

section \<open>The contract of a wait queue\<close>

locale event_set =
  fixes wf :: "'q \<Rightarrow> bool" and cap :: nat and elems :: "'q \<Rightarrow> nat set"
    and add :: "u8 \<Rightarrow> 'q \<Rightarrow> 'q res" and del :: "u8 \<Rightarrow> 'q \<Rightarrow> 'q res" and mem :: "u8 \<Rightarrow> 'q \<Rightarrow> bool res"
    and is_empty :: "'q \<Rightarrow> bool res" and clear :: "'q \<Rightarrow> 'q res"
  assumes add_ok: "wf q \<Longrightarrow> unat e < cap \<Longrightarrow> \<exists>q'. add e q = Inr q' \<and> wf q' \<and> elems q' = insert (unat e) (elems q)"
    and del_ok: "wf q \<Longrightarrow> unat e < cap \<Longrightarrow> \<exists>q'. del e q = Inr q' \<and> wf q' \<and> elems q' = elems q - {unat e}"
    and mem_ok: "wf q \<Longrightarrow> unat e < cap \<Longrightarrow> mem e q = Inr (unat e \<in> elems q)"
    and is_empty_ok: "wf q \<Longrightarrow> is_empty q = Inr (elems q = {})"
    and clear_ok: "wf q \<Longrightarrow> \<exists>q'. clear q = Inr q' \<and> wf q' \<and> elems q' = {}"
    and add_out: "wf q \<Longrightarrow> cap \<le> unat e \<Longrightarrow> add e q = Inl OutOfBounds"
begin

lemma add_all:
  "wf q \<Longrightarrow> \<forall>e \<in> set es. unat e < cap \<Longrightarrow>
   \<exists>q'. foldR add es q = Inr q' \<and> wf q' \<and> elems q' = unat ` set es \<union> elems q"
proof (induction es arbitrary: q)
  case (Cons e es)
  then obtain q1 where q1: "add e q = Inr q1" "wf q1" "elems q1 = insert (unat e) (elems q)"
    using add_ok [of q e] by auto
  obtain q2 where "foldR add es q1 = Inr q2" "wf q2" "elems q2 = unat ` set es \<union> elems q1"
    using Cons.IH [OF q1(2)] Cons.prems(2) by auto
  with q1 show ?case by simp
qed simp

text \<open>A cleared queue that is filled with \<open>es\<close> contains exactly the events of \<open>es\<close>.\<close>

lemma clear_add_mem:
  assumes "wf q" and "\<forall>e \<in> set es. unat e < cap" and "unat f < cap"
  shows "\<exists>q'. bindR (clear q) (foldR add es) = Inr q' \<and> mem f q' = Inr (f \<in> set es)"
proof -
  obtain q1 where q1: "clear q = Inr q1" "wf q1" "elems q1 = {}"
    using clear_ok [OF assms(1)] by blast
  obtain q2 where q2: "foldR add es q1 = Inr q2" "wf q2" "elems q2 = unat ` set es"
    using add_all [OF q1(2) assms(2)] q1(3) by auto
  have "unat f \<in> unat ` set es \<longleftrightarrow> f \<in> set es" by (auto simp: word_unat_eq_iff [symmetric])
  then show ?thesis using q1(1) q2 mem_ok [OF q2(2) assms(3)] by simp
qed

end

definition queue_wf :: "config \<Rightarrow> u8 list \<Rightarrow> bool" where
  "queue_wf cfg l \<longleftrightarrow> length l = EVENT_QUEUE_SIZE cfg"

definition event_cap :: "config \<Rightarrow> nat" where
  "event_cap cfg = 8 * EVENT_QUEUE_SIZE cfg"

lemma event_cap_index: "queue_wf cfg l \<Longrightarrow> unat (e :: u8) < event_cap cfg \<longleftrightarrow> unat e div 8 < length l"
  by (auto simp: queue_wf_def event_cap_def)

interpretation wq: event_set "queue_wf cfg" "event_cap cfg" wq_elems wq_add wq_del wq_mem
    "wq_scan (EVENT_QUEUE_SIZE cfg)" "wq_zero (EVENT_QUEUE_SIZE cfg)" for cfg
proof
  fix q :: "u8 list" and e :: u8
  assume wf: "queue_wf cfg q"
  then have len: "length q = EVENT_QUEUE_SIZE cfg" by (simp add: queue_wf_def)
  show "wq_scan (EVENT_QUEUE_SIZE cfg) q = Inr (wq_elems q = {})"
    using len by (simp add: wq_scan_eq wq_elems_empty)
  show "\<exists>q'. wq_zero (EVENT_QUEUE_SIZE cfg) q = Inr q' \<and> queue_wf cfg q' \<and> wq_elems q' = {}"
    using len by (simp add: wq_zero_eq wq_elems_empty queue_wf_def)
  show "event_cap cfg \<le> unat e \<Longrightarrow> wq_add e q = Inl OutOfBounds"
    using event_cap_index [OF wf, of e] by (simp add: wq_add_def event_byte_eq)
  assume "unat e < event_cap cfg"
  then have i: "unat e div 8 < length q" using event_cap_index [OF wf, of e] by simp
  show "\<exists>q'. wq_add e q = Inr q' \<and> queue_wf cfg q' \<and> wq_elems q' = insert (unat e) (wq_elems q)"
    using wq_add_elems [OF i] len by (simp add: queue_wf_def)
  show "\<exists>q'. wq_del e q = Inr q' \<and> queue_wf cfg q' \<and> wq_elems q' = wq_elems q - {unat e}"
    using wq_del_elems [OF i] len by (simp add: queue_wf_def)
  show "wq_mem e q = Inr (unat e \<in> wq_elems q)"
    by (rule wq_mem_elems [OF i])
qed

section \<open>One signal on the task table\<close>

definition event_waiting :: "tcb \<Rightarrow> bool" where
  "event_waiting t \<longleftrightarrow> tcb_state t = WAITING_EVENT \<or> tcb_state t = WAITING_EVENT_TIMEOUT"

text \<open>The events a task still waits for.\<close>

definition pending :: "tcb \<Rightarrow> nat set" where
  "pending t = wq_elems (tcb_eventQueue t)"

definition cleared :: "tcb \<Rightarrow> tcb" where
  "cleared t = t\<lparr>tcb_waitSingleEvent := False, tcb_eventQueue := replicate (length (tcb_eventQueue t)) 0\<rparr>"

lemma cleared_sel [simp]:
  "tcb_state (cleared t) = tcb_state t" "tcb_prio (cleared t) = tcb_prio t" "tcb_tid (cleared t) = tcb_tid t"
  "tcb_taskproc (cleared t) = tcb_taskproc t" "length (tcb_eventQueue (cleared t)) = length (tcb_eventQueue t)"
  "pending (cleared t) = {}" "tcb_waitSingleEvent (cleared t) = False" "tcb_time (cleared t) = tcb_time t"
  by (simp_all add: cleared_def pending_def wq_elems_empty)

definition sig_tcb :: "u8 \<Rightarrow> tcb \<Rightarrow> tcb" where
  "sig_tcb e t =
     (if event_waiting t \<and> unat e \<in> pending t then
        if tcb_waitSingleEvent t \<or> pending t = {unat e}
        then (cleared t)\<lparr>tcb_state := READY\<rparr>
        else t\<lparr>tcb_eventQueue := (tcb_eventQueue t)[unat e div 8 :=
                 tcb_eventQueue t ! (unat e div 8) AND NOT (event_mask e)]\<rparr>
      else t)"

lemma tcb_clear_twice: "cleared (t\<lparr>tcb_eventQueue := q\<rparr>) = (cleared t)\<lparr>tcb_eventQueue := replicate (length q) 0\<rparr>"
  by (simp add: cleared_def)

lemma clear_wait_queue_at:
  assumes "unat tid < length (task_list s)"
    and "length (tcb_eventQueue (task_list s ! unat tid)) = EVENT_QUEUE_SIZE cfg"
  shows "os_task_clear_wait_queue cfg tid s =
    Inr (s\<lparr>task_list := (task_list s)[unat tid := cleared (task_list s ! unat tid)]\<rparr>)"
  using assms by (simp add: os_task_clear_wait_queue_def wq_zero_eq cleared_def)

lemma signal_event_body_at:
  assumes i: "unat i < length (task_list s)" "i < nTasks s"
    and len: "length (tcb_eventQueue (task_list s ! unat i)) = EVENT_QUEUE_SIZE cfg"
    and e: "unat e < event_cap cfg"
  shows "signal_event_body cfg e i s =
    Inr (s\<lparr>task_list := (task_list s)[unat i := sig_tcb e (task_list s ! unat i)]\<rparr>)"
proof -
  let ?t = "task_list s ! unat i"
  let ?q = "tcb_eventQueue ?t"
  let ?q' = "?q[unat e div 8 := ?q ! (unat e div 8) AND NOT (event_mask e)]"
  have b: "unat e div 8 < length ?q" using e len by (auto simp: event_cap_def)
  note del = wq_del_elems [OF b]
  have empty: "wq_scan (EVENT_QUEUE_SIZE cfg) ?q' = Inr (wq_elems ?q' = {})"
    by (rule wq.is_empty_ok) (simp add: queue_wf_def len)
  show ?thesis
  proof (cases "event_waiting ?t \<and> unat e \<in> pending ?t")
    case False
    then show ?thesis
      using i wq_mem_elems [OF b]
      by (auto simp: signal_event_body_def sig_tcb_def event_waiting_def pending_def)
  next
    case True
    then have mem: "wq_mem e ?q = Inr True" and w: "tcb_state ?t = WAITING_EVENT \<or> tcb_state ?t = WAITING_EVENT_TIMEOUT"
      using wq_mem_elems [OF b] by (simp_all add: event_waiting_def pending_def)
    have pe: "(wq_elems ?q - {unat e} = {}) = (pending ?t = {unat e})"
      using True by (auto simp: pending_def)
    show ?thesis
      using i len True mem w del(1) pe
      by (simp add: signal_event_body_def sig_tcb_def os_task_wait_queue_empty_def empty del(2)
          clear_wait_queue_at tcb_clear_twice task_ready_set_def cleared_def)
  qed
qed

text \<open>A signal updates every task on its own.\<close>

lemma signal_event_pointwise:
  assumes inv: "task_inv cfg s" and e: "unat e < event_cap cfg"
  shows "os_task_signal_event cfg e s = Inr (s\<lparr>task_list :=
    map (sig_tcb e) (take (unat (nTasks s)) (task_list s)) @ drop (unat (nTasks s)) (task_list s)\<rparr>)"
proof -
  have n: "unat (nTasks s) \<le> length (task_list s)" "length (task_list s) < 255"
    using inv by (auto simp: task_inv_def)
  have "foldR (\<lambda>j. signal_event_body cfg e (of_nat j)) [0..<unat (nTasks s)] (s\<lparr>task_list := task_list s\<rparr>) =
    Inr (s\<lparr>task_list :=
      map (sig_tcb e) (take (unat (nTasks s)) (task_list s)) @ drop (unat (nTasks s)) (task_list s)\<rparr>)"
  proof (rule foldR_pointwise [where mk = "\<lambda>l. s\<lparr>task_list := l\<rparr>", OF _ n(1)])
    fix j ys
    assume j: "j < unat (nTasks s)" and ys: "length ys = length (task_list s)" "ys ! j = task_list s ! j"
    have u: "unat (of_nat j :: u8) = j" using j n by (intro unat_of_nat_u8) simp
    have "signal_event_body cfg e (of_nat j) (s\<lparr>task_list := ys\<rparr>) =
        Inr ((s\<lparr>task_list := ys\<rparr>)\<lparr>task_list := (task_list (s\<lparr>task_list := ys\<rparr>))
          [unat (of_nat j :: u8) := sig_tcb e (task_list (s\<lparr>task_list := ys\<rparr>) ! unat (of_nat j :: u8))]\<rparr>)"
      using j n ys u task_inv_queue [OF inv, of j]
      by (intro signal_event_body_at e) (simp_all add: word_less_nat_alt)
    then show "signal_event_body cfg e (of_nat j) (s\<lparr>task_list := ys\<rparr>) =
        Inr (s\<lparr>task_list := ys[j := sig_tcb e (task_list s ! j)]\<rparr>)"
      using u ys by simp
  qed
  then show ?thesis by (simp add: os_task_signal_event_def for_ne_fold)
qed

lemma signal_event_at:
  assumes inv: "task_inv cfg s" and e: "unat e < event_cap cfg"
  obtains s' where "os_task_signal_event cfg e s = Inr s'" "task_kept cfg s s'"
    "\<forall>i < length (task_list s). task_list s' ! i =
       (if i < unat (nTasks s) then sig_tcb e (task_list s ! i) else task_list s ! i)"
proof -
  note r = signal_event_pointwise [OF inv e]
  have n: "unat (nTasks s) \<le> length (task_list s)" using inv by (auto simp: task_inv_def)
  show ?thesis
    using r keepsD [OF keeps_signal_event inv r] n by (intro that) (auto simp: nth_append)
qed

text \<open>What a signal does to the wait of one task.\<close>

lemma sig_tcb_pending:
  assumes "queue_wf cfg (tcb_eventQueue t)" and "unat e < event_cap cfg" and "event_waiting t"
  shows "tcb_state (sig_tcb e t) = (if unat e \<in> pending t \<and> (tcb_waitSingleEvent t \<or> pending t = {unat e})
      then READY else tcb_state t)"
    and "\<not> (unat e \<in> pending t \<and> (tcb_waitSingleEvent t \<or> pending t = {unat e})) \<Longrightarrow>
      pending (sig_tcb e t) = pending t - {unat e} \<and> tcb_waitSingleEvent (sig_tcb e t) = tcb_waitSingleEvent t"
proof -
  have b: "unat e div 8 < length (tcb_eventQueue t)"
    using assms(1,2) event_cap_index by blast
  show "tcb_state (sig_tcb e t) = (if unat e \<in> pending t \<and> (tcb_waitSingleEvent t \<or> pending t = {unat e})
      then READY else tcb_state t)"
    using assms(3) by (simp add: sig_tcb_def)
  show "\<not> (unat e \<in> pending t \<and> (tcb_waitSingleEvent t \<or> pending t = {unat e})) \<Longrightarrow>
      pending (sig_tcb e t) = pending t - {unat e} \<and> tcb_waitSingleEvent (sig_tcb e t) = tcb_waitSingleEvent t"
    using assms(3) wq_del_elems(2) [OF b] by (auto simp: sig_tcb_def pending_def)
qed

lemma sig_tcb_not_waiting: "\<not> event_waiting t \<Longrightarrow> sig_tcb e t = t"
  by (simp add: sig_tcb_def)

section \<open>Sequences of signals\<close>

lemma signals_not_waiting:
  assumes "task_inv cfg s" and "i < unat (nTasks s)" and "\<not> event_waiting (task_list s ! i)"
    and "\<forall>e \<in> set es. unat e < event_cap cfg"
  shows "\<exists>s'. foldR (os_task_signal_event cfg) es s = Inr s' \<and> task_kept cfg s s' \<and> task_list s' ! i = task_list s ! i"
  using assms
proof (induction es arbitrary: s)
  case Nil
  then show ?case by (simp add: task_kept_refl)
next
  case (Cons e es)
  then have e: "unat e < event_cap cfg" by simp
  obtain s1 where s1: "os_task_signal_event cfg e s = Inr s1" "task_kept cfg s s1"
    "\<forall>i < length (task_list s). task_list s1 ! i = (if i < unat (nTasks s) then sig_tcb e (task_list s ! i) else task_list s ! i)"
    by (rule signal_event_at [OF Cons.prems(1) e])
  have "i < length (task_list s)" using Cons.prems(1,2) by (auto simp: task_inv_def)
  then have t1: "task_list s1 ! i = task_list s ! i"
    using s1(3) Cons.prems(2,3) by (simp add: sig_tcb_not_waiting)
  have "\<exists>s'. foldR (os_task_signal_event cfg) es s1 = Inr s' \<and> task_kept cfg s1 s' \<and> task_list s' ! i = task_list s1 ! i"
    using Cons.prems t1 task_keptD [OF s1(2)] by (intro Cons.IH) simp_all
  then show ?case using s1(1,2) t1 by (auto intro: task_kept_trans)
qed

text \<open>The condition under which the signals \<open>S\<close> end a wait for the events \<open>W\<close>.\<close>

definition woken :: "bool \<Rightarrow> nat set \<Rightarrow> nat set \<Rightarrow> bool" where
  "woken single W S \<longleftrightarrow> (if single then W \<inter> S \<noteq> {} else W \<subseteq> S)"

lemma woken_insert:
  "W \<noteq> {} \<Longrightarrow> \<not> (e \<in> W \<and> (single \<or> W = {e})) \<Longrightarrow>
   W - {e} \<noteq> {} \<and> woken single W (insert e S) = woken single (W - {e}) S"
  by (auto simp: woken_def)

lemma signals_run:
  assumes "task_inv cfg s" and "i < unat (nTasks s)" and "event_waiting (task_list s ! i)"
    and "pending (task_list s ! i) \<noteq> {}" and "\<forall>e \<in> set es. unat e < event_cap cfg"
  shows "\<exists>s'. foldR (os_task_signal_event cfg) es s = Inr s' \<and> task_kept cfg s s' \<and>
    (if woken (tcb_waitSingleEvent (task_list s ! i)) (pending (task_list s ! i)) (unat ` set es)
     then tcb_state (task_list s' ! i) = READY \<and> pending (task_list s' ! i) = {}
     else tcb_state (task_list s' ! i) = tcb_state (task_list s ! i) \<and>
       pending (task_list s' ! i) = pending (task_list s ! i) - unat ` set es)"
  using assms
proof (induction es arbitrary: s)
  case Nil
  then show ?case by (auto simp: task_kept_refl woken_def)
next
  case (Cons e es)
  let ?t = "task_list s ! i"
  have e: "unat e < event_cap cfg" and es: "\<forall>e \<in> set es. unat e < event_cap cfg" using Cons.prems by simp_all
  obtain s1 where s1: "os_task_signal_event cfg e s = Inr s1" "task_kept cfg s s1"
    "\<forall>i < length (task_list s). task_list s1 ! i = (if i < unat (nTasks s) then sig_tcb e (task_list s ! i) else task_list s ! i)"
    by (rule signal_event_at [OF Cons.prems(1) e])
  note kept = task_keptD [OF s1(2)]
  have len: "i < length (task_list s)" using Cons.prems(1,2) by (auto simp: task_inv_def)
  then have t1: "task_list s1 ! i = sig_tcb e ?t" using s1(3) Cons.prems(2) by simp
  have wf: "queue_wf cfg (tcb_eventQueue ?t)"
    using task_inv_queue [OF Cons.prems(1) len] by (simp add: queue_wf_def)
  show ?case
  proof (cases "unat e \<in> pending ?t \<and> (tcb_waitSingleEvent ?t \<or> pending ?t = {unat e})")
    case True
    then have w: "sig_tcb e ?t = (cleared ?t)\<lparr>tcb_state := READY\<rparr>"
      using Cons.prems(3) by (simp add: sig_tcb_def)
    have "\<exists>s'. foldR (os_task_signal_event cfg) es s1 = Inr s' \<and> task_kept cfg s1 s' \<and> task_list s' ! i = task_list s1 ! i"
      using Cons.prems(2) kept es by (intro signals_not_waiting) (simp_all add: t1 w event_waiting_def)
    moreover have "woken (tcb_waitSingleEvent ?t) (pending ?t) (unat ` set (e # es))"
      using True by (auto simp: woken_def)
    moreover have "pending ((cleared ?t)\<lparr>tcb_state := READY\<rparr>) = {}"
      by (simp add: pending_def cleared_def wq_elems_empty)
    ultimately show ?thesis using s1(1,2) t1 w by (auto intro: task_kept_trans)
  next
    case False
    note st = sig_tcb_pending(1) [OF wf e Cons.prems(3)] sig_tcb_pending(2) [OF wf e Cons.prems(3) False]
    have st1: "tcb_state (task_list s1 ! i) = tcb_state ?t"
      "pending (task_list s1 ! i) = pending ?t - {unat e}"
      "tcb_waitSingleEvent (task_list s1 ! i) = tcb_waitSingleEvent ?t"
      using st False t1 by simp_all
    note wk = woken_insert [OF Cons.prems(4) False, of "unat ` set es"]
    have "event_waiting (task_list s1 ! i)" using Cons.prems(3) st1(1) by (simp add: event_waiting_def)
    with Cons.IH [of s1] kept Cons.prems(2) wk es st1(2)
    obtain s' where s': "foldR (os_task_signal_event cfg) es s1 = Inr s'" "task_kept cfg s1 s'"
      "if woken (tcb_waitSingleEvent (task_list s1 ! i)) (pending (task_list s1 ! i)) (unat ` set es)
       then tcb_state (task_list s' ! i) = READY \<and> pending (task_list s' ! i) = {}
       else tcb_state (task_list s' ! i) = tcb_state (task_list s1 ! i) \<and>
         pending (task_list s' ! i) = pending (task_list s1 ! i) - unat ` set es"
      by auto
    have "pending ?t - {unat e} - unat ` set es = pending ?t - unat ` set (e # es)" by auto
    with s' s1(1,2) st1 wk show ?thesis by (intro exI [of _ s']) (auto intro: task_kept_trans)
  qed
qed

text \<open>One byte per nine events does not have one bit per event.\<close>

lemma nine_bit_bytes:
  assumes "n = 17 \<or> 73 \<le> (n :: nat)"
  shows "8 * (n div 9 + 1) \<le> n - 1"
proof (cases "n div 9 \<le> 8")
  case True
  then have "n < 81" by (simp add: less_eq_div_iff_mult_less_eq div_less_iff_less_mult [symmetric])
  then show ?thesis using assms True by (elim disjE) simp_all
next
  case False
  have "n div 9 * 9 \<le> n" by (rule div_times_less_eq_dividend)
  with False show ?thesis by simp
qed

section \<open>A table with waiting tasks\<close>

text \<open>Task 1 waits for all of the events 0 and 2, task 2 for any of the events 1 and 2.\<close>

definition demo_waiting :: task_st where
  "demo_waiting = demo_tasks [demo_tcb 0 READY 7,
     (demo_tcb 1 WAITING_EVENT 3)\<lparr>tcb_eventQueue := [5]\<rparr>,
     (demo_tcb 2 WAITING_EVENT_TIMEOUT 1)\<lparr>tcb_eventQueue := [6], tcb_waitSingleEvent := True, tcb_time := 4\<rparr>]"

lemma demo_waiting_inv: "task_inv demo_cfg demo_waiting"
proof -
  have "i < 3 \<longleftrightarrow> i = 0 \<or> i = 1 \<or> i = 2" for i :: nat by auto
  then show ?thesis by (simp add: task_inv_def demo_waiting_def)
qed

lemma demo_waiting_sel [simp]:
  "nTasks demo_waiting = 3" "length (task_list demo_waiting) = 3"
  "task_list demo_waiting ! Suc 0 = (demo_tcb 1 WAITING_EVENT 3)\<lparr>tcb_eventQueue := [5]\<rparr>"
  "event_cap demo_cfg = 8"
  by (simp_all add: demo_waiting_def event_cap_def)

lemma demo_pending: "pending (task_list demo_waiting ! Suc 0) = {0, 2}"
proof -
  have "e \<in> wq_elems [5] \<longleftrightarrow> e = 0 \<or> e = 2" for e
  proof (cases "e < 8")
    case True
    then consider "e = 0" | "e = 1" | "e = 2" | "e = 3" | "e = 4" | "e = 5" | "e = 6" | "e = 7" by linarith
    then show ?thesis by cases (simp_all add: wq_elems_def)
  next
    case False
    then show ?thesis using wq_elems_bound [of e "[5]"] by auto
  qed
  then show ?thesis by (auto simp: pending_def)
qed

lemma demo_pending_sel [simp]: "pending ((demo_tcb (Suc 0) WAITING_EVENT 3)\<lparr>tcb_eventQueue := [5]\<rparr>) = {0, 2}"
  using demo_pending by simp

section \<open>Properties\<close>

text \<open>C17: a task that waits for a set of events is woken by a sequence of signals exactly when, for a
  wait for all, every awaited event is among them, and, for a wait for any, at least one is. Then it
  is ready with an empty wait queue; before that it stays in its waiting state and waits for the
  events that have not been signalled. No signal of an event id within the bitmap fails.\<close>

theorem signals_wake:
  assumes "task_inv cfg s" and "i < unat (nTasks s)" and "event_waiting (task_list s ! i)"
    and "pending (task_list s ! i) \<noteq> {}" and "\<forall>e \<in> set es. unat e < event_cap cfg"
  shows "\<exists>s'. foldR (os_task_signal_event cfg) es s = Inr s' \<and> task_inv cfg s' \<and>
    (if (if tcb_waitSingleEvent (task_list s ! i) then pending (task_list s ! i) \<inter> unat ` set es \<noteq> {}
         else pending (task_list s ! i) \<subseteq> unat ` set es)
     then tcb_state (task_list s' ! i) = READY \<and> pending (task_list s' ! i) = {}
     else tcb_state (task_list s' ! i) = tcb_state (task_list s ! i) \<and>
       pending (task_list s' ! i) = pending (task_list s ! i) - unat ` set es)"
  using signals_run [OF assms] unfolding woken_def by (blast dest: task_keptD(1))

theorem signals_wake_witness:
  "\<exists>s'. foldR (os_task_signal_event demo_cfg) [2, 1, 0] demo_waiting = Inr s' \<and>
    tcb_state (task_list s' ! 1) = READY"
proof -
  have "\<exists>s'. foldR (os_task_signal_event demo_cfg) [2, 1, 0] demo_waiting = Inr s' \<and> task_inv demo_cfg s' \<and>
    (if (if tcb_waitSingleEvent (task_list demo_waiting ! Suc 0) then pending (task_list demo_waiting ! Suc 0) \<inter> unat ` set [2, 1, 0 :: u8] \<noteq> {}
         else pending (task_list demo_waiting ! Suc 0) \<subseteq> unat ` set [2, 1, 0 :: u8])
     then tcb_state (task_list s' ! Suc 0) = READY \<and> pending (task_list s' ! Suc 0) = {}
     else tcb_state (task_list s' ! Suc 0) = tcb_state (task_list demo_waiting ! Suc 0) \<and>
       pending (task_list s' ! Suc 0) = pending (task_list demo_waiting ! Suc 0) - unat ` set [2, 1, 0 :: u8])"
    by (rule signals_wake) (simp_all only: demo_waiting_inv demo_pending, simp_all add: event_waiting_def)
  then show ?thesis by (auto simp del: foldR.simps)
qed

text \<open>A signal changes only tasks that wait for the signalled event; a task in any other state,
  suspended or killed ones included, keeps every field, and so does a task that waits for other
  events.\<close>

theorem signal_isolated:
  assumes "task_inv cfg s" and "unat e < event_cap cfg"
  shows "\<exists>s'. os_task_signal_event cfg e s = Inr s' \<and> task_inv cfg s' \<and>
    (\<forall>i < N_TASKS cfg. \<not> event_waiting (task_list s ! i) \<or> unat e \<notin> pending (task_list s ! i) \<longrightarrow>
      task_list s' ! i = task_list s ! i)"
proof -
  obtain s' where s': "os_task_signal_event cfg e s = Inr s'" "task_kept cfg s s'"
    "\<forall>i < length (task_list s). task_list s' ! i =
       (if i < unat (nTasks s) then sig_tcb e (task_list s ! i) else task_list s ! i)"
    by (rule signal_event_at [OF assms])
  have "length (task_list s) = N_TASKS cfg" using assms(1) by (simp add: task_inv_def)
  with s' show ?thesis by (auto simp: sig_tcb_def task_keptD)
qed

theorem signal_isolated_witness:
  "\<exists>s'. os_task_signal_event demo_cfg 1 demo_waiting = Inr s' \<and>
    task_list s' ! 1 = (demo_tcb 1 WAITING_EVENT 3)\<lparr>tcb_eventQueue := [5]\<rparr>"
proof -
  have "unat (1 :: u8) < event_cap demo_cfg" by simp
  from signal_isolated [OF demo_waiting_inv this] obtain s' where
    s': "os_task_signal_event demo_cfg 1 demo_waiting = Inr s'"
    "\<forall>i < N_TASKS demo_cfg. \<not> event_waiting (task_list demo_waiting ! i) \<or> unat (1 :: u8) \<notin> pending (task_list demo_waiting ! i) \<longrightarrow>
      task_list s' ! i = task_list demo_waiting ! i" by blast
  from s'(2) [rule_format, of 1] have "task_list s' ! 1 = task_list demo_waiting ! 1" by simp
  with s'(1) show ?thesis by simp
qed

text \<open>With at most 16 events in total the bitmap has room for every event: waiting for a created
  event does not fault, and the event is added to what the task waits for.\<close>

theorem event_queue_fits:
  assumes "task_inv cfg s" and "N_TOTAL_EVENTS cfg \<le> 16" and "unat e < N_TOTAL_EVENTS cfg" and "tid < nTasks s"
  shows "\<exists>s'. os_task_wait_event tid e single timeout s = Inr s' \<and> task_inv cfg s' \<and>
    event_waiting (task_list s' ! unat tid) \<and>
    pending (task_list s' ! unat tid) = insert (unat e) (pending (task_list s ! unat tid))"
proof -
  have i: "unat tid < length (task_list s)" by (rule task_inv_index [OF assms(1,4)])
  have cap: "unat e < event_cap cfg"
    using assms(2,3) by (auto simp: event_cap_def EVENT_QUEUE_SIZE_def)
  have wf: "queue_wf cfg (tcb_eventQueue (task_list s ! unat tid))"
    using task_inv_queue [OF assms(1) i] by (simp add: queue_wf_def)
  obtain q where q: "wq_add e (tcb_eventQueue (task_list s ! unat tid)) = Inr q"
    "wq_elems q = insert (unat e) (wq_elems (tcb_eventQueue (task_list s ! unat tid)))"
    using wq.add_ok [OF wf cap] by blast
  have "\<exists>s'. os_task_wait_event tid e single timeout s = Inr s' \<and>
    tcb_eventQueue (task_list s' ! unat tid) = q \<and> event_waiting (task_list s' ! unat tid)"
    using q(1) i assms(4)
    by (cases "timeout = 0")
      (simp_all add: os_task_wait_event_def task_waiting_event_set_def event_waiting_def os_task_wait_time_set_def
        word_gt_0 task_waiting_time_set_def task_waiting_event_timeout_set_def)
  then obtain s' where s': "os_task_wait_event tid e single timeout s = Inr s'"
    "tcb_eventQueue (task_list s' ! unat tid) = q" "event_waiting (task_list s' ! unat tid)" by blast
  then show ?thesis
    using q(2) keepsD [OF keeps_wait_event assms(1) s'(1)] by (auto simp: pending_def task_keptD)
qed

theorem event_queue_fits_witness:
  "\<exists>s'. os_task_wait_event 0 1 True 0 demo_waiting = Inr s' \<and> event_waiting (task_list s' ! 0)"
  using event_queue_fits [OF demo_waiting_inv, of 1 0 True 0] by auto

text \<open>C40: the size computed for the bitmap, one byte per nine events, is too small for 17 events,
  and for any number of events from 73 on: waiting for the last event writes past the bitmap.\<close>

theorem event_queue_too_small:
  assumes "task_inv cfg s" and "tid < nTasks s" and "unat e = N_TOTAL_EVENTS cfg - 1"
    and "N_TOTAL_EVENTS cfg = 17 \<or> 73 \<le> N_TOTAL_EVENTS cfg"
  shows "os_task_wait_event tid e single timeout s = Inl OutOfBounds"
proof -
  have i: "unat tid < length (task_list s)" by (rule task_inv_index [OF assms(1,2)])
  have wf: "queue_wf cfg (tcb_eventQueue (task_list s ! unat tid))"
    using task_inv_queue [OF assms(1) i] by (simp add: queue_wf_def)
  have "event_cap cfg \<le> unat e"
    using nine_bit_bytes [OF assms(4)] assms(3) by (simp add: event_cap_def EVENT_QUEUE_SIZE_def)
  then show ?thesis
    using wq.add_out [OF wf] i assms(2) by (simp add: os_task_wait_event_def)
qed

definition events17_cfg :: config where
  "events17_cfg = \<lparr>N_TASKS = 1, N_QUEUES = 1, N_SEMAPHORES = 0, N_EVENTS = 16, ROUND_ROBIN = False\<rparr>"

theorem event_queue_too_small_witness:
  "config_ok events17_cfg \<and> os_task_wait_event 0 16 True 0
     (demo_tasks [(demo_tcb 0 READY 1)\<lparr>tcb_eventQueue := [0, 0]\<rparr>]) = Inl OutOfBounds"
proof
  show "config_ok events17_cfg" by (simp add: config_ok_def events17_cfg_def)
  show "os_task_wait_event 0 16 True 0 (demo_tasks [(demo_tcb 0 READY 1)\<lparr>tcb_eventQueue := [0, 0]\<rparr>]) = Inl OutOfBounds"
    by (rule event_queue_too_small [where cfg = events17_cfg])
      (simp_all add: task_inv_def events17_cfg_def N_TOTAL_EVENTS_def EVENT_QUEUE_SIZE_def)
qed

text \<open>C32: suspending a task that is neither killed nor suspended and resuming it gives the state it
  had back, with all its other data; a task that was waiting for a semaphore is ready instead and
  starts its procedure anew (internal state 0). A second suspension in between changes nothing.\<close>

theorem suspend_resume:
  assumes "task_inv cfg s" and "tid < nTasks s"
    and "tcb_state (task_list s ! unat tid) \<noteq> KILLED" and "tcb_state (task_list s ! unat tid) \<noteq> SUSPENDED"
  shows "\<exists>s1 s2. os_task_suspend tid s = Inr s1 \<and> tcb_state (task_list s1 ! unat tid) = SUSPENDED \<and>
    os_task_suspend tid s1 = Inr s1 \<and> os_task_resume tid s1 = Inr s2 \<and>
    s2 = s\<lparr>task_list := (task_list s)[unat tid :=
      (if tcb_state (task_list s ! unat tid) = WAITING_SEM
       then (task_list s ! unat tid)\<lparr>tcb_savedState := READY, tcb_internal_state := 0, tcb_state := READY\<rparr>
       else (task_list s ! unat tid)\<lparr>tcb_savedState := tcb_state (task_list s ! unat tid)\<rparr>)]\<rparr>"
proof -
  have i: "unat tid < length (task_list s)" by (rule task_inv_index [OF assms(1,2)])
  show ?thesis
    using assms(2-4) i
    by (cases "tcb_state (task_list s ! unat tid) = WAITING_SEM")
      (simp_all add: os_task_suspend_def os_task_resume_def task_suspended_set_def)
qed

theorem suspend_resume_witness:
  "\<exists>s1 s2. os_task_suspend 1 demo_waiting = Inr s1 \<and> os_task_resume 1 s1 = Inr s2 \<and>
    tcb_state (task_list s2 ! 1) = WAITING_EVENT"
proof -
  have "(1 :: u8) < nTasks demo_waiting" by simp
  from suspend_resume [OF demo_waiting_inv this] show ?thesis by auto
qed

text \<open>The functions themselves do not make killing final: a killed task that is told to wait for some ticks is waiting again
  and \<open>os_task_ready_set\<close> makes it ready, although the documentation says that a killed task cannot
  be resumed; \<open>os_task_resume\<close> itself leaves it killed.\<close>

theorem killed_not_final:
  assumes "task_inv cfg s" and "tid < nTasks s" and "0 < time"
  shows "\<exists>s1 s2 s3. os_task_kill tid s = Inr s1 \<and> tcb_state (task_list s1 ! unat tid) = KILLED \<and>
    os_task_resume tid s1 = Inr s1 \<and>
    os_task_wait_time_set tid c time s1 = Inr s2 \<and> tcb_state (task_list s2 ! unat tid) = WAITING_TIME \<and>
    os_task_ready_set tid s1 = Inr s3 \<and> tcb_state (task_list s3 ! unat tid) = READY"
  using assms(2,3) task_inv_index [OF assms(1,2)]
  by (simp add: os_task_kill_def os_task_resume_def os_task_wait_time_set_def task_waiting_time_set_def
      os_task_ready_set_def task_ready_set_def)

theorem killed_not_final_witness:
  "\<exists>s1 s2. os_task_kill 1 demo_waiting = Inr s1 \<and> os_task_wait_time_set 1 0 5 s1 = Inr s2 \<and>
    tcb_state (task_list s2 ! 1) = WAITING_TIME"
proof -
  have "(1 :: u8) < nTasks demo_waiting" "(0 :: u32) < 5" by simp_all
  from killed_not_final [OF demo_waiting_inv this] show ?thesis by fastforce
qed

text \<open>\<open>task_is_killed\<close> does not tell whether a task is killed: it reads the resume point of the
  task procedure, so killing a task does not change its answer, and it answers yes exactly for a
  resume point that is 7 modulo 256.\<close>

theorem is_killed_ignores_kill:
  assumes "task_inv cfg s" and "tid < nTasks s"
  shows "\<exists>s1. os_task_kill tid s = Inr s1 \<and> task_is_killed (ucast tid) s1 = task_is_killed (ucast tid) s \<and>
    task_is_killed (ucast tid) s = Inr (unat (tcb_internal_state (task_list s ! unat tid)) mod 256 = 7)"
proof -
  have i: "unat tid < length (task_list s)" by (rule task_inv_index [OF assms])
  have "(ucast x = (7 :: u8)) \<longleftrightarrow> unat x mod 256 = 7" for x :: u16
    by (simp add: word_unat_eq_iff unsigned_ucast_eq take_bit_eq_mod)
  then show ?thesis
    using i assms(2)
    by (cases "tcb_internal_state (task_list s ! unat tid) = 7")
      (simp_all add: os_task_kill_def task_is_killed_def task_internal_state_get_def Let_def)
qed

theorem is_killed_ignores_kill_witness:
  "\<exists>s1. os_task_kill 1 demo_waiting = Inr s1 \<and> task_is_killed 1 s1 = Inr False"
proof -
  have "(1 :: u8) < nTasks demo_waiting" by simp
  from is_killed_ignores_kill [OF demo_waiting_inv this] show ?thesis by fastforce
qed

end
