(* ===== verification/Os_Event.thy ===== *)
theory Os_Event
  imports Os_Wait
begin

text \<open>
  The event module \<open>os_event.c\<close>: the table of events with the task that signalled each last, the
  operations that wait for and signal events on behalf of a task, and the wait for several events
  with its variable argument list.
\<close>

section \<open>Operations\<close>

definition event_create :: "config \<Rightarrow> event_st \<Rightarrow> (u8 \<times> event_st) res" where
  "event_create cfg s =
     (if N_TOTAL_EVENTS cfg > 0 then
        os_assert (unat (nEvents s) < N_TOTAL_EVENTS cfg) ''nEvents < N_TOTAL_EVENTS''
          (bindR (aput (eventList s) (unat (nEvents s)) \<lparr>event_id = nEvents s, signaledByTid = NO_TID\<rparr>) (\<lambda>l.
             let n = nEvents s + 1 in Inr (n - 1, s\<lparr>eventList := l, nEvents := n\<rparr>)))
      else Inr (0, s))"

definition os_event_init :: "config \<Rightarrow> event_st \<Rightarrow> event_st" where
  "os_event_init cfg s = (if N_TOTAL_EVENTS cfg > 0 then s\<lparr>nEvents := 0\<rparr> else s)"

definition event_signaling_taskId_get :: "config \<Rightarrow> u8 \<Rightarrow> event_st \<Rightarrow> u8 res" where
  "event_signaling_taskId_get cfg eid s =
     (if N_TOTAL_EVENTS cfg > 0
      then bindR (aget (eventList s) (unat eid)) (\<lambda>e. Inr (signaledByTid e))
      else Inr 0)"

definition event_last_signaled_get :: "config \<Rightarrow> event_st \<Rightarrow> u8" where
  "event_last_signaled_get cfg s = (if N_TOTAL_EVENTS cfg > 0 then lastSignaledEvent s else NO_EVENT)"

definition os_event_set_signaling_tid :: "config \<Rightarrow> u8 \<Rightarrow> u8 \<Rightarrow> event_st \<Rightarrow> event_st res" where
  "os_event_set_signaling_tid cfg eid tid s =
     (if N_TOTAL_EVENTS cfg > 0
      then bindR (aget (eventList s) (unat eid)) (\<lambda>e.
           bindR (aput (eventList s) (unat eid) (e\<lparr>signaledByTid := tid\<rparr>)) (\<lambda>l. Inr (s\<lparr>eventList := l\<rparr>)))
      else Inr s)"

text \<open>The callback is a null pointer or a procedure that acts on the kernel.\<close>

definition os_wait_event :: "config \<Rightarrow> u8 \<Rightarrow> u8 \<Rightarrow> bool \<Rightarrow> u32 \<Rightarrow> proc option \<Rightarrow> os \<Rightarrow> os res" where
  "os_wait_event cfg tid eid waitSingleEvent timeout call_back s =
     (if N_TOTAL_EVENTS cfg > 0 then
        if eid < nEvents (os_events s) then
          bindR (on_events (os_event_set_signaling_tid cfg eid NO_TID) s) (\<lambda>s1.
          bindR (on_tasks (os_task_wait_event tid eid waitSingleEvent timeout) s1) (\<lambda>s2.
            case call_back of Some cb \<Rightarrow> cb s2 | None \<Rightarrow> Inr s2))
        else Inr s
      else Inr s)"

definition os_signal_event :: "config \<Rightarrow> u8 \<Rightarrow> os \<Rightarrow> os res" where
  "os_signal_event cfg eid s =
     (if N_TOTAL_EVENTS cfg > 0
      then on_tasks (os_task_signal_event cfg eid) (s\<lparr>os_events := (os_events s)\<lparr>lastSignaledEvent := eid\<rparr>\<rparr>)
      else Inr s)"

text \<open>The macro \<open>OS_INT_SIGNAL_EVENT\<close>, which is \<open>event_ISR_signal\<close>.\<close>

definition OS_INT_SIGNAL_EVENT :: "config \<Rightarrow> u8 \<Rightarrow> os \<Rightarrow> os res" where
  "OS_INT_SIGNAL_EVENT cfg event s =
     bindR (os_signal_event cfg event s) (on_events (os_event_set_signaling_tid cfg event ISR_TID))"

text \<open>
  \<open>os_wait_multiple\<close>: the variable arguments are the list \<open>args\<close>; reading past it is a fault.
  \<open>verify_args\<close> is the loop that looks for \<open>NO_EVENT\<close>, \<open>wait_args\<close> the one that sets the waits.
\<close>

fun verify_args :: "nat \<Rightarrow> nat \<Rightarrow> int list \<Rightarrow> int res" where
  "verify_args nTotal count [] = Inl VaArgOverrun"
| "verify_args nTotal count (event # args) =
     (if event \<noteq> 255 \<and> count + 1 \<le> nTotal then verify_args nTotal (count + 1) args else Inr event)"

fun wait_args :: "u8 \<Rightarrow> bool \<Rightarrow> int \<Rightarrow> int list \<Rightarrow> task_st \<Rightarrow> task_st res" where
  "wait_args tid waitForAll event [] s =
     bindR (os_task_wait_event tid (word_of_int event) (\<not> waitForAll) 0 s) (\<lambda>_. Inl VaArgOverrun)"
| "wait_args tid waitForAll event (arg # args) s =
     bindR (os_task_wait_event tid (word_of_int event) (\<not> waitForAll) 0 s) (\<lambda>s1.
       if arg \<noteq> 255 then wait_args tid waitForAll arg args s1 else Inr s1)"

definition os_wait_multiple :: "config \<Rightarrow> bool \<Rightarrow> int list \<Rightarrow> os \<Rightarrow> os res" where
  "os_wait_multiple cfg waitForAll args s =
     (if N_TOTAL_EVENTS cfg > 0 then
        (case args of
           [] \<Rightarrow> Inl VaArgOverrun
         | first # rest \<Rightarrow>
             bindR (verify_args (N_TOTAL_EVENTS cfg) 0 rest) (\<lambda>event.
               os_assert (event = 255) ''event == NO_EVENT''
                 (let tid = ucast (running_tid (os_kern s)) in
                  on_tasks (\<lambda>t. bindR (os_task_clear_wait_queue cfg tid t) (wait_args tid waitForAll first rest)) s)))
      else Inr s)"

section \<open>The event table\<close>

definition event_inv :: "config \<Rightarrow> event_st \<Rightarrow> bool" where
  "event_inv cfg s \<longleftrightarrow>
     length (eventList s) = N_TOTAL_EVENTS cfg \<and> unat (nEvents s) \<le> N_TOTAL_EVENTS cfg \<and>
     (\<forall>i < unat (nEvents s). event_id (eventList s ! i) = of_nat i)"

lemma event_inv_init:
  "length (eventList s) = N_TOTAL_EVENTS cfg \<Longrightarrow> N_TOTAL_EVENTS cfg = 0 \<longrightarrow> nEvents s = 0 \<Longrightarrow>
   event_inv cfg (os_event_init cfg s)"
  by (auto simp: event_inv_def os_event_init_def)

lemma event_inv_set_tid:
  "event_inv cfg s \<Longrightarrow> os_event_set_signaling_tid cfg e tid s = Inr s' \<Longrightarrow> event_inv cfg s'"
  by (auto simp: event_inv_def os_event_set_signaling_tid_def res_simps nth_list_update split: if_splits)

lemma event_inv_last: "event_inv cfg s \<Longrightarrow> event_inv cfg (s\<lparr>lastSignaledEvent := e\<rparr>)"
  by (simp add: event_inv_def)

lemma event_create_inv:
  assumes "event_inv cfg s" and "N_TOTAL_EVENTS cfg \<le> 255" and "event_create cfg s = Inr (e, s')"
  shows "event_inv cfg s'"
proof (cases "N_TOTAL_EVENTS cfg > 0")
  case True
  with assms(3) have room: "unat (nEvents s) < N_TOTAL_EVENTS cfg"
    by (simp add: event_create_def os_assert_eq_Inr)
  then have "unat (nEvents s + 1) = Suc (unat (nEvents s))"
    using assms(2) unat_add_lem [of "nEvents s" 1] by simp
  then show ?thesis
    using assms(1,3) room
    by (auto simp: event_inv_def event_create_def Let_def nth_list_update less_Suc_eq)
next
  case False
  then show ?thesis using assms by (simp add: event_create_def)
qed

lemma event_create_grows:
  assumes "event_inv cfg s" and "N_TOTAL_EVENTS cfg \<le> 255" and "event_create cfg s = Inr (e, s')"
  shows "nEvents s \<le> nEvents s'"
proof (cases "N_TOTAL_EVENTS cfg > 0")
  case True
  with assms(3) have "unat (nEvents s) < N_TOTAL_EVENTS cfg" "nEvents s' = nEvents s + 1"
    by (auto simp: event_create_def os_assert_eq_Inr bindR_eq_Inr Let_def)
  then show ?thesis using assms(2) unat_add_lem [of "nEvents s" 1] by (simp add: word_le_nat_alt)
qed (use assms in \<open>simp add: event_create_def\<close>)

text \<open>A signal as a function of the task table.\<close>

lemma os_signal_event_eq:
  "0 < N_TOTAL_EVENTS cfg \<Longrightarrow> os_signal_event cfg e s = bindR (os_task_signal_event cfg e (os_tasks s))
     (\<lambda>t. Inr (s\<lparr>os_tasks := t, os_events := (os_events s)\<lparr>lastSignaledEvent := e\<rparr>\<rparr>))"
  by (cases "os_task_signal_event cfg e (os_tasks s)") (simp_all add: os_signal_event_def on_tasks_def)

lemma os_signal_events:
  assumes "0 < N_TOTAL_EVENTS cfg" and "foldR (os_task_signal_event cfg) es (os_tasks s) = Inr t"
  shows "\<exists>s'. foldR (os_signal_event cfg) es s = Inr s' \<and> os_tasks s' = t \<and> os_kern s' = os_kern s \<and>
    lastSignaledEvent (os_events s') = (if es = [] then lastSignaledEvent (os_events s) else last es)"
  using assms(2)
proof (induction es arbitrary: s)
  case Nil
  then show ?case by simp
next
  case (Cons e es)
  from Cons.prems obtain t1 where t1: "os_task_signal_event cfg e (os_tasks s) = Inr t1"
    "foldR (os_task_signal_event cfg) es t1 = Inr t" by (auto simp: bindR_eq_Inr)
  let ?s1 = "s\<lparr>os_tasks := t1, os_events := (os_events s)\<lparr>lastSignaledEvent := e\<rparr>\<rparr>"
  have "foldR (os_task_signal_event cfg) es (os_tasks ?s1) = Inr t" using t1(2) by simp
  from Cons.IH [OF this] t1(1) assms(1) show ?case by (auto simp: os_signal_event_eq)
qed

section \<open>Waiting for several events\<close>

lemma verify_args_ok:
  "\<forall>e \<in> set evs. e \<noteq> 255 \<Longrightarrow> count + length evs \<le> nTotal \<Longrightarrow> verify_args nTotal count (evs @ [255]) = Inr 255"
  by (induction evs arbitrary: count) auto

lemma verify_args_long:
  "\<forall>e \<in> set evs. e \<noteq> 255 \<Longrightarrow> count \<le> nTotal \<Longrightarrow> nTotal < count + length evs \<Longrightarrow>
   \<exists>e. e \<noteq> 255 \<and> verify_args nTotal count (evs @ rest) = Inr e"
proof (induction evs arbitrary: count)
  case (Cons e evs)
  show ?case
  proof (cases "count + 1 \<le> nTotal")
    case True
    then show ?thesis using Cons.IH [of "count + 1"] Cons.prems by simp
  next
    case False
    then show ?thesis using Cons.prems(1) by simp
  qed
qed simp

lemma wait_event_at:
  assumes inv: "task_inv cfg s" and tid: "tid < nTasks s" and e: "unat e < event_cap cfg"
  obtains s' where "os_task_wait_event tid e single 0 s = Inr s'" "task_kept cfg s s'"
    "tcb_state (task_list s' ! unat tid) = WAITING_EVENT"
    "pending (task_list s' ! unat tid) = insert (unat e) (pending (task_list s ! unat tid))"
    "tcb_waitSingleEvent (task_list s' ! unat tid) = single"
proof -
  have i: "unat tid < length (task_list s)" by (rule task_inv_index [OF inv tid])
  have wf: "queue_wf cfg (tcb_eventQueue (task_list s ! unat tid))"
    using task_inv_queue [OF inv i] by (simp add: queue_wf_def)
  obtain q where q: "wq_add e (tcb_eventQueue (task_list s ! unat tid)) = Inr q"
    "wq_elems q = insert (unat e) (wq_elems (tcb_eventQueue (task_list s ! unat tid)))"
    using wq.add_ok [OF wf e] by blast
  define s' where "s' = s\<lparr>task_list := (task_list s)[unat tid := (task_list s ! unat tid)
      \<lparr>tcb_eventQueue := q, tcb_waitSingleEvent := single, tcb_state := WAITING_EVENT\<rparr>]\<rparr>"
  have r: "os_task_wait_event tid e single 0 s = Inr s'"
    using q(1) i tid by (simp add: os_task_wait_event_def task_waiting_event_set_def s'_def)
  show ?thesis
    using that [OF r keepsD [OF keeps_wait_event inv r]] i q(2) by (simp add: s'_def pending_def)
qed

text \<open>The second loop waits for exactly the events it is given, on top of those already awaited.\<close>

lemma wait_args_ok:
  assumes "task_inv cfg s" and "tid < nTasks s"
    and "\<forall>e \<in> insert ev (set evs). unat (e :: u8) < event_cap cfg" and "\<forall>e \<in> set evs. e \<noteq> 255"
  shows "\<exists>s'. wait_args tid waitForAll (uint ev) (map uint evs @ [255]) s = Inr s' \<and> task_kept cfg s s' \<and>
    tcb_state (task_list s' ! unat tid) = WAITING_EVENT \<and>
    pending (task_list s' ! unat tid) = unat ` insert ev (set evs) \<union> pending (task_list s ! unat tid) \<and>
    tcb_waitSingleEvent (task_list s' ! unat tid) = (\<not> waitForAll)"
  using assms
proof (induction evs arbitrary: ev s)
  case Nil
  then have "unat ev < event_cap cfg" by simp
  from wait_event_at [OF Nil.prems(1,2) this, of "\<not> waitForAll"] show ?case by (auto simp: bindR_eq_Inr)
next
  case (Cons e evs)
  then have "unat ev < event_cap cfg" by simp
  from wait_event_at [OF Cons.prems(1,2) this, of "\<not> waitForAll"] obtain s1 where
    s1: "os_task_wait_event tid ev (\<not> waitForAll) 0 s = Inr s1" "task_kept cfg s s1"
      "pending (task_list s1 ! unat tid) = insert (unat ev) (pending (task_list s ! unat tid))" by blast
  have "uint e \<noteq> 255"
    using Cons.prems(4) by (auto simp: word_uint_eq_iff)
  moreover obtain s' where "wait_args tid waitForAll (uint e) (map uint evs @ [255]) s1 = Inr s'" "task_kept cfg s1 s'"
    "tcb_state (task_list s' ! unat tid) = WAITING_EVENT"
    "pending (task_list s' ! unat tid) = unat ` insert e (set evs) \<union> pending (task_list s1 ! unat tid)"
    "tcb_waitSingleEvent (task_list s' ! unat tid) = (\<not> waitForAll)"
    using Cons.IH [of s1 e] Cons.prems task_keptD [OF s1(2)] by auto
  ultimately show ?case using s1 by (auto intro: task_kept_trans)
qed

text \<open>The whole call, for event ids that fit the bitmap.\<close>

definition multiple_args :: "u8 list \<Rightarrow> int list" where
  "multiple_args evs = map uint evs @ [255]"

lemma wait_multiple_ok:
  assumes inv: "task_inv cfg (os_tasks s)" and rt: "running_tid (os_kern s) < ucast (nTasks (os_tasks s))"
    and evs: "evs \<noteq> []" "length evs \<le> N_TOTAL_EVENTS cfg" "\<forall>e \<in> set evs. unat e < event_cap cfg \<and> e \<noteq> 255"
  obtains t where "os_wait_multiple cfg waitForAll (multiple_args evs) s = Inr (s\<lparr>os_tasks := t\<rparr>)"
    "task_kept cfg (os_tasks s) t"
    "tcb_state (task_list t ! unat (running_tid (os_kern s))) = WAITING_EVENT"
    "pending (task_list t ! unat (running_tid (os_kern s))) = unat ` set evs"
    "tcb_waitSingleEvent (task_list t ! unat (running_tid (os_kern s))) = (\<not> waitForAll)"
proof -
  obtain ev rest where er: "evs = ev # rest" using evs(1) by (cases evs) auto
  define tid :: u8 where "tid = ucast (running_tid (os_kern s))"
  have "unat (running_tid (os_kern s)) < unat (nTasks (os_tasks s))" "unat (nTasks (os_tasks s)) < 255"
    using rt inv by (simp_all add: word_less_nat_alt task_inv_def)
  then have u: "unat tid = unat (running_tid (os_kern s))"
    by (simp add: tid_def unsigned_ucast_eq take_bit_nat_eq_self)
  have tid: "tid < nTasks (os_tasks s)"
    using rt u by (simp add: word_less_nat_alt)
  note i = task_inv_index [OF inv tid]
  have clr: "os_task_clear_wait_queue cfg tid (os_tasks s) =
      Inr ((os_tasks s)\<lparr>task_list := (task_list (os_tasks s))[unat tid := cleared (task_list (os_tasks s) ! unat tid)]\<rparr>)"
    (is "_ = Inr ?t1") by (rule clear_wait_queue_at [OF i task_inv_queue [OF inv i]])
  note kept = keepsD [OF keeps_clear_wait_queue inv clr]
  have "pending (task_list ?t1 ! unat tid) = {}" using i by simp
  moreover have "\<forall>e \<in> insert ev (set rest). unat e < event_cap cfg" "\<forall>e \<in> set rest. e \<noteq> 255"
    using evs(3) er by simp_all
  ultimately obtain t where t: "wait_args tid waitForAll (uint ev) (map uint rest @ [255]) ?t1 = Inr t"
    "task_kept cfg ?t1 t" "tcb_state (task_list t ! unat tid) = WAITING_EVENT"
    "pending (task_list t ! unat tid) = unat ` insert ev (set rest)"
    "tcb_waitSingleEvent (task_list t ! unat tid) = (\<not> waitForAll)"
    using wait_args_ok [OF task_keptD(1) [OF kept], of tid ev rest waitForAll] task_keptD(2) [OF kept] tid by auto
  have "\<forall>e \<in> set (map uint rest). e \<noteq> 255"
    using evs(3) er by (auto simp: word_uint_eq_iff)
  then have v: "verify_args (N_TOTAL_EVENTS cfg) 0 (map uint rest @ [255]) = Inr 255"
    using evs(2) er by (intro verify_args_ok) simp_all
  have "0 < N_TOTAL_EVENTS cfg" using evs(2) er by simp
  then have "os_wait_multiple cfg waitForAll (multiple_args evs) s = Inr (s\<lparr>os_tasks := t\<rparr>)"
    using clr t(1) v er by (simp add: os_wait_multiple_def multiple_args_def on_tasks_def tid_def Let_def)
  then show ?thesis
    using that t er task_kept_trans [OF kept t(2)] by (simp add: u)
qed

section \<open>Properties\<close>

text \<open>A kernel with the tasks of \<open>l\<close>, three events, and task 0 running.\<close>

definition demo_os :: "task_st \<Rightarrow> os" where
  "demo_os t = \<lparr>os_tasks = t,
     os_sems = \<lparr>semList = [\<lparr>maxValue = 3, semValue = 1\<rparr>, \<lparr>maxValue = 1, semValue = 0\<rparr>, \<lparr>maxValue = 0, semValue = 0\<rparr>], nSemaphores = 2\<rparr>,
     os_events = \<lparr>eventList = [\<lparr>event_id = 0, signaledByTid = 255\<rparr>, \<lparr>event_id = 1, signaledByTid = 255\<rparr>, \<lparr>event_id = 0, signaledByTid = 0\<rparr>],
       nEvents = 2, lastSignaledEvent = 255\<rparr>,
     os_msgqs = \<lparr>msgQList = [], nQueues = 0\<rparr>,
     os_kern = \<lparr>running = 0, running_tid = 0\<rparr>\<rparr>"

lemma demo_os_sel [simp]:
  "os_tasks (demo_os t) = t" "running_tid (os_kern (demo_os t)) = 0" "running (os_kern (demo_os t)) = 0"
  "nEvents (os_events (demo_os t)) = 2" "event_inv demo_cfg (os_events (demo_os t))"
  "lastSignaledEvent (os_events (demo_os t)) = 255" "nSemaphores (os_sems (demo_os t)) = 2"
  by (simp_all add: demo_os_def event_inv_def less_2_cases_iff)

text \<open>C19: \<open>os_wait_multiple\<close> on a list of at most \<open>N_TOTAL_EVENTS\<close> events followed by \<open>NO_EVENT\<close>
  does not fault; whatever signals follow, the task is ready after them exactly when all the events
  (wait for all) or one of them (wait for any) have been signalled.\<close>

theorem wait_multiple_then_signals:
  assumes "task_inv cfg (os_tasks s)" and "running_tid (os_kern s) < ucast (nTasks (os_tasks s))"
    and "evs \<noteq> []" and "length evs \<le> N_TOTAL_EVENTS cfg"
    and "\<forall>e \<in> set evs. unat e < event_cap cfg \<and> e \<noteq> 255" and "\<forall>e \<in> set es. unat e < event_cap cfg"
  shows "\<exists>s1 s2. os_wait_multiple cfg waitForAll (multiple_args evs) s = Inr s1 \<and>
    foldR (os_signal_event cfg) es s1 = Inr s2 \<and>
    (tcb_state (task_list (os_tasks s2) ! unat (running_tid (os_kern s))) = READY \<longleftrightarrow>
      (if waitForAll then set evs \<subseteq> set es else set evs \<inter> set es \<noteq> {}))"
proof -
  let ?i = "unat (running_tid (os_kern s))"
  obtain t where t: "os_wait_multiple cfg waitForAll (multiple_args evs) s = Inr (s\<lparr>os_tasks := t\<rparr>)"
    "task_kept cfg (os_tasks s) t" "tcb_state (task_list t ! ?i) = WAITING_EVENT"
    "pending (task_list t ! ?i) = unat ` set evs" "tcb_waitSingleEvent (task_list t ! ?i) = (\<not> waitForAll)"
    by (rule wait_multiple_ok [OF assms(1-5)])
  note kept = task_keptD [OF t(2)]
  have i: "?i < unat (nTasks t)" using assms(2) kept(2) by (simp add: word_less_nat_alt)
  have ev: "event_waiting (task_list t ! ?i)" "pending (task_list t ! ?i) \<noteq> {}"
    using t(3,4) assms(3) by (simp_all add: event_waiting_def)
  obtain t' where t': "foldR (os_task_signal_event cfg) es t = Inr t'"
    "if woken (\<not> waitForAll) (unat ` set evs) (unat ` set es)
     then tcb_state (task_list t' ! ?i) = READY \<and> pending (task_list t' ! ?i) = {}
     else tcb_state (task_list t' ! ?i) = WAITING_EVENT \<and> pending (task_list t' ! ?i) = unat ` set evs - unat ` set es"
    using signals_run [OF kept(1) i ev assms(6)] unfolding t(3-5) by blast
  have "0 < N_TOTAL_EVENTS cfg" using assms(3,4) by (cases evs) auto
  moreover have "foldR (os_task_signal_event cfg) es (os_tasks (s\<lparr>os_tasks := t\<rparr>)) = Inr t'" using t'(1) by simp
  ultimately obtain s2 where s2: "foldR (os_signal_event cfg) es (s\<lparr>os_tasks := t\<rparr>) = Inr s2" "os_tasks s2 = t'"
    using os_signal_events by blast
  have inj: "inj (unat :: u8 \<Rightarrow> nat)" by (rule injI) (simp add: word_unat_eq_iff)
  have "woken (\<not> waitForAll) (unat ` set evs) (unat ` set es) \<longleftrightarrow>
      (if waitForAll then set evs \<subseteq> set es else set evs \<inter> set es \<noteq> {})"
    using inj_image_subset_iff [OF inj, of "set evs" "set es"] image_Int [OF inj, of "set evs" "set es"]
    by (auto simp: woken_def)
  with t(1) s2 t'(2) show ?thesis by (auto split: if_split_asm)
qed

theorem wait_multiple_then_signals_witness:
  "\<exists>s1 s2. os_wait_multiple demo_cfg True (multiple_args [0, 2]) (demo_os demo_waiting) = Inr s1 \<and>
    foldR (os_signal_event demo_cfg) [2, 1] s1 = Inr s2 \<and> tcb_state (task_list (os_tasks s2) ! 0) \<noteq> READY"
proof -
  have "\<exists>s1 s2. os_wait_multiple demo_cfg True (multiple_args [0, 2]) (demo_os demo_waiting) = Inr s1 \<and>
    foldR (os_signal_event demo_cfg) [2, 1] s1 = Inr s2 \<and>
    (tcb_state (task_list (os_tasks s2) ! unat (running_tid (os_kern (demo_os demo_waiting)))) = READY \<longleftrightarrow>
      (if True then set [0, 2 :: u8] \<subseteq> set [2, 1] else set [0, 2 :: u8] \<inter> set [2, 1] \<noteq> {}))"
    by (rule wait_multiple_then_signals) (simp_all add: demo_waiting_inv)
  then show ?thesis by (auto simp del: foldR.simps)
qed

text \<open>An argument list whose terminator is not among the first \<open>N_TOTAL_EVENTS + 2\<close> arguments
  is rejected by an assertion, whatever follows, before any task is changed.\<close>

theorem wait_multiple_rejects:
  assumes "N_TOTAL_EVENTS cfg > 0" and "length evs = N_TOTAL_EVENTS cfg + 1" and "\<forall>e \<in> set evs. e \<noteq> 255"
  shows "os_wait_multiple cfg waitForAll (first # evs @ rest) s = Inl (OsAssert ''event == NO_EVENT'')"
proof -
  obtain e where "e \<noteq> 255" "verify_args (N_TOTAL_EVENTS cfg) 0 (evs @ rest) = Inr e"
    using verify_args_long [OF assms(3), of 0 "N_TOTAL_EVENTS cfg" rest] assms(2) by auto
  then show ?thesis using assms(1) by (simp add: os_wait_multiple_def)
qed

theorem wait_multiple_rejects_witness:
  "os_wait_multiple demo_cfg True ([0, 1, 0, 1, 0]) (demo_os demo_waiting) = Inl (OsAssert ''event == NO_EVENT'')"
  using wait_multiple_rejects [of demo_cfg "[1, 0, 1, 0]" True 0 "[]" "demo_os demo_waiting"] by simp

text \<open>Creating an event returns the next free number, which no created event has, with no
  signalling task recorded, and leaves the events created before as they were; when the table is full
  it fails by an assertion.\<close>

theorem event_create_fresh:
  assumes "event_inv cfg s" and "0 < N_TOTAL_EVENTS cfg" and "N_TOTAL_EVENTS cfg \<le> 255"
  shows "if unat (nEvents s) < N_TOTAL_EVENTS cfg
    then \<exists>s'. event_create cfg s = Inr (nEvents s, s') \<and> event_inv cfg s' \<and> unat (nEvents s') = Suc (unat (nEvents s)) \<and>
      event_signaling_taskId_get cfg (nEvents s) s' = Inr NO_TID \<and>
      (\<forall>i < unat (nEvents s). eventList s' ! i = eventList s ! i)
    else event_create cfg s = Inl (OsAssert ''nEvents < N_TOTAL_EVENTS'')"
proof (cases "unat (nEvents s) < N_TOTAL_EVENTS cfg")
  case True
  let ?s' = "s\<lparr>eventList := (eventList s)[unat (nEvents s) := \<lparr>event_id = nEvents s, signaledByTid = 255\<rparr>], nEvents := nEvents s + 1\<rparr>"
  have c: "event_create cfg s = Inr (nEvents s, ?s')"
    using assms(1,2) True by (simp add: event_create_def event_inv_def Let_def)
  have "unat (nEvents s + 1) = Suc (unat (nEvents s))"
    using True assms(3) unat_add_lem [of "nEvents s" 1] by simp
  then show ?thesis
    using True c event_create_inv [OF assms(1,3) c] assms(1,2)
    by (simp add: event_signaling_taskId_get_def event_inv_def)
next
  case False
  then show ?thesis using assms(2) by (simp add: event_create_def)
qed

theorem event_create_fresh_witness:
  "\<exists>s'. event_create demo_cfg (os_events (demo_os demo_waiting)) = Inr (2, s') \<and> unat (nEvents s') = 3"
proof -
  have "0 < N_TOTAL_EVENTS demo_cfg" "N_TOTAL_EVENTS demo_cfg \<le> 255" by simp_all
  from event_create_fresh [OF demo_os_sel(5) this] show ?thesis by auto
qed

text \<open>Waiting for an event that has not been created has no effect at all: the task is not put
  into a waiting state (its next turn comes at once) and the callback is not called.\<close>

theorem wait_unknown_event:
  assumes "nEvents (os_events s) \<le> eid"
  shows "os_wait_event cfg tid eid single timeout call_back s = Inr s"
  using leD [OF assms] by (simp add: os_wait_event_def)

theorem wait_unknown_event_witness:
  "os_wait_event demo_cfg 0 2 True 5 None (demo_os demo_waiting) = Inr (demo_os demo_waiting)"
  by (rule wait_unknown_event) simp

end
