(* ===== verification/Os_Msgqueue.thy ===== *)
theory Os_Msgqueue
  imports Os_Event
begin

text \<open>
  The message queues of \<open>os_msgqueue.c\<close>: a ring of message slots in a byte buffer that the owner of
  the queue provides, and the operations on it at the level of bytes. (\<open>Os_Ring\<close> and \<open>Os_Msgq_Ref\<close> read a
  queue as a list of messages, \<open>Os_Msgq_Tick\<close>, \<open>Os_Msgq_Props\<close> and \<open>Os_Msgq_Period\<close> say what the
  operations do to it.)
\<close>

section \<open>Bytes\<close>

text \<open>The loop \<open>while (msgSz--) *dst++ = *src++\<close> from position \<open>i\<close> of \<open>src\<close> to position \<open>j\<close> of \<open>dst\<close>.\<close>

fun copy_bytes :: "nat \<Rightarrow> bytes \<Rightarrow> nat \<Rightarrow> bytes \<Rightarrow> nat \<Rightarrow> bytes res" where
  "copy_bytes 0 src i dst j = Inr dst"
| "copy_bytes (Suc n) src i dst j =
     bindR (aget src i) (\<lambda>b. bindR (aput dst j b) (\<lambda>dst'. copy_bytes n src (Suc i) dst' (Suc j)))"

text \<open>A 32-bit field at a byte position, least significant byte first.\<close>

definition get32 :: "bytes \<Rightarrow> nat \<Rightarrow> u32 res" where
  "get32 bs i =
     bindR (aget bs i) (\<lambda>b0. bindR (aget bs (i + 1)) (\<lambda>b1. bindR (aget bs (i + 2)) (\<lambda>b2. bindR (aget bs (i + 3)) (\<lambda>b3.
       Inr (ucast b0 OR push_bit 8 (ucast b1) OR push_bit 16 (ucast b2) OR push_bit 24 (ucast b3))))))"

definition put32 :: "bytes \<Rightarrow> nat \<Rightarrow> u32 \<Rightarrow> bytes res" where
  "put32 bs i v =
     bindR (aput bs i (ucast v)) (\<lambda>bs. bindR (aput bs (i + 1) (ucast (drop_bit 8 v))) (\<lambda>bs.
     bindR (aput bs (i + 2) (ucast (drop_bit 16 v))) (\<lambda>bs. aput bs (i + 3) (ucast (drop_bit 24 v)))))"

text \<open>
  The layout of \<open>Msg_t\<close>: \<open>signal\<close>, \<open>reserved\<close> and two padding bytes, then \<open>delay\<close> and \<open>reload\<close>.
\<close>

abbreviation (input) signal_at :: nat where "signal_at \<equiv> 0"
abbreviation (input) delay_at :: nat where "delay_at \<equiv> 4"
abbreviation (input) reload_at :: nat where "reload_at \<equiv> 8"

abbreviation (input) MSG_QUEUE_UNDEF :: u8 where "MSG_QUEUE_UNDEF \<equiv> 0"
abbreviation (input) MSG_QUEUE_EMPTY :: u8 where "MSG_QUEUE_EMPTY \<equiv> 2"
abbreviation (input) MSG_QUEUE_FULL :: u8 where "MSG_QUEUE_FULL \<equiv> 3"
abbreviation (input) MSG_QUEUE_RECEIVED :: u8 where "MSG_QUEUE_RECEIVED \<equiv> 4"
abbreviation (input) MSG_QUEUE_POSTED :: u8 where "MSG_QUEUE_POSTED \<equiv> 5"

section \<open>Operations on one queue\<close>

text \<open>\<open>(i + 1) % size\<close>, computed in \<open>int\<close>; the size is not 0 where it is used.\<close>

definition next_slot :: "OSQueue_t \<Rightarrow> u8 \<Rightarrow> u8" where
  "next_slot q i = of_nat ((unat i + 1) mod unat (q_size q))"

definition slot_at :: "OSQueue_t \<Rightarrow> u8 \<Rightarrow> nat" where
  "slot_at q i = unat i * unat (q_messageSize q)"

definition queue_push :: "OSQueue_t \<Rightarrow> bytes \<Rightarrow> (u8 \<times> OSQueue_t) res" where
  "queue_push q msg =
     (if q_size q = 0 then Inr (MSG_QUEUE_UNDEF, q)
      else if q_head q = q_tail q then Inr (MSG_QUEUE_FULL, q)
      else bindR (copy_bytes (unat (q_messageSize q)) msg 0 (q_list q) (slot_at q (q_head q))) (\<lambda>l.
        Inr (MSG_QUEUE_POSTED, q\<lparr>q_list := l, q_head := (q_head q + 1) mod q_size q\<rparr>)))"

text \<open>
  The loops below end when the index meets the head. That is so within 256 rounds if head and
  tail are below the size; the model gives them 256 rounds and \<open>OutOfFuel\<close> stands for a loop that
  does not end.
\<close>

definition ring_fuel :: nat where "ring_fuel = 256"

fun all_delayed_loop :: "nat \<Rightarrow> OSQueue_t \<Rightarrow> u8 \<Rightarrow> u8 res" where
  "all_delayed_loop 0 q nextMessage = Inl OutOfFuel"
| "all_delayed_loop (Suc fuel) q nextMessage =
     (if nextMessage = q_head q then Inr 1
      else bindR (get32 (q_list q) (slot_at q nextMessage + delay_at)) (\<lambda>delay.
        if delay = 0 then Inr 0 else all_delayed_loop fuel q (next_slot q nextMessage)))"

definition MsgQAllDelayed :: "OSQueue_t \<Rightarrow> u8 res" where
  "MsgQAllDelayed q =
     (if q_size q = 0 then Inl DivByZero
      else all_delayed_loop ring_fuel q (next_slot q (q_tail q)))"

text \<open>One slot: the message is copied out, and back to the head if it stays in the queue.\<close>

definition receive_slot :: "OSQueue_t \<Rightarrow> u8 \<Rightarrow> bytes \<Rightarrow> (bool \<times> bytes \<times> OSQueue_t) res" where
  "receive_slot q tail msg =
     bindR (copy_bytes (unat (q_messageSize q)) (q_list q) (slot_at q tail) msg 0) (\<lambda>msg.
     bindR (get32 msg reload_at) (\<lambda>reload.
     bindR (get32 msg delay_at) (\<lambda>delay.
       let messagePeriodic = (reload > 0); messageTimedOut = (delay = 0) in
       bindR (if messageTimedOut \<and> messagePeriodic then put32 msg delay_at reload else Inr msg) (\<lambda>msg.
         if \<not> messageTimedOut \<or> (messagePeriodic \<and> messageTimedOut) then
           bindR (copy_bytes (unat (q_messageSize q)) msg 0 (q_list q) (slot_at q (q_head q))) (\<lambda>l.
             Inr (messageTimedOut, msg, q\<lparr>q_list := l, q_head := next_slot q (q_head q)\<rparr>))
         else Inr (messageTimedOut, msg, q)))))"

fun receive_loop :: "nat \<Rightarrow> OSQueue_t \<Rightarrow> u8 \<Rightarrow> bytes \<Rightarrow> (bytes \<times> OSQueue_t) res" where
  "receive_loop 0 q tail msg = Inl OutOfFuel"
| "receive_loop (Suc fuel) q tail msg =
     (let tail = next_slot q tail in
      bindR (receive_slot q tail msg) (\<lambda>r. case r of (found, msg, q) \<Rightarrow>
        if found then Inr (msg, q\<lparr>q_tail := tail\<rparr>) else receive_loop fuel q tail msg))"

definition queue_receive :: "OSQueue_t \<Rightarrow> bytes \<Rightarrow> (u8 \<times> bytes \<times> OSQueue_t) res" where
  "queue_receive q msg =
     (if q_size q = 0 then Inl DivByZero
      else if next_slot q (q_tail q) = q_head q then Inr (MSG_QUEUE_EMPTY, msg, q)
      else bindR (MsgQAllDelayed q) (\<lambda>allDelayed.
        if allDelayed = 1 then Inr (MSG_QUEUE_EMPTY, msg, q)
        else bindR (receive_loop ring_fuel q (q_tail q) msg) (\<lambda>r. case r of (msg, q) \<Rightarrow>
          Inr (MSG_QUEUE_RECEIVED, msg, q))))"

section \<open>Operations on the table of queues\<close>

definition empty_queue :: OSMsgQ_t where
  "empty_queue = \<lparr>mq_q = \<lparr>q_list = [], q_messageSize = 0, q_head = 0, q_tail = 0, q_size = 0\<rparr>, mq_taskId = 0, mq_change = 0\<rparr>"

definition os_msgQ_init :: "config \<Rightarrow> msgq_st \<Rightarrow> msgq_st" where
  "os_msgQ_init cfg s =
     (if N_QUEUES cfg > 0 then s\<lparr>nQueues := 0, msgQList := map (\<lambda>_. empty_queue) (msgQList s)\<rparr> else s)"

definition new_queue :: "bytes \<Rightarrow> u8 \<Rightarrow> u16 \<Rightarrow> OSQueue_t" where
  "new_queue buffer n m = \<lparr>q_list = buffer, q_messageSize = m, q_head = 1, q_tail = 0, q_size = n\<rparr>"

definition os_msgQ_create :: "config \<Rightarrow> bytes \<Rightarrow> u8 \<Rightarrow> u16 \<Rightarrow> u8 \<Rightarrow> os \<Rightarrow> (u8 \<times> os) res" where
  "os_msgQ_create cfg buffer nMessages msgSize task_id s =
     (if N_QUEUES cfg > 0 then
        os_assert (unat (nQueues (os_msgqs s)) < N_QUEUES cfg) ''nQueues < N_QUEUES''
          (bindR (event_create cfg (os_events s)) (\<lambda>r. case r of (change, ev) \<Rightarrow>
           bindR (aput (msgQList (os_msgqs s)) (unat (nQueues (os_msgqs s)))
             \<lparr>mq_q = new_queue buffer nMessages msgSize, mq_taskId = task_id, mq_change = change\<rparr>) (\<lambda>l.
             let n = nQueues (os_msgqs s) + 1
             in Inr (n - 1, s\<lparr>os_events := ev, os_msgqs := \<lparr>msgQList = l, nQueues = n\<rparr>\<rparr>))))
      else Inr (0, s))"

fun find_loop :: "OSMsgQ_t list \<Rightarrow> nat \<Rightarrow> nat \<Rightarrow> u8 \<Rightarrow> u8 res" where
  "find_loop l queue 0 task_id = Inr NO_QUEUE"
| "find_loop l queue (Suc k) task_id =
     bindR (aget l queue) (\<lambda>mq. if mq_taskId mq = task_id then Inr (of_nat queue) else find_loop l (Suc queue) k task_id)"

definition os_msgQ_find :: "config \<Rightarrow> u8 \<Rightarrow> msgq_st \<Rightarrow> u8 res" where
  "os_msgQ_find cfg task_id s =
     (if N_QUEUES cfg > 0 then find_loop (msgQList s) 0 (unat (nQueues s)) task_id else Inr NO_QUEUE)"

definition os_msgQ_event_get :: "config \<Rightarrow> u8 \<Rightarrow> msgq_st \<Rightarrow> u8 res" where
  "os_msgQ_event_get cfg queue s =
     (if N_QUEUES cfg > 0 then
        if queue \<ge> nQueues s then Inr NO_EVENT
        else bindR (aget (msgQList s) (unat queue)) (\<lambda>mq. Inr (mq_change mq))
      else Inr NO_EVENT)"

definition set_queue :: "nat \<Rightarrow> OSQueue_t \<Rightarrow> msgq_st \<Rightarrow> msgq_st res" where
  "set_queue i q s =
     bindR (aget (msgQList s) i) (\<lambda>mq. bindR (aput (msgQList s) i (mq\<lparr>mq_q := q\<rparr>)) (\<lambda>l. Inr (s\<lparr>msgQList := l\<rparr>)))"

definition os_msg_post :: "config \<Rightarrow> bytes \<Rightarrow> u8 \<Rightarrow> u32 \<Rightarrow> u32 \<Rightarrow> msgq_st \<Rightarrow> (u8 \<times> bytes \<times> msgq_st) res" where
  "os_msg_post cfg msg queue delay period s =
     (if N_QUEUES cfg > 0 then
        if queue \<ge> nQueues s then Inr (MSG_QUEUE_UNDEF, msg, s)
        else
          bindR (put32 msg delay_at delay) (\<lambda>msg.
          bindR (put32 msg reload_at period) (\<lambda>msg.
          bindR (aget (msgQList s) (unat queue)) (\<lambda>mq.
          bindR (queue_push (mq_q mq) msg) (\<lambda>r. case r of (result, q) \<Rightarrow>
          bindR (set_queue (unat queue) q s) (\<lambda>s. Inr (result, msg, s))))))
      else Inr (0, msg, s))"

definition os_msg_receive :: "config \<Rightarrow> bytes \<Rightarrow> u8 \<Rightarrow> msgq_st \<Rightarrow> (u8 \<times> bytes \<times> msgq_st) res" where
  "os_msg_receive cfg msg queue s =
     (if N_QUEUES cfg > 0 then
        if queue \<ge> nQueues s then Inr (MSG_QUEUE_UNDEF, msg, s)
        else
          bindR (aget (msgQList s) (unat queue)) (\<lambda>mq.
          bindR (queue_receive (mq_q mq) msg) (\<lambda>r. case r of (result, msg, q) \<Rightarrow>
          bindR (set_queue (unat queue) q s) (\<lambda>s. Inr (result, msg, s))))
      else Inr (0, msg, s))"

text \<open>
  The tick of a queue: the head and the message size are read once, the rest from the current state,
  since a signal changes the kernel. One round counts the message at \<open>nextMessage\<close> down.
\<close>

definition tick_slot :: "config \<Rightarrow> u8 \<Rightarrow> u16 \<Rightarrow> u8 \<Rightarrow> os \<Rightarrow> os res" where
  "tick_slot cfg queue msgSz nextMessage s =
     bindR (aget (msgQList (os_msgqs s)) (unat queue)) (\<lambda>mq.
     let l = q_list (mq_q mq); p = unat nextMessage * unat msgSz + delay_at in
     bindR (get32 l p) (\<lambda>delay.
       if delay > 0 then
         bindR (put32 l p (delay - 1)) (\<lambda>l.
         bindR (set_queue (unat queue) ((mq_q mq)\<lparr>q_list := l\<rparr>) (os_msgqs s)) (\<lambda>m.
           if delay - 1 = 0 then OS_INT_SIGNAL_EVENT cfg (mq_change mq) (s\<lparr>os_msgqs := m\<rparr>)
           else Inr (s\<lparr>os_msgqs := m\<rparr>)))
       else Inr s))"

fun tick_loop :: "config \<Rightarrow> u8 \<Rightarrow> u8 \<Rightarrow> u16 \<Rightarrow> nat \<Rightarrow> u8 \<Rightarrow> os \<Rightarrow> os res" where
  "tick_loop cfg queue head msgSz 0 nextMessage s = Inl OutOfFuel"
| "tick_loop cfg queue head msgSz (Suc fuel) nextMessage s =
     (if nextMessage = head then Inr s
      else bindR (tick_slot cfg queue msgSz nextMessage s) (\<lambda>s.
           bindR (aget (msgQList (os_msgqs s)) (unat queue)) (\<lambda>mq.
             tick_loop cfg queue head msgSz fuel (next_slot (mq_q mq) nextMessage) s)))"

definition os_msgQ_tick :: "config \<Rightarrow> u8 \<Rightarrow> os \<Rightarrow> os res" where
  "os_msgQ_tick cfg queue s =
     (if N_QUEUES cfg > 0 then
        bindR (aget (msgQList (os_msgqs s)) (unat queue)) (\<lambda>mq.
          if q_size (mq_q mq) = 0 then Inl DivByZero
          else tick_loop cfg queue (q_head (mq_q mq)) (q_messageSize (mq_q mq)) ring_fuel
                 (next_slot (mq_q mq) (q_tail (mq_q mq))) s)
      else Inr s)"

end
