(* ===== verification/Os_Ring.thy ===== *)
theory Os_Ring
  imports Os_Msgqueue
begin

text \<open>
  Facts about the representation of a message queue: the slots in use of a ring of \<open>n\<close> slots with
  the two indices \<open>h\<close> (head) and \<open>t\<close> (tail), the bytes of a slot, and the fields of a message.
\<close>

section \<open>The slots in use\<close>

definition nxt :: "nat \<Rightarrow> nat \<Rightarrow> nat" where
  "nxt n i = (if Suc i = n then 0 else Suc i)"

definition ring_len :: "nat \<Rightarrow> nat \<Rightarrow> nat \<Rightarrow> nat" where
  "ring_len n h t = (if t < h then h - t - 1 else h + n - t - 1)"

definition live :: "nat \<Rightarrow> nat \<Rightarrow> nat \<Rightarrow> nat list" where
  "live n h t = cyc n (nxt n t) (ring_len n h t)"

lemma nxt_less: "i < n \<Longrightarrow> nxt n i < n"
  by (auto simp: nxt_def)

lemma nxt_mod: "i < n \<Longrightarrow> nxt n i = (i + 1) mod n"
  by (auto simp: nxt_def)

lemma cyc_snoc: "cyc n i (Suc m) = cyc n i m @ [cyc n i (Suc m) ! m]"
  by (induction n i m rule: cyc.induct) auto

lemma cyc_nth_wrap:
  assumes "i < n" and "d < m" and "d < n"
  shows "cyc n i m ! d = (if i + d < n then i + d else i + d - n)"
  using assms by (simp add: cyc_nth mod_if)

lemma live_Nil: "h < n \<Longrightarrow> t < n \<Longrightarrow> live n h t = [] \<longleftrightarrow> nxt n t = h"
  unfolding live_def length_0_conv [symmetric] length_cyc by (auto simp: ring_len_def nxt_def)

lemma live_Cons:
  assumes "h < n" and "t < n" and "nxt n t \<noteq> h"
  shows "live n h t = nxt n t # live n h (nxt n t)"
proof -
  have "ring_len n h t = Suc (ring_len n h (nxt n t))"
    using assms by (auto simp: ring_len_def nxt_def)
  then show ?thesis by (simp add: live_def nxt_def)
qed

lemma length_live: "length (live n h t) = ring_len n h t"
  by (simp add: live_def)

lemma ring_len_less: "h < n \<Longrightarrow> t < n \<Longrightarrow> ring_len n h t < n"
  by (auto simp: ring_len_def)

lemma ring_len_full: "h < n \<Longrightarrow> t < n \<Longrightarrow> ring_len n h t = n - 1 \<longleftrightarrow> h = t"
  by (auto simp: ring_len_def)

lemma live_nth:
  assumes "h < n" and "t < n" and "d < ring_len n h t"
  shows "live n h t ! d = (if nxt n t + d < n then nxt n t + d else nxt n t + d - n)"
  unfolding live_def
  using assms ring_len_less [OF assms(1,2)] nxt_less [OF assms(2)] by (intro cyc_nth_wrap) simp_all

lemma live_less: "h < n \<Longrightarrow> t < n \<Longrightarrow> i \<in> set (live n h t) \<Longrightarrow> i < n"
  using ring_len_less [of h n t] nxt_less [of t n]
  by (auto simp: in_set_conv_nth length_live live_nth)

lemma live_head: "h < n \<Longrightarrow> t < n \<Longrightarrow> h \<notin> set (live n h t)"
  by (auto simp: in_set_conv_nth length_live live_nth ring_len_def nxt_def split: if_split_asm)

lemma live_snoc:
  assumes "h < n" and "t < n" and "h \<noteq> t"
  shows "live n (nxt n h) t = live n h t @ [h]"
proof -
  have len: "ring_len n (nxt n h) t = Suc (ring_len n h t)"
    using assms by (auto simp: ring_len_def nxt_def)
  have "cyc n (nxt n t) (Suc (ring_len n h t)) ! ring_len n h t = h"
    using assms nxt_less [OF assms(2)] ring_len_less [OF assms(1,2)]
    by (subst cyc_nth_wrap) (auto simp: ring_len_def nxt_def)
  then show ?thesis
    unfolding live_def len using cyc_snoc [of n "nxt n t" "ring_len n h t"] by simp
qed

lemma live_distinct:
  assumes "h < n" and "t < n"
  shows "distinct (live n h t)"
  unfolding distinct_conv_nth length_live
  using ring_len_less [OF assms] nxt_less [OF assms(2)]
  by (auto simp: live_nth [OF assms] split: if_split_asm)

section \<open>Bytes of a slot\<close>

lemma copy_bytes_eq:
  "i + n \<le> length src \<Longrightarrow> j + n \<le> length dst \<Longrightarrow>
   copy_bytes n src i dst j = Inr (take j dst @ take n (drop i src) @ drop (j + n) dst)"
proof (induction n src i dst j rule: copy_bytes.induct)
  case (2 n src i dst j)
  then have ij: "i < length src" "j < length dst" by simp_all
  have "copy_bytes n src (Suc i) (dst[j := src ! i]) (Suc j) =
      Inr (take (Suc j) (dst[j := src ! i]) @ take n (drop (Suc i) src) @ drop (Suc j + n) (dst[j := src ! i]))"
    using 2 ij by simp
  moreover have "take (Suc n) (drop i src) = src ! i # take n (drop (Suc i) src)"
    using ij(1) by (simp add: Cons_nth_drop_Suc [symmetric])
  moreover have "take (Suc j) (dst[j := src ! i]) = take j dst @ [src ! i]"
    by (rule take_update_last [OF ij(2)])
  moreover have "drop (Suc j + n) (dst[j := src ! i]) = drop (j + Suc n) dst"
    by simp
  ultimately show ?case using ij by simp
qed simp

text \<open>The field of a message at byte \<open>i\<close>, and its update.\<close>

definition fld :: "bytes \<Rightarrow> nat \<Rightarrow> u32" where
  "fld bs i = ucast (bs ! i) OR push_bit 8 (ucast (bs ! (i + 1))) OR push_bit 16 (ucast (bs ! (i + 2)))
     OR push_bit 24 (ucast (bs ! (i + 3)))"

definition set_fld :: "bytes \<Rightarrow> nat \<Rightarrow> u32 \<Rightarrow> bytes" where
  "set_fld bs i v = bs[i := ucast v, i + 1 := ucast (drop_bit 8 v), i + 2 := ucast (drop_bit 16 v), i + 3 := ucast (drop_bit 24 v)]"

lemma get32_eq: "i + 3 < length bs \<Longrightarrow> get32 bs i = Inr (fld bs i)"
  by (simp add: get32_def fld_def)

lemma put32_eq: "i + 3 < length bs \<Longrightarrow> put32 bs i v = Inr (set_fld bs i v)"
  by (simp add: put32_def set_fld_def)

lemma length_set_fld [simp]: "length (set_fld bs i v) = length bs"
  by (simp add: set_fld_def)

lemma fld_set_same:
  assumes "i + 3 < length bs"
  shows "fld (set_fld bs i v) i = v"
proof -
  let ?w = "ucast (ucast v :: u8) OR push_bit 8 (ucast (ucast (drop_bit 8 v) :: u8)) OR
      push_bit 16 (ucast (ucast (drop_bit 16 v) :: u8)) OR push_bit 24 (ucast (ucast (drop_bit 24 v) :: u8)) :: u32"
  have "?w = v"
  proof (rule bit_word_eqI)
    fix n assume "n < LENGTH(32)"
    then consider "n < 8" | "8 \<le> n \<and> n < 16" | "16 \<le> n \<and> n < 24" | "24 \<le> n \<and> n < 32" by fastforce
    then show "bit ?w n = bit v n"
      by cases (auto simp: bit_simps)
  qed
  then show ?thesis using assms by (simp add: fld_def set_fld_def)
qed

lemma fld_set_other: "i + 4 \<le> j \<or> j + 4 \<le> i \<Longrightarrow> fld (set_fld bs i v) j = fld bs j"
  by (elim disjE) (simp_all add: fld_def set_fld_def)

lemma fld_cong:
  assumes "\<And>k. k < 4 \<Longrightarrow> bs' ! (j + k) = bs ! (i + k)"
  shows "fld bs' j = fld bs i"
  using assms [of 0] assms [of 1] assms [of 2] assms [of 3] by (simp add: fld_def)

end
