(* ===== verification/Os_Msgq_Ref.thy ===== *)
theory Os_Msgq_Ref
  imports Os_Ring
begin

text \<open>
  A message queue as a list of messages: the invariant of a queue, the list it holds, and what
  posting, receiving and the search for a message that is due do to that list.
\<close>

section \<open>Slots in a buffer\<close>

definition sl :: "nat \<Rightarrow> bytes \<Rightarrow> nat \<Rightarrow> bytes" where
  "sl m l i = take m (drop (i * m) l)"

definition wr :: "nat \<Rightarrow> bytes \<Rightarrow> nat \<Rightarrow> bytes \<Rightarrow> bytes" where
  "wr m l i bs = take (i * m) l @ bs @ drop (i * m + m) l"

lemma slot_fits: "i < n \<Longrightarrow> n * m \<le> l \<Longrightarrow> i * m + m \<le> (l :: nat)"
  using mult_le_mono1 [of "Suc i" n m] by simp

lemma length_sl: "i < n \<Longrightarrow> n * m \<le> length l \<Longrightarrow> length (sl m l i) = m"
  using slot_fits [of i n m "length l"] by (simp add: sl_def)

lemma length_wr: "i < n \<Longrightarrow> n * m \<le> length l \<Longrightarrow> length bs = m \<Longrightarrow> length (wr m l i bs) = length l"
  using slot_fits [of i n m "length l"] by (simp add: wr_def)

lemma nth_after_write:
  assumes "a + m \<le> p" and "p + x < length l" and "length bs = m"
  shows "(take a l @ bs @ drop (a + m) l) ! (p + x) = l ! (p + x)"
proof -
  have "a \<le> length l" "\<not> p + x < a" "\<not> p + x - a < m" using assms by linarith+
  then show ?thesis using assms by (simp add: nth_append)
qed

lemma sl_wr:
  assumes "i < n" and "k < n" and "n * m \<le> length l" and "length bs = m"
  shows "sl m (wr m l i bs) k = (if k = i then bs else sl m l k)"
proof (rule nth_equalityI)
  note fit = slot_fits [OF assms(1,3)] slot_fits [OF assms(2,3)]
  note len = length_wr [OF assms(1,3,4)]
  have "length (sl m (wr m l i bs) k) = m"
    using fit(2) len by (simp add: sl_def)
  moreover have "length (sl m l k) = m" by (rule length_sl [OF assms(2,3)])
  ultimately show "length (sl m (wr m l i bs) k) = length (if k = i then bs else sl m l k)"
    using assms(4) by simp
  fix x assume "x < length (sl m (wr m l i bs) k)"
  then have x: "x < m" by (simp add: sl_def)
  have at: "sl m (wr m l i bs) k ! x = wr m l i bs ! (k * m + x)" "sl m l k ! x = l ! (k * m + x)"
    using x fit(2) len by (simp_all add: sl_def)
  consider "k = i" | "Suc k \<le> i" | "Suc i \<le> k" by linarith
  then show "sl m (wr m l i bs) k ! x = (if k = i then bs else sl m l k) ! x"
  proof cases
    case 1
    then show ?thesis using at(1) x fit(1) assms(4) by (simp add: wr_def nth_append)
  next
    case 2
    then have "k * m + m \<le> i * m" using mult_le_mono1 [OF 2, of m] by simp
    then show ?thesis using at x fit 2 by (simp add: wr_def nth_append)
  next
    case 3
    then have le: "i * m + m \<le> k * m" using mult_le_mono1 [OF 3, of m] by simp
    have "wr m l i bs ! (k * m + x) = l ! (k * m + x)"
      unfolding wr_def by (rule nth_after_write [OF le]) (use x fit(2) assms(4) in simp_all)
    then show ?thesis using at 3 by simp
  qed
qed

section \<open>The invariant and the list of messages\<close>

definition queue_inv :: "OSQueue_t \<Rightarrow> bool" where
  "queue_inv q \<longleftrightarrow> 2 \<le> unat (q_size q) \<and> unat (q_head q) < unat (q_size q) \<and> unat (q_tail q) < unat (q_size q) \<and>
     unat (q_size q) * unat (q_messageSize q) \<le> length (q_list q) \<and> 12 \<le> unat (q_messageSize q)"

abbreviation qn :: "OSQueue_t \<Rightarrow> nat" where "qn q \<equiv> unat (q_size q)"
abbreviation qm :: "OSQueue_t \<Rightarrow> nat" where "qm q \<equiv> unat (q_messageSize q)"
abbreviation qh :: "OSQueue_t \<Rightarrow> nat" where "qh q \<equiv> unat (q_head q)"

definition ring :: "OSQueue_t \<Rightarrow> nat \<Rightarrow> bytes list" where
  "ring q t = map (sl (qm q) (q_list q)) (live (qn q) (qh q) t)"

text \<open>The messages of the queue, the oldest first.\<close>

definition qmsgs :: "OSQueue_t \<Rightarrow> bytes list" where
  "qmsgs q = ring q (unat (q_tail q))"

definition mdelay :: "bytes \<Rightarrow> u32" where "mdelay m = fld m delay_at"
definition mreload :: "bytes \<Rightarrow> u32" where "mreload m = fld m reload_at"

lemma u8_less_256: "unat (x :: u8) < 256"
  using unsigned_less [of x, where ?'a = nat] by simp

lemma next_slot_nxt:
  assumes "unat i < qn q"
  shows "unat (next_slot q i) = nxt (qn q) (unat i)"
proof -
  have "nxt (qn q) (unat i) < 256"
    using nxt_less [OF assms] u8_less_256 [of "q_size q"] by (rule less_trans)
  then show ?thesis
    using assms by (simp add: next_slot_def nxt_mod unat_of_nat_u8)
qed

lemma head_step_nxt:
  assumes "unat i < qn q"
  shows "(i + 1) mod q_size q = next_slot q i"
proof -
  have "unat (i + 1) = unat i + 1"
    using assms u8_less_256 [of "q_size q"] unat_add_lem [of i 1] by simp
  then have "unat ((i + 1) mod q_size q) = nxt (qn q) (unat i)"
    using assms by (simp add: unat_mod nxt_mod)
  then show ?thesis using next_slot_nxt [OF assms] by (simp add: word_unat_eq_iff)
qed

text \<open>Writing a message at the head.\<close>

definition put_head :: "OSQueue_t \<Rightarrow> bytes \<Rightarrow> OSQueue_t" where
  "put_head q bs = q\<lparr>q_list := wr (qm q) (q_list q) (qh q) bs, q_head := next_slot q (q_head q)\<rparr>"

lemma put_head_sel [simp]:
  "q_size (put_head q bs) = q_size q" "q_messageSize (put_head q bs) = q_messageSize q"
  "q_tail (put_head q bs) = q_tail q"
  by (simp_all add: put_head_def)

lemma queue_invD:
  assumes "queue_inv q"
  shows "2 \<le> qn q" "qh q < qn q" "unat (q_tail q) < qn q" "qn q * qm q \<le> length (q_list q)" "12 \<le> qm q"
    "q_size q \<noteq> 0"
  using assms by (auto simp: queue_inv_def)

lemma put_head_ring:
  assumes "queue_inv q" and "t < qn q" and "qh q \<noteq> t" and "length bs = qm q"
  shows "queue_inv (put_head q bs)" "ring (put_head q bs) t = ring q t @ [bs]"
proof -
  note inv = queue_invD [OF assms(1)]
  have h: "unat (next_slot q (q_head q)) = nxt (qn q) (qh q)"
    by (rule next_slot_nxt [OF inv(2)])
  have w: "sl (qm q) (wr (qm q) (q_list q) (qh q) bs) k = (if k = qh q then bs else sl (qm q) (q_list q) k)"
    if "k < qn q" for k
    by (rule sl_wr [OF inv(2) that inv(4) assms(4)])
  have len: "length (q_list (put_head q bs)) = length (q_list q)"
    using length_wr [OF inv(2,4) assms(4)] by (simp add: put_head_def)
  have "q_head (put_head q bs) = next_slot q (q_head q)" by (simp add: put_head_def)
  then show "queue_inv (put_head q bs)"
    unfolding queue_inv_def put_head_sel len
    by (intro conjI inv) (simp only: h nxt_less [OF inv(2)])
  have "map (sl (qm q) (wr (qm q) (q_list q) (qh q) bs)) (live (qn q) (qh q) t) = map (sl (qm q) (q_list q)) (live (qn q) (qh q) t)"
    using live_less [OF inv(2) assms(2)] live_head [OF inv(2) assms(2)] w by (intro map_cong) auto
  then show "ring (put_head q bs) t = ring q t @ [bs]"
    using w [OF inv(2)] h live_snoc [OF inv(2) assms(2,3)] by (simp add: ring_def put_head_def)
qed

lemma ring_Cons:
  assumes "queue_inv q" and "t < qn q" and "ring q t = x # xs"
  shows "nxt (qn q) t < qn q" "qh q \<noteq> nxt (qn q) t" "sl (qm q) (q_list q) (nxt (qn q) t) = x"
    "ring q (nxt (qn q) t) = xs" "length x = qm q"
proof -
  note inv = queue_invD [OF assms(1)]
  show lt: "nxt (qn q) t < qn q" by (rule nxt_less [OF assms(2)])
  show ne: "qh q \<noteq> nxt (qn q) t"
  proof -
    have "live (qn q) (qh q) t \<noteq> []" using assms(3) unfolding ring_def by (rule contrapos_pn) simp
    then have "nxt (qn q) t \<noteq> qh q" unfolding live_Nil [OF inv(2) assms(2)] .
    then show ?thesis by (rule not_sym)
  qed
  show x: "sl (qm q) (q_list q) (nxt (qn q) t) = x" and "ring q (nxt (qn q) t) = xs"
    using assms(3) live_Cons [OF inv(2) assms(2) ne [symmetric]] by (simp_all add: ring_def)
  show "length x = qm q"
    using length_sl [OF lt inv(4)] x by simp
qed

lemma ring_Nil: "queue_inv q \<Longrightarrow> t < qn q \<Longrightarrow> ring q t = [] \<longleftrightarrow> nxt (qn q) t = qh q"
  using queue_invD [of q] live_Nil [of "qh q" "qn q" t] by (auto simp: ring_def)

lemma ring_length: "queue_inv q \<Longrightarrow> t < qn q \<Longrightarrow> length (ring q t) \<le> qn q - 1 \<and> (length (ring q t) = qn q - 1 \<longleftrightarrow> qh q = t)"
  using queue_invD [of q] ring_len_less [of "qh q" "qn q" t] ring_len_full [of "qh q" "qn q" t]
  by (auto simp: ring_def length_live)

lemma ring_fuel_enough:
  assumes "queue_inv q" and "t < qn q"
  shows "length (ring q t) < ring_fuel"
proof -
  have "length (ring q t) \<le> qn q - 1" using ring_length [OF assms] by blast
  then show ?thesis using u8_less_256 [of "q_size q"] by (simp add: ring_fuel_def)
qed

lemma ring_tail [simp]: "ring (q\<lparr>q_tail := x\<rparr>) t = ring q t"
  by (simp add: ring_def)

section \<open>Posting\<close>

lemma queue_push_refines:
  assumes "queue_inv q" and "qm q \<le> length msg"
  shows "if length (qmsgs q) = qn q - 1 then queue_push q msg = Inr (MSG_QUEUE_FULL, q)
    else \<exists>q'. queue_push q msg = Inr (MSG_QUEUE_POSTED, q') \<and> queue_inv q' \<and> qmsgs q' = qmsgs q @ [take (qm q) msg] \<and>
      q_size q' = q_size q \<and> q_messageSize q' = q_messageSize q"
proof (cases "qh q = unat (q_tail q)")
  case True
  then have "q_head q = q_tail q" by (simp add: word_unat_eq_iff)
  then show ?thesis
    using True ring_length [OF assms(1) queue_invD(3) [OF assms(1)]] queue_invD(6) [OF assms(1)]
    by (simp add: queue_push_def qmsgs_def)
next
  case False
  note inv = queue_invD [OF assms(1)]
  have ne: "q_head q \<noteq> q_tail q" using False by auto
  have "copy_bytes (qm q) msg 0 (q_list q) (slot_at q (q_head q)) = Inr (wr (qm q) (q_list q) (qh q) (take (qm q) msg))"
    using assms(2) slot_fits [OF inv(2,4)] by (simp add: copy_bytes_eq slot_at_def wr_def)
  then have r: "queue_push q msg = Inr (MSG_QUEUE_POSTED, put_head q (take (qm q) msg))"
    using ne inv(6) head_step_nxt [OF inv(2)] by (simp add: queue_push_def put_head_def)
  have len: "length (take (qm q) msg) = qm q" using assms(2) by simp
  have "length (qmsgs q) \<noteq> qn q - 1"
    using ring_length [OF assms(1) inv(3)] False by (simp add: qmsgs_def)
  then show ?thesis
    using r put_head_ring [OF assms(1) inv(3) False len] by (simp add: qmsgs_def)
qed

section \<open>Receiving\<close>

text \<open>The message as it is delivered: a periodic one gets its delay back.\<close>

definition delivered :: "bytes \<Rightarrow> bytes" where
  "delivered m = (if mdelay m = 0 \<and> 0 < mreload m then set_fld m delay_at (mreload m) else m)"

lemma length_delivered [simp]: "length (delivered m) = length m"
  by (simp add: delivered_def)

lemma fld_append: "i + 4 \<le> length m \<Longrightarrow> fld (m @ r) i = fld m i"
  by (rule fld_cong) (simp add: nth_append)

lemma set_fld_append: "i + 4 \<le> length m \<Longrightarrow> set_fld (m @ r) i v = set_fld m i v @ r"
  by (simp add: set_fld_def list_update_append1)

lemma receive_slot_eq:
  assumes inv: "queue_inv q" and t: "unat t < qn q" and len: "qm q \<le> length msg"
    and m: "sl (qm q) (q_list q) (unat t) = m"
  shows "receive_slot q t msg = Inr (mdelay m = 0, delivered m @ drop (qm q) msg,
    if mdelay m = 0 \<and> mreload m = 0 then q else put_head q (delivered m))"
proof -
  note qi = queue_invD [OF inv]
  have lm: "length m = qm q" using length_sl [OF t qi(4)] m by simp
  have fits: "unat t * qm q + qm q \<le> length (q_list q)" "qh q * qm q + qm q \<le> length (q_list q)"
    by (rule slot_fits [OF t qi(4)], rule slot_fits [OF qi(2,4)])
  let ?msg = "m @ drop (qm q) msg"
  have cp: "copy_bytes (qm q) (q_list q) (slot_at q t) msg 0 = Inr ?msg"
    using fits(1) len m by (simp add: copy_bytes_eq slot_at_def sl_def)
  have f: "get32 ?msg reload_at = Inr (mreload m)" "get32 ?msg delay_at = Inr (mdelay m)"
    using lm qi(5) len by (simp_all add: get32_eq fld_append mreload_def mdelay_def)
  have put: "put32 ?msg delay_at v = Inr (set_fld m delay_at v @ drop (qm q) msg)" for v
    using lm qi(5) len by (simp add: put32_eq set_fld_append)
  have back_eq: "copy_bytes (qm q) (x @ drop (qm q) msg) 0 (q_list q) (slot_at q (q_head q)) = Inr (wr (qm q) (q_list q) (qh q) x)"
    if "length x = qm q" for x
    using fits(2) that len by (simp add: copy_bytes_eq slot_at_def wr_def)
  consider "mdelay m \<noteq> 0" | "mdelay m = 0" "mreload m = 0" | "mdelay m = 0" "0 < mreload m"
    by (auto simp: word_gt_0)
  then show ?thesis
    by cases (simp_all add: receive_slot_def cp f put back_eq lm delivered_def put_head_def Let_def)
qed

text \<open>The loop: the messages \<open>ds\<close> that are not due go to the back, then \<open>m\<close> is delivered.\<close>

lemma receive_loop_refines:
  assumes "queue_inv q" and "unat t < qn q" and "qm q \<le> length msg" and "length ds < fuel"
    and "ring q (unat t) = ds @ m # rest" and "\<forall>d \<in> set ds. mdelay d \<noteq> 0" and "mdelay m = 0"
  shows "\<exists>q'. receive_loop fuel q t msg = Inr (delivered m @ drop (qm q) msg, q') \<and> queue_inv q' \<and>
    qmsgs q' = rest @ ds @ (if mreload m = 0 then [] else [delivered m]) \<and>
    q_size q' = q_size q \<and> q_messageSize q' = q_messageSize q"
  using assms
proof (induction ds arbitrary: q t msg fuel rest)
  case Nil
  then obtain f where f: "fuel = Suc f" by (cases fuel) auto
  from Nil.prems(5) have "ring q (unat t) = m # rest" by simp
  note rc = ring_Cons [OF Nil.prems(1,2) this]
  have u: "unat (next_slot q t) = nxt (qn q) (unat t)" by (rule next_slot_nxt [OF Nil.prems(2)])
  have r: "receive_slot q (next_slot q t) msg = Inr (True, delivered m @ drop (qm q) msg,
      if mreload m = 0 then q else put_head q (delivered m))"
    using receive_slot_eq [OF Nil.prems(1) _ Nil.prems(3), of "next_slot q t" m] rc u Nil.prems(7) by simp
  note ph = put_head_ring [OF Nil.prems(1) rc(1,2), of "delivered m"]
  have step: "queue_inv (q0\<lparr>q_tail := next_slot q t\<rparr>)" if "queue_inv q0" "q_size q0 = q_size q" for q0
    using that rc(1) u by (simp add: queue_inv_def)
  show ?case
    using f r rc(4,5) u ph Nil.prems(1) step [OF Nil.prems(1)] step [of "put_head q (delivered m)"]
    by (cases "mreload m = 0") (simp_all add: qmsgs_def)
next
  case (Cons d ds)
  then obtain f where f: "fuel = Suc f" "length ds < f" by (cases fuel) auto
  from Cons.prems(5) have "ring q (unat t) = d # ds @ m # rest" by simp
  note rc = ring_Cons [OF Cons.prems(1,2) this]
  have u: "unat (next_slot q t) = nxt (qn q) (unat t)" by (rule next_slot_nxt [OF Cons.prems(2)])
  have d: "mdelay d \<noteq> 0" "delivered d = d" using Cons.prems(6) by (auto simp: delivered_def)
  have r: "receive_slot q (next_slot q t) msg = Inr (False, d @ drop (qm q) msg, put_head q d)"
    using receive_slot_eq [OF Cons.prems(1) _ Cons.prems(3), of "next_slot q t" d] rc u d by simp
  note ph = put_head_ring [OF Cons.prems(1) rc(1,2,5)]
  have "\<exists>q'. receive_loop f (put_head q d) (next_slot q t) (d @ drop (qm q) msg) =
      Inr (delivered m @ drop (qm (put_head q d)) (d @ drop (qm q) msg), q') \<and> queue_inv q' \<and>
    qmsgs q' = (rest @ [d]) @ ds @ (if mreload m = 0 then [] else [delivered m]) \<and>
    q_size q' = q_size (put_head q d) \<and> q_messageSize q' = q_messageSize (put_head q d)"
    using ph rc f u Cons.prems by (intro Cons.IH) simp_all
  then show ?case using f(1) r rc(5) by simp
qed

text \<open>The search for a message that is due.\<close>

lemma all_delayed_loop_eq:
  assumes "queue_inv q" and "unat t < qn q" and "length (ring q (unat t)) < fuel"
  shows "all_delayed_loop fuel q (next_slot q t) = Inr (if \<forall>m \<in> set (ring q (unat t)). mdelay m \<noteq> 0 then 1 else 0)"
  using assms(2,3)
proof (induction "ring q (unat t)" arbitrary: t fuel)
  case Nil
  then obtain f where f: "fuel = Suc f" by (cases fuel) auto
  have "nxt (qn q) (unat t) = qh q" using ring_Nil [OF assms(1) Nil.prems(1)] Nil.hyps by simp
  then have "next_slot q t = q_head q" using next_slot_nxt [OF Nil.prems(1)] by (simp add: word_unat_eq_iff)
  then show ?case using f by (simp add: Nil.hyps [symmetric])
next
  case (Cons m ms)
  obtain f where f: "fuel = Suc f" "length ms < f"
    using Cons.prems(2) unfolding Cons.hyps(2) [symmetric] by (cases fuel) auto
  note rc = ring_Cons [OF assms(1) Cons.prems(1) Cons.hyps(2) [symmetric]]
  note qi = queue_invD [OF assms(1)]
  have u: "unat (next_slot q t) = nxt (qn q) (unat t)" by (rule next_slot_nxt [OF Cons.prems(1)])
  then have ne: "next_slot q t \<noteq> q_head q" using rc(2) by auto
  have fit: "nxt (qn q) (unat t) * qm q + qm q \<le> length (q_list q)" by (rule slot_fits [OF rc(1) qi(4)])
  have "fld (q_list q) (nxt (qn q) (unat t) * qm q + delay_at) = fld m delay_at"
    using fit qi(5) rc(3) by (intro fld_cong) (auto simp: sl_def add.assoc)
  then have g: "get32 (q_list q) (slot_at q (next_slot q t) + delay_at) = Inr (mdelay m)"
    using fit qi(5) u by (simp add: get32_eq slot_at_def mdelay_def)
  have IH: "all_delayed_loop f q (next_slot q (next_slot q t)) = Inr (if \<forall>m \<in> set ms. mdelay m \<noteq> 0 then 1 else 0)"
    using Cons.hyps(1) [of "next_slot q t" f] rc(1,4) u f(2) by simp
  show ?case
    using f(1) ne g IH by (simp add: Cons.hyps(2) [symmetric])
qed

lemma MsgQAllDelayed_eq:
  assumes "queue_inv q"
  shows "MsgQAllDelayed q = Inr (if \<forall>m \<in> set (qmsgs q). mdelay m \<noteq> 0 then 1 else 0)"
proof -
  note qi = queue_invD [OF assms]
  have "length (ring q (unat (q_tail q))) < ring_fuel" by (rule ring_fuel_enough [OF assms qi(3)])
  then show ?thesis
    using all_delayed_loop_eq [OF assms qi(3)] qi(6) by (simp add: MsgQAllDelayed_def qmsgs_def)
qed

lemma queue_receive_none:
  assumes "queue_inv q" and "\<forall>m \<in> set (qmsgs q). mdelay m \<noteq> 0"
  shows "queue_receive q msg = Inr (MSG_QUEUE_EMPTY, msg, q)"
  using queue_invD(6) [OF assms(1)] MsgQAllDelayed_eq [OF assms(1)] assms(2)
  by (simp add: queue_receive_def)

lemma queue_receive_some:
  assumes "queue_inv q" and "qm q \<le> length msg" and "qmsgs q = ds @ m # rest"
    and "\<forall>d \<in> set ds. mdelay d \<noteq> 0" and "mdelay m = 0"
  shows "\<exists>q'. queue_receive q msg = Inr (MSG_QUEUE_RECEIVED, delivered m @ drop (qm q) msg, q') \<and> queue_inv q' \<and>
    qmsgs q' = rest @ ds @ (if mreload m = 0 then [] else [delivered m]) \<and>
    q_size q' = q_size q \<and> q_messageSize q' = q_messageSize q"
proof -
  note qi = queue_invD [OF assms(1)]
  have len: "length (ring q (unat (q_tail q))) < ring_fuel" by (rule ring_fuel_enough [OF assms(1) qi(3)])
  have "ring q (unat (q_tail q)) \<noteq> []" using assms(3) by (simp add: qmsgs_def)
  then have "nxt (qn q) (unat (q_tail q)) \<noteq> qh q" using ring_Nil [OF assms(1) qi(3)] by simp
  then have ne: "next_slot q (q_tail q) \<noteq> q_head q" using next_slot_nxt [OF qi(3)] by auto
  have r: "ring q (unat (q_tail q)) = ds @ m # rest" using assms(3) by (simp add: qmsgs_def)
  have f: "length ds < ring_fuel" using len r by simp
  show ?thesis
    using receive_loop_refines [OF assms(1) qi(3) assms(2) f r assms(4,5)] ne qi(6) MsgQAllDelayed_eq [OF assms(1)] assms(3,5)
    by (auto simp: queue_receive_def)
qed

section \<open>The tick of a queue\<close>

text \<open>One tick of one message, and of the slots \<open>ks\<close> of a buffer.\<close>

definition ticked :: "bytes \<Rightarrow> bytes" where
  "ticked m = (if mdelay m = 0 then m else set_fld m delay_at (mdelay m - 1))"

definition tick_slots :: "nat \<Rightarrow> nat list \<Rightarrow> bytes \<Rightarrow> bytes" where
  "tick_slots m ks l = fold (\<lambda>k l. wr m l k (ticked (sl m l k))) ks l"

lemma length_ticked [simp]: "length (ticked m) = length m"
  by (simp add: ticked_def)

lemma wr_sl: "k * m + m \<le> length l \<Longrightarrow> wr m l k (sl m l k) = l"
  unfolding wr_def sl_def by (metis append_take_drop_id drop_drop add.commute)

lemma set_fld_prefix: "set_fld (p @ x) (length p + i) v = p @ set_fld x i v"
  by (simp add: set_fld_def list_update_append add.assoc)

lemma set_fld_slot:
  assumes "k * m + m \<le> length l" and "i + 4 \<le> m"
  shows "set_fld l (k * m + i) v = wr m l k (set_fld (sl m l k) i v)"
proof -
  have len: "length (take (k * m) l) = k * m" "length (sl m l k) = m"
    using assms(1) by (simp_all add: sl_def)
  have "l = take (k * m) l @ sl m l k @ drop (k * m + m) l"
    using wr_sl [OF assms(1)] by (simp add: wr_def)
  then have "set_fld l (k * m + i) v = set_fld (take (k * m) l @ sl m l k @ drop (k * m + m) l) (length (take (k * m) l) + i) v"
    using len(1) by simp
  also have "\<dots> = take (k * m) l @ set_fld (sl m l k) i v @ drop (k * m + m) l"
    unfolding set_fld_prefix using len(2) assms(2) by (simp add: set_fld_append)
  finally show ?thesis by (simp add: wr_def)
qed

lemma length_tick_step:
  "j < n \<Longrightarrow> n * m \<le> length l \<Longrightarrow> length (wr m l j (ticked (sl m l j))) = length l"
  by (rule length_wr) (simp_all add: length_sl)

lemma tick_slots_Cons: "tick_slots m (j # ks) l = tick_slots m ks (wr m l j (ticked (sl m l j)))"
  by (simp add: tick_slots_def)

lemma length_tick_slots:
  "\<forall>k \<in> set ks. k < n \<Longrightarrow> n * m \<le> length l \<Longrightarrow> length (tick_slots m ks l) = length l"
proof (induction ks arbitrary: l)
  case Nil
  then show ?case by (simp add: tick_slots_def)
next
  case (Cons j ks)
  then show ?case by (simp add: tick_slots_Cons length_tick_step [of j n])
qed

lemma sl_tick_step:
  "j < n \<Longrightarrow> k < n \<Longrightarrow> n * m \<le> length l \<Longrightarrow>
   sl m (wr m l j (ticked (sl m l j))) k = (if k = j then ticked (sl m l j) else sl m l k)"
  by (rule sl_wr) (simp_all add: length_sl)

lemma sl_tick_slots:
  "distinct ks \<Longrightarrow> \<forall>k \<in> set ks. k < n \<Longrightarrow> n * m \<le> length l \<Longrightarrow> k < n \<Longrightarrow>
   sl m (tick_slots m ks l) k = (if k \<in> set ks then ticked (sl m l k) else sl m l k)"
proof (induction ks arbitrary: l)
  case Nil
  then show ?case by (simp add: tick_slots_def)
next
  case (Cons j ks)
  then show ?case
    by (auto simp: tick_slots_Cons length_tick_step [of j n] sl_tick_step [of j n])
qed

text \<open>A signal from an interrupt does not look at the queues.\<close>

lemma int_signal_msgqs:
  "OS_INT_SIGNAL_EVENT cfg e (s\<lparr>os_msgqs := m\<rparr>) = bindR (OS_INT_SIGNAL_EVENT cfg e s) (\<lambda>s1. Inr (s1\<lparr>os_msgqs := m\<rparr>))"
proof (cases "0 < N_TOTAL_EVENTS cfg")
  case True
  show ?thesis
    using True
    by (cases s; cases "os_task_signal_event cfg e (os_tasks s)")
      (simp_all add: OS_INT_SIGNAL_EVENT_def os_signal_event_eq on_events_def os_event_set_signaling_tid_def bindR_assoc)
next
  case False
  then show ?thesis
    by (simp add: OS_INT_SIGNAL_EVENT_def os_signal_event_def on_events_def os_event_set_signaling_tid_def)
qed

end
