(* ===== verification/Os_Msgq_Tick.thy ===== *)
theory Os_Msgq_Tick
  imports Os_Msgq_Ref
begin

text \<open>
  The clock tick of a message queue and the properties of the queues: every delayed message counts
  down by one, and each one that becomes due signals the change event of the queue.
\<close>

section \<open>The loop over the messages\<close>

definition with_buffer :: "nat \<Rightarrow> msgq_st \<Rightarrow> bytes \<Rightarrow> msgq_st" where
  "with_buffer i M l = M\<lparr>msgQList := (msgQList M)[i := (msgQList M ! i)\<lparr>mq_q := (mq_q (msgQList M ! i))\<lparr>q_list := l\<rparr>\<rparr>]\<rparr>"

lemma with_buffer_nth:
  "i < length (msgQList M) \<Longrightarrow>
   msgQList (with_buffer i M l) ! i = (msgQList M ! i)\<lparr>mq_q := (mq_q (msgQList M ! i))\<lparr>q_list := l\<rparr>\<rparr> \<and>
   length (msgQList (with_buffer i M l)) = length (msgQList M)"
  by (simp add: with_buffer_def)

lemma set_queue_buffer:
  "i < length (msgQList M) \<Longrightarrow>
   set_queue i ((mq_q (msgQList M ! i))\<lparr>q_list := l'\<rparr>) (with_buffer i M l) = Inr (with_buffer i M l')"
  by (simp add: set_queue_def with_buffer_def)

lemma with_buffer_self:
  assumes "i < length (msgQList M)"
  shows "with_buffer i M (q_list (mq_q (msgQList M ! i))) = M"
proof -
  have "(msgQList M ! i)\<lparr>mq_q := (mq_q (msgQList M ! i))\<lparr>q_list := q_list (mq_q (msgQList M ! i))\<rparr>\<rparr> = msgQList M ! i"
    by simp
  then show ?thesis using assms by (simp add: with_buffer_def)
qed

lemma tick_slot_eq:
  assumes i: "unat queue < length (msgQList M)" and fit: "unat k * unat m + unat m \<le> length l" and m: "12 \<le> unat m"
    and s: "os_msgqs s = with_buffer (unat queue) M l"
  shows "tick_slot cfg queue m k s =
    bindR (if mdelay (sl (unat m) l (unat k)) = 1 then OS_INT_SIGNAL_EVENT cfg (mq_change (msgQList M ! unat queue)) s else Inr s)
      (\<lambda>s1. Inr (s1\<lparr>os_msgqs := with_buffer (unat queue) M (wr (unat m) l (unat k) (ticked (sl (unat m) l (unat k))))\<rparr>))"
proof -
  let ?M = "sl (unat m) l (unat k)"
  have "fld l (unat k * unat m + delay_at) = mdelay ?M"
    unfolding mdelay_def using fit m by (intro fld_cong) (auto simp: sl_def add.assoc)
  then have g: "get32 l (unat k * unat m + delay_at) = Inr (mdelay ?M)"
    using fit m by (simp add: get32_eq)
  have p: "put32 l (unat k * unat m + delay_at) v = Inr (wr (unat m) l (unat k) (set_fld ?M delay_at v))" for v
    using fit m set_fld_slot [OF fit, of delay_at v] by (simp add: put32_eq)
  note nth = with_buffer_nth [OF i, of l]
  show ?thesis
  proof (cases "mdelay ?M = 0")
    case True
    have "s\<lparr>os_msgqs := with_buffer (unat queue) M l\<rparr> = s" by (simp add: s [symmetric])
    then show ?thesis
      using True i nth g wr_sl [OF fit] by (simp add: tick_slot_def s Let_def ticked_def)
  next
    case False
    then have pos: "0 < mdelay ?M" by (simp add: word_gt_0)
    have one: "(mdelay ?M - 1 = 0) = (mdelay ?M = 1)" by simp
    show ?thesis
      using False pos i nth g p set_queue_buffer [OF i]
      by (cases "mdelay ?M = 1")
        (simp_all add: tick_slot_def s Let_def ticked_def one int_signal_msgqs)
  qed
qed

lemma int_signal_keeps_msgqs:
  assumes "OS_INT_SIGNAL_EVENT cfg e s = Inr s1"
  shows "os_msgqs s1 = os_msgqs s"
proof -
  have "s\<lparr>os_msgqs := os_msgqs s\<rparr> = s" by simp
  then have "Inr s1 = bindR (OS_INT_SIGNAL_EVENT cfg e s) (\<lambda>s1. Inr (s1\<lparr>os_msgqs := os_msgqs s\<rparr>))"
    using int_signal_msgqs [where cfg = cfg and e = e and s = s and m = "os_msgqs s"] assms by simp
  then have "s1 = s1\<lparr>os_msgqs := os_msgqs s\<rparr>" using assms by simp
  then show ?thesis by (metis os.select_convs(4) os.surjective os.update_convs(4))
qed

text \<open>The number of messages that become due.\<close>

definition due_count :: "nat \<Rightarrow> bytes \<Rightarrow> nat list \<Rightarrow> nat" where
  "due_count m l ks = length (filter (\<lambda>k. mdelay (sl m l k) = 1) ks)"

lemma tick_loop_eq:
  assumes i: "unat queue < length (msgQList M)" and q: "queue_inv (mq_q (msgQList M ! unat queue))"
  shows "unat t < qn (mq_q (msgQList M ! unat queue)) \<Longrightarrow>
    ks = live (qn (mq_q (msgQList M ! unat queue))) (qh (mq_q (msgQList M ! unat queue))) (unat t) \<Longrightarrow>
    length ks < fuel \<Longrightarrow>
    length l = length (q_list (mq_q (msgQList M ! unat queue))) \<Longrightarrow>
    os_msgqs s = with_buffer (unat queue) M l \<Longrightarrow>
    iterR (due_count (qm (mq_q (msgQList M ! unat queue))) l ks)
      (OS_INT_SIGNAL_EVENT cfg (mq_change (msgQList M ! unat queue))) s = Inr s1 \<Longrightarrow>
    tick_loop cfg queue (q_head (mq_q (msgQList M ! unat queue))) (q_messageSize (mq_q (msgQList M ! unat queue))) fuel
      (next_slot (mq_q (msgQList M ! unat queue)) t) s =
    Inr (s1\<lparr>os_msgqs := with_buffer (unat queue) M (tick_slots (qm (mq_q (msgQList M ! unat queue))) ks l)\<rparr>)"
proof (induction ks arbitrary: t fuel l s s1)
  case Nil
  define q where "q = mq_q (msgQList M ! unat queue)"
  obtain f where f: "fuel = Suc f" using Nil.prems(3) by (cases fuel) auto
  note qi = queue_invD [OF assms(2), folded q_def]
  have "nxt (qn q) (unat t) = qh q"
    unfolding live_Nil [OF qi(2) Nil.prems(1) [folded q_def], symmetric] using Nil.prems(2) [folded q_def] by simp
  then have stop: "next_slot q t = q_head q"
    using next_slot_nxt [of t q] Nil.prems(1) by (simp add: q_def word_unat_eq_iff)
  have "s1 = s" using Nil.prems(6) by (simp add: due_count_def)
  moreover have "s\<lparr>os_msgqs := with_buffer (unat queue) M l\<rparr> = s" by (simp add: Nil.prems(5) [symmetric])
  ultimately show ?case
    unfolding q_def [symmetric] using f stop by (simp add: tick_slots_def)
next
  case (Cons k ks)
  define q where "q = mq_q (msgQList M ! unat queue)"
  note i = assms(1) and inv = assms(2) [folded q_def]
  note prems = Cons.prems [folded q_def]
  obtain f where f: "fuel = Suc f" "length ks < f" using prems(3) by (cases fuel) auto
  note qi = queue_invD [OF inv]
  have ne: "nxt (qn q) (unat t) \<noteq> qh q"
    using prems(2) live_Nil [OF qi(2) prems(1)] by auto
  then have k: "k = nxt (qn q) (unat t)" and ks: "ks = live (qn q) (qh q) (nxt (qn q) (unat t))"
    using prems(2) live_Cons [OF qi(2) prems(1) ne] by simp_all
  have u: "unat (next_slot q t) = k" using next_slot_nxt [OF prems(1)] k by simp
  then have go: "next_slot q t \<noteq> q_head q" using ne k by auto
  have kn: "k < qn q" using nxt_less [OF prems(1)] k by simp
  have fitn: "qn q * qm q \<le> length l" using qi(4) prems(4) by simp
  let ?l = "wr (qm q) l k (ticked (sl (qm q) l k))"
  let ?sig = "OS_INT_SIGNAL_EVENT cfg (mq_change (msgQList M ! unat queue))"
  have len: "length ?l = length l" by (rule length_tick_step [OF kn fitn])
  have dist: "distinct (k # ks)" using live_distinct [OF qi(2) prems(1)] prems(2) by simp
  have same: "sl (qm q) ?l x = sl (qm q) l x" if "x \<in> set ks" for x
  proof -
    have "x \<in> set (live (qn q) (qh q) (unat t))"
      unfolding prems(2) [symmetric] using that by simp
    then have "x < qn q" by (rule live_less [OF qi(2) prems(1)])
    moreover have "x \<noteq> k" using that dist by auto
    ultimately show ?thesis using sl_tick_step [OF kn _ fitn] by simp
  qed
  then have dc: "due_count (qm q) ?l ks = due_count (qm q) l ks"
    unfolding due_count_def by (intro arg_cong [where f = length] filter_cong) simp_all
  have slot: "tick_slot cfg queue (q_messageSize q) (next_slot q t) s =
     bindR (if mdelay (sl (qm q) l k) = 1 then ?sig s else Inr s)
      (\<lambda>s1. Inr (s1\<lparr>os_msgqs := with_buffer (unat queue) M ?l\<rparr>))"
    using tick_slot_eq [OF i, of "next_slot q t" "q_messageSize q" l s cfg] slot_fits [OF kn fitn] qi(5) prems(5) u by simp
  obtain s2 where s2: "(if mdelay (sl (qm q) l k) = 1 then ?sig s else Inr s) = Inr s2"
    "iterR (due_count (qm q) l ks) ?sig s2 = Inr s1"
    using prems(6) by (cases "mdelay (sl (qm q) l k) = 1") (auto simp: due_count_def bindR_eq_Inr)
  have it: "iterR c ?sig (x\<lparr>os_msgqs := m\<rparr>) = bindR (iterR c ?sig x) (\<lambda>y. Inr (y\<lparr>os_msgqs := m\<rparr>))" for c x m
  proof (induction c arbitrary: x)
    case (Suc c)
    then show ?case by (cases "?sig x") (simp_all add: int_signal_msgqs)
  qed simp
  have nx: "next_slot (mq_q (msgQList (with_buffer (unat queue) M ?l) ! unat queue)) j = next_slot q j" for j
    using with_buffer_nth [OF i, of ?l] by (simp add: next_slot_def q_def)
  have IH: "tick_loop cfg queue (q_head q) (q_messageSize q) f (next_slot q (next_slot q t))
      (s2\<lparr>os_msgqs := with_buffer (unat queue) M ?l\<rparr>) =
    Inr ((s1\<lparr>os_msgqs := with_buffer (unat queue) M ?l\<rparr>)\<lparr>os_msgqs := with_buffer (unat queue) M (tick_slots (qm q) ks ?l)\<rparr>)"
  proof (rule Cons.IH [folded q_def])
    show "unat (next_slot q t) < qn q" using kn u by simp
    show "ks = live (qn q) (qh q) (unat (next_slot q t))" unfolding u using ks [folded k] .
    show "iterR (due_count (qm q) ?l ks) ?sig (s2\<lparr>os_msgqs := with_buffer (unat queue) M ?l\<rparr>) =
        Inr (s1\<lparr>os_msgqs := with_buffer (unat queue) M ?l\<rparr>)"
      unfolding dc it s2(2) by simp
  qed (use f(2) len prems(4) in simp_all)
  show ?case
    unfolding q_def [symmetric] f(1)
    using go slot s2(1) nx with_buffer_nth [OF i, of ?l] i IH by (simp add: tick_slots_Cons)
qed

section \<open>The tick as a whole\<close>

text \<open>An event that can be signalled: its bit is in the wait queues and its entry in the table.\<close>

definition signalable :: "config \<Rightarrow> u8 \<Rightarrow> os \<Rightarrow> bool" where
  "signalable cfg e s \<longleftrightarrow> task_inv cfg (os_tasks s) \<and> 0 < N_TOTAL_EVENTS cfg \<and> unat e < event_cap cfg \<and>
     unat e < length (eventList (os_events s))"

text \<open>What a signal leaves alone.\<close>

definition sig_same :: "config \<Rightarrow> os \<Rightarrow> os \<Rightarrow> bool" where
  "sig_same cfg s s' \<longleftrightarrow> os_msgqs s' = os_msgqs s \<and> os_kern s' = os_kern s \<and> os_sems s' = os_sems s \<and>
     task_kept cfg (os_tasks s) (os_tasks s') \<and> nEvents (os_events s') = nEvents (os_events s) \<and>
     map event_id (eventList (os_events s')) = map event_id (eventList (os_events s))"

lemma sig_same_trans: "sig_same cfg s s1 \<Longrightarrow> sig_same cfg s1 s2 \<Longrightarrow> sig_same cfg s s2"
  by (auto simp: sig_same_def intro: task_kept_trans)

lemma sig_same_refl: "task_inv cfg (os_tasks s) \<Longrightarrow> sig_same cfg s s"
  by (simp add: sig_same_def task_kept_refl)

lemma sig_same_length:
  "sig_same cfg s s' \<Longrightarrow> length (eventList (os_events s')) = length (eventList (os_events s))"
  unfolding sig_same_def using map_eq_imp_length_eq by blast

lemma int_signal_ok:
  assumes "signalable cfg e s"
  shows "\<exists>s1. OS_INT_SIGNAL_EVENT cfg e s = Inr s1 \<and> signalable cfg e s1 \<and> sig_same cfg s s1 \<and>
    os_task_signal_event cfg e (os_tasks s) = Inr (os_tasks s1) \<and>
    event_signaling_taskId_get cfg e (os_events s1) = Inr ISR_TID \<and> event_last_signaled_get cfg (os_events s1) = e"
proof -
  have a: "task_inv cfg (os_tasks s)" "unat e < event_cap cfg" "unat e < length (eventList (os_events s))" "0 < N_TOTAL_EVENTS cfg"
    using assms by (simp_all add: signalable_def)
  obtain t where t: "os_task_signal_event cfg e (os_tasks s) = Inr t" "task_kept cfg (os_tasks s) t"
    using signal_event_at [OF a(1,2)] by blast
  define s1 where "s1 = s\<lparr>os_tasks := t, os_events := (os_events s)\<lparr>lastSignaledEvent := e,
      eventList := (eventList (os_events s))[unat e := (eventList (os_events s) ! unat e)\<lparr>signaledByTid := ISR_TID\<rparr>]\<rparr>\<rparr>"
  have r: "OS_INT_SIGNAL_EVENT cfg e s = Inr s1"
    using a t(1) by (simp add: OS_INT_SIGNAL_EVENT_def os_signal_event_eq on_events_def os_event_set_signaling_tid_def s1_def)
  have ids: "map event_id (eventList (os_events s1)) = map event_id (eventList (os_events s))"
    using a(3) by (simp add: s1_def map_update_same)
  show ?thesis
    using r ids a t task_keptD(1) [OF t(2)]
    by (intro exI [of _ s1]) (simp add: s1_def signalable_def sig_same_def event_signaling_taskId_get_def event_last_signaled_get_def)
qed

lemma iter_int_signal_ok:
  "signalable cfg e s \<Longrightarrow> \<exists>s1. iterR c (OS_INT_SIGNAL_EVENT cfg e) s = Inr s1 \<and> signalable cfg e s1 \<and> sig_same cfg s s1"
proof (induction c arbitrary: s)
  case 0
  then show ?case by (simp add: sig_same_refl signalable_def)
next
  case (Suc c)
  obtain s1 where s1: "OS_INT_SIGNAL_EVENT cfg e s = Inr s1" "signalable cfg e s1" "sig_same cfg s s1"
    using int_signal_ok [OF Suc.prems] by blast
  with Suc.IH [OF s1(2)] show ?case by (auto intro: sig_same_trans)
qed

lemma qmsgs_tick_slots:
  assumes "queue_inv q"
  shows "queue_inv (q\<lparr>q_list := tick_slots (qm q) (live (qn q) (qh q) (unat (q_tail q))) (q_list q)\<rparr>)"
    and "qmsgs (q\<lparr>q_list := tick_slots (qm q) (live (qn q) (qh q) (unat (q_tail q))) (q_list q)\<rparr>) = map ticked (qmsgs q)"
    and "due_count (qm q) (q_list q) (live (qn q) (qh q) (unat (q_tail q))) = length (filter (\<lambda>m. mdelay m = 1) (qmsgs q))"
proof -
  note qi = queue_invD [OF assms]
  let ?ks = "live (qn q) (qh q) (unat (q_tail q))"
  have ks: "\<forall>k \<in> set ?ks. k < qn q" using live_less [OF qi(2,3)] by blast
  have "length (tick_slots (qm q) ?ks (q_list q)) = length (q_list q)"
    by (rule length_tick_slots [OF ks qi(4)])
  then show "queue_inv (q\<lparr>q_list := tick_slots (qm q) ?ks (q_list q)\<rparr>)"
    using assms by (simp add: queue_inv_def)
  have "sl (qm q) (tick_slots (qm q) ?ks (q_list q)) k = ticked (sl (qm q) (q_list q) k)" if "k \<in> set ?ks" for k
    using sl_tick_slots [OF live_distinct [OF qi(2,3)] ks qi(4)] that ks by simp
  then show "qmsgs (q\<lparr>q_list := tick_slots (qm q) ?ks (q_list q)\<rparr>) = map ticked (qmsgs q)"
    by (simp add: qmsgs_def ring_def)
  show "due_count (qm q) (q_list q) ?ks = length (filter (\<lambda>m. mdelay m = 1) (qmsgs q))"
    by (simp add: due_count_def qmsgs_def ring_def filter_map comp_def)
qed

lemma msgQ_tick_ok:
  assumes "0 < N_QUEUES cfg" and i: "unat queue < length (msgQList (os_msgqs s))"
    and inv: "queue_inv (mq_q (msgQList (os_msgqs s) ! unat queue))"
    and sg: "signalable cfg (mq_change (msgQList (os_msgqs s) ! unat queue)) s"
  obtains s1 q' where
    "iterR (length (filter (\<lambda>m. mdelay m = 1) (qmsgs (mq_q (msgQList (os_msgqs s) ! unat queue)))))
       (OS_INT_SIGNAL_EVENT cfg (mq_change (msgQList (os_msgqs s) ! unat queue))) s = Inr s1"
    "sig_same cfg s s1"
    "os_msgQ_tick cfg queue s = Inr (s1\<lparr>os_msgqs := (os_msgqs s)\<lparr>msgQList := (msgQList (os_msgqs s))
       [unat queue := (msgQList (os_msgqs s) ! unat queue)\<lparr>mq_q := q'\<rparr>]\<rparr>\<rparr>)"
    "queue_inv q'" "qmsgs q' = map ticked (qmsgs (mq_q (msgQList (os_msgqs s) ! unat queue)))"
    "q_size q' = q_size (mq_q (msgQList (os_msgqs s) ! unat queue))"
    "q_messageSize q' = q_messageSize (mq_q (msgQList (os_msgqs s) ! unat queue))"
proof -
  let ?M = "os_msgqs s"
  let ?q = "mq_q (msgQList ?M ! unat queue)"
  let ?ks = "live (qn ?q) (qh ?q) (unat (q_tail ?q))"
  note qi = queue_invD [OF inv]
  obtain s1 where s1: "iterR (due_count (qm ?q) (q_list ?q) ?ks) (OS_INT_SIGNAL_EVENT cfg (mq_change (msgQList ?M ! unat queue))) s = Inr s1"
    "sig_same cfg s s1" using iter_int_signal_ok [OF sg] by blast
  have "length ?ks < ring_fuel"
    using ring_fuel_enough [OF inv qi(3)] by (simp add: ring_def)
  then have "tick_loop cfg queue (q_head ?q) (q_messageSize ?q) ring_fuel (next_slot ?q (q_tail ?q)) s =
      Inr (s1\<lparr>os_msgqs := with_buffer (unat queue) ?M (tick_slots (qm ?q) ?ks (q_list ?q))\<rparr>)"
    by (intro tick_loop_eq [OF i inv qi(3)] s1(1)) (simp_all add: with_buffer_self [OF i])
  then have "os_msgQ_tick cfg queue s = Inr (s1\<lparr>os_msgqs := with_buffer (unat queue) ?M (tick_slots (qm ?q) ?ks (q_list ?q))\<rparr>)"
    using assms(1) i qi(6) by (simp add: os_msgQ_tick_def)
  then show ?thesis
    using that [of s1 "?q\<lparr>q_list := tick_slots (qm ?q) ?ks (q_list ?q)\<rparr>"] s1 qmsgs_tick_slots [OF inv]
    by (simp add: with_buffer_def)
qed

end
