(* ===== verification/Os_Msgq_Props.thy ===== *)
theory Os_Msgq_Props
  imports Os_Msgq_Tick
begin

text \<open>
  What the users of a message queue rely on: the contract of a bounded first-in first-out queue, its
  instance for messages without delay, and the properties of posting, receiving and ticking.
\<close>

section \<open>The contract of a bounded queue\<close>

text \<open>Several receptions in a row, and several posts.\<close>

fun fetch_all :: "('q \<Rightarrow> (u8 \<times> 'm \<times> 'q) res) \<Rightarrow> nat \<Rightarrow> 'q \<Rightarrow> ('m list \<times> 'q) res" where
  "fetch_all fetch 0 q = Inr ([], q)"
| "fetch_all fetch (Suc k) q = bindR (fetch q) (\<lambda>r. case r of (_, m, q) \<Rightarrow>
     bindR (fetch_all fetch k q) (\<lambda>r. case r of (ms, q) \<Rightarrow> Inr (m # ms, q)))"

definition post_all :: "('m \<Rightarrow> 'q \<Rightarrow> (u8 \<times> 'q) res) \<Rightarrow> 'm list \<Rightarrow> 'q \<Rightarrow> 'q res" where
  "post_all post = foldR (\<lambda>m q. bindR (post m q) (\<lambda>r. Inr (snd r)))"

locale bounded_fifo =
  fixes inv :: "'q \<Rightarrow> bool" and msgs :: "'q \<Rightarrow> 'm list" and cap :: nat and ok :: "'m \<Rightarrow> bool"
    and post :: "'m \<Rightarrow> 'q \<Rightarrow> (u8 \<times> 'q) res" and fetch :: "'q \<Rightarrow> (u8 \<times> 'm \<times> 'q) res"
  assumes post_room: "inv q \<Longrightarrow> ok m \<Longrightarrow> length (msgs q) < cap \<Longrightarrow>
      \<exists>q'. post m q = Inr (MSG_QUEUE_POSTED, q') \<and> inv q' \<and> msgs q' = msgs q @ [m]"
    and post_full: "inv q \<Longrightarrow> ok m \<Longrightarrow> length (msgs q) = cap \<Longrightarrow> post m q = Inr (MSG_QUEUE_FULL, q)"
    and fetch_first: "inv q \<Longrightarrow> msgs q = m # ms \<Longrightarrow>
      \<exists>q'. fetch q = Inr (MSG_QUEUE_RECEIVED, m, q') \<and> inv q' \<and> msgs q' = ms"
    and msgs_cap: "inv q \<Longrightarrow> length (msgs q) \<le> cap"
begin

lemma post_all_eq:
  "inv q \<Longrightarrow> \<forall>m \<in> set ms. ok m \<Longrightarrow> length (msgs q) + length ms \<le> cap \<Longrightarrow>
   \<exists>q'. post_all post ms q = Inr q' \<and> inv q' \<and> msgs q' = msgs q @ ms"
proof (induction ms arbitrary: q)
  case (Cons m ms)
  then obtain q1 where q1: "post m q = Inr (MSG_QUEUE_POSTED, q1)" "inv q1" "msgs q1 = msgs q @ [m]"
    using post_room [of q m] by auto
  with Cons.IH [of q1] Cons.prems show ?case by (auto simp: post_all_def)
qed (simp add: post_all_def)

lemma fetch_all_eq:
  "inv q \<Longrightarrow> k \<le> length (msgs q) \<Longrightarrow>
   \<exists>q'. fetch_all fetch k q = Inr (take k (msgs q), q') \<and> inv q' \<and> msgs q' = drop k (msgs q)"
proof (induction k arbitrary: q)
  case (Suc k)
  then obtain m ms where ms: "msgs q = m # ms" by (cases "msgs q") auto
  obtain q1 where q1: "fetch q = Inr (MSG_QUEUE_RECEIVED, m, q1)" "inv q1" "msgs q1 = ms"
    using fetch_first [OF Suc.prems(1) ms] by blast
  obtain q2 where "fetch_all fetch k q1 = Inr (take k ms, q2)" "inv q2" "msgs q2 = drop k ms"
    using Suc.IH [OF q1(2)] q1(3) ms Suc.prems(2) by auto
  then show ?case using q1 ms by simp
qed simp

text \<open>What is posted comes out in order, after what was there before.\<close>

lemma post_then_fetch:
  assumes "inv q" and "\<forall>m \<in> set ms. ok m" and "length (msgs q) + length ms \<le> cap"
  shows "\<exists>q1 q2. post_all post ms q = Inr q1 \<and>
    fetch_all fetch (length (msgs q) + length ms) q1 = Inr (msgs q @ ms, q2) \<and> msgs q2 = []"
proof -
  obtain q1 where q1: "post_all post ms q = Inr q1" "inv q1" "msgs q1 = msgs q @ ms"
    using post_all_eq [OF assms] by blast
  obtain q2 where "fetch_all fetch (length (msgs q) + length ms) q1 = Inr (msgs q @ ms, q2)" "msgs q2 = []"
    using fetch_all_eq [OF q1(2), of "length (msgs q) + length ms"] q1(3) by auto
  with q1(1) show ?thesis by blast
qed

end

text \<open>Messages of the size of the queue that are due at once and not periodic.\<close>

definition plain_msg :: "nat \<Rightarrow> bytes \<Rightarrow> bool" where
  "plain_msg m bs \<longleftrightarrow> length bs = m \<and> mdelay bs = 0 \<and> mreload bs = 0"

definition plain_inv :: "nat \<Rightarrow> nat \<Rightarrow> OSQueue_t \<Rightarrow> bool" where
  "plain_inv n m q \<longleftrightarrow> queue_inv q \<and> qn q = n \<and> qm q = m \<and> (\<forall>x \<in> set (qmsgs q). plain_msg m x)"

text \<open>Receiving into a buffer of one message.\<close>

definition fetch_msg :: "OSQueue_t \<Rightarrow> (u8 \<times> bytes \<times> OSQueue_t) res" where
  "fetch_msg q = queue_receive q (replicate (qm q) 0)"

interpretation mq: bounded_fifo "plain_inv n m" qmsgs "n - 1" "plain_msg m" "\<lambda>x q. queue_push q x" fetch_msg for n m
proof
  fix q x ms
  assume inv: "plain_inv n m q"
  then have q: "queue_inv q" and nm: "qn q = n" "qm q = m" by (auto simp: plain_inv_def)
  show "length (qmsgs q) \<le> n - 1"
    using ring_length [OF q queue_invD(3) [OF q]] nm by (simp add: qmsgs_def)
  show "\<exists>q'. queue_push q x = Inr (MSG_QUEUE_POSTED, q') \<and> plain_inv n m q' \<and> qmsgs q' = qmsgs q @ [x]"
    if "plain_msg m x" "length (qmsgs q) < n - 1"
    using queue_push_refines [OF q, of x] that inv nm by (auto simp: plain_inv_def plain_msg_def)
  show "queue_push q x = Inr (MSG_QUEUE_FULL, q)" if "plain_msg m x" "length (qmsgs q) = n - 1"
    using queue_push_refines [OF q, of x] that nm by (simp add: plain_msg_def)
  show "\<exists>q'. fetch_msg q = Inr (MSG_QUEUE_RECEIVED, x, q') \<and> plain_inv n m q' \<and> qmsgs q' = ms" if "qmsgs q = x # ms"
  proof -
    have x: "plain_msg m x" "\<forall>y \<in> set ms. plain_msg m y" using inv that by (auto simp: plain_inv_def)
    then have "delivered x @ drop (qm q) (replicate (qm q) 0) = x" "mdelay x = 0" "mreload x = 0"
      by (auto simp: plain_msg_def delivered_def)
    then show ?thesis
      using queue_receive_some [OF q, of "replicate (qm q) 0" "[]" x ms] that x nm
      by (auto simp: fetch_msg_def plain_inv_def)
  qed
qed

section \<open>The table of queues\<close>

definition queue_at :: "msgq_st \<Rightarrow> u8 \<Rightarrow> OSQueue_t" where
  "queue_at s queue = mq_q (msgQList s ! unat queue)"

text \<open>The table with another queue at one place.\<close>

definition with_queue :: "msgq_st \<Rightarrow> u8 \<Rightarrow> OSQueue_t \<Rightarrow> msgq_st" where
  "with_queue s queue q = s\<lparr>msgQList := (msgQList s)[unat queue := (msgQList s ! unat queue)\<lparr>mq_q := q\<rparr>]\<rparr>"

definition msgq_inv :: "config \<Rightarrow> msgq_st \<Rightarrow> bool" where
  "msgq_inv cfg s \<longleftrightarrow> 0 < N_QUEUES cfg \<and> length (msgQList s) = N_QUEUES cfg \<and> unat (nQueues s) \<le> N_QUEUES cfg \<and>
     (\<forall>i < unat (nQueues s). queue_inv (mq_q (msgQList s ! i)))"

lemma msgq_invD:
  assumes "msgq_inv cfg s" and "queue < nQueues s"
  shows "unat queue < length (msgQList s)" "queue_inv (queue_at s queue)" "0 < N_QUEUES cfg" "\<not> nQueues s \<le> queue"
  using assms leD by (auto simp: msgq_inv_def queue_at_def word_less_nat_alt word_le_nat_alt)

lemma msgq_inv_with_queue:
  "msgq_inv cfg s \<Longrightarrow> queue_inv q \<Longrightarrow> msgq_inv cfg (with_queue s queue q)"
  by (auto simp: msgq_inv_def with_queue_def nth_list_update_if)

lemma queue_at_with_queue [simp]:
  "unat queue < length (msgQList s) \<Longrightarrow> queue_at (with_queue s queue q) queue = q"
  by (simp add: queue_at_def with_queue_def)

lemma with_queue_same: "unat queue < length (msgQList s) \<Longrightarrow> with_queue s queue (queue_at s queue) = s"
  by (simp add: with_queue_def queue_at_def)

lemma set_queue_at: "unat queue < length (msgQList s) \<Longrightarrow> set_queue (unat queue) q s = Inr (with_queue s queue q)"
  by (simp add: set_queue_def with_queue_def)

text \<open>What is fixed when a queue is created: its task and its change event.\<close>

definition queue_ids :: "msgq_st \<Rightarrow> u8 \<times> (u8 \<times> u8) list" where
  "queue_ids s = (nQueues s, map (\<lambda>mq. (mq_taskId mq, mq_change mq)) (msgQList s))"

lemma queue_ids_with_queue [simp]: "queue_ids (with_queue s queue q) = queue_ids s"
  by (cases "unat queue < length (msgQList s)")
    (simp_all add: queue_ids_def with_queue_def map_update list_update_same_conv list_update_beyond)

lemma queue_idsD:
  assumes "queue_ids s' = queue_ids s"
  shows "nQueues s' = nQueues s" "length (msgQList s') = length (msgQList s)"
    "i < length (msgQList s) \<Longrightarrow> mq_taskId (msgQList s' ! i) = mq_taskId (msgQList s ! i)"
    "i < length (msgQList s) \<Longrightarrow> mq_change (msgQList s' ! i) = mq_change (msgQList s ! i)"
proof -
  have m: "map (\<lambda>mq. (mq_taskId mq, mq_change mq)) (msgQList s') = map (\<lambda>mq. (mq_taskId mq, mq_change mq)) (msgQList s)"
    using assms by (simp add: queue_ids_def)
  show n: "nQueues s' = nQueues s" "length (msgQList s') = length (msgQList s)"
    using assms map_eq_imp_length_eq [OF m] by (simp_all add: queue_ids_def)
  assume "i < length (msgQList s)"
  then show "mq_taskId (msgQList s' ! i) = mq_taskId (msgQList s ! i)" "mq_change (msgQList s' ! i) = mq_change (msgQList s ! i)"
    using arg_cong [OF m, of "\<lambda>l. l ! i"] n(2) by simp_all
qed

text \<open>The message with its delay and period filled in.\<close>

definition stamped :: "u32 \<Rightarrow> u32 \<Rightarrow> bytes \<Rightarrow> bytes" where
  "stamped delay period msg = set_fld (set_fld msg delay_at delay) reload_at period"

lemma length_stamped [simp]: "length (stamped d p msg) = length msg"
  by (simp add: stamped_def)

lemma stamped_fields:
  assumes "12 \<le> m" and "m \<le> length msg"
  shows "mdelay (take m (stamped d p msg)) = d" "mreload (take m (stamped d p msg)) = p"
proof -
  have "fld (take m x) i = fld x i" if "i + 4 \<le> m" for x i
    using that by (intro fld_cong) simp
  then show "mdelay (take m (stamped d p msg)) = d" "mreload (take m (stamped d p msg)) = p"
    using assms by (simp_all add: mdelay_def mreload_def stamped_def fld_set_same fld_set_other)
qed

lemma os_msg_post_eq:
  assumes "msgq_inv cfg s" and "queue < nQueues s" and "12 \<le> length msg"
  shows "os_msg_post cfg msg queue d p s = bindR (queue_push (queue_at s queue) (stamped d p msg))
     (\<lambda>r. case r of (result, q) \<Rightarrow> Inr (result, stamped d p msg, with_queue s queue q))"
  using msgq_invD [OF assms(1,2)] assms(3)
  by (simp add: os_msg_post_def put32_eq stamped_def queue_at_def set_queue_at cong: prod.case_cong)

lemma os_msg_receive_eq:
  assumes "msgq_inv cfg s" and "queue < nQueues s"
  shows "os_msg_receive cfg msg queue s = bindR (queue_receive (queue_at s queue) msg)
     (\<lambda>r. case r of (result, msg, q) \<Rightarrow> Inr (result, msg, with_queue s queue q))"
  using msgq_invD [OF assms]
  by (simp add: os_msg_receive_def queue_at_def set_queue_at cong: prod.case_cong)

text \<open>Posting: with room in the queue and without.\<close>

lemma qmsgs_cap: "queue_inv q \<Longrightarrow> length (qmsgs q) \<le> qn q - 1"
  using ring_length [OF _ queue_invD(3)] by (auto simp: qmsgs_def)

lemma msg_post_room:
  assumes "msgq_inv cfg s" and "queue < nQueues s" and "qm (queue_at s queue) \<le> length msg"
    and "length (qmsgs (queue_at s queue)) < qn (queue_at s queue) - 1"
  shows "\<exists>q. os_msg_post cfg msg queue d p s = Inr (MSG_QUEUE_POSTED, stamped d p msg, with_queue s queue q) \<and>
    queue_inv q \<and> qmsgs q = qmsgs (queue_at s queue) @ [take (qm (queue_at s queue)) (stamped d p msg)] \<and>
    q_size q = q_size (queue_at s queue) \<and> q_messageSize q = q_messageSize (queue_at s queue)"
proof -
  note i = msgq_invD [OF assms(1,2)]
  have "12 \<le> length msg" using queue_invD(5) [OF i(2)] assms(3) by simp
  from os_msg_post_eq [OF assms(1,2) this] show ?thesis
    using queue_push_refines [OF i(2), of "stamped d p msg"] assms(3,4) by auto
qed

lemma msg_post_full:
  assumes "msgq_inv cfg s" and "queue < nQueues s" and "qm (queue_at s queue) \<le> length msg"
    and "length (qmsgs (queue_at s queue)) = qn (queue_at s queue) - 1"
  shows "os_msg_post cfg msg queue d p s = Inr (MSG_QUEUE_FULL, stamped d p msg, s)"
proof -
  note i = msgq_invD [OF assms(1,2)]
  have "12 \<le> length msg" using queue_invD(5) [OF i(2)] assms(3) by simp
  from os_msg_post_eq [OF assms(1,2) this] show ?thesis
    using queue_push_refines [OF i(2), of "stamped d p msg"] assms(3,4) with_queue_same [OF i(1)] by simp
qed

text \<open>Receiving: with a message that is due and without.\<close>

lemma msg_receive_none:
  assumes "msgq_inv cfg s" and "queue < nQueues s" and "\<forall>x \<in> set (qmsgs (queue_at s queue)). mdelay x \<noteq> 0"
  shows "os_msg_receive cfg msg queue s = Inr (MSG_QUEUE_EMPTY, msg, s)"
  using msgq_invD [OF assms(1,2)] queue_receive_none [OF _ assms(3)] os_msg_receive_eq [OF assms(1,2)] with_queue_same
  by simp

lemma msg_receive_due:
  assumes "msgq_inv cfg s" and "queue < nQueues s" and "qm (queue_at s queue) \<le> length msg"
    and "qmsgs (queue_at s queue) = ds @ x # rest" and "\<forall>y \<in> set ds. mdelay y \<noteq> 0" and "mdelay x = 0"
  shows "\<exists>q. os_msg_receive cfg msg queue s =
      Inr (MSG_QUEUE_RECEIVED, delivered x @ drop (qm (queue_at s queue)) msg, with_queue s queue q) \<and> queue_inv q \<and>
    qmsgs q = rest @ ds @ (if mreload x = 0 then [] else [delivered x]) \<and>
    q_size q = q_size (queue_at s queue) \<and> q_messageSize q = q_messageSize (queue_at s queue)"
  using queue_receive_some [OF msgq_invD(2) [OF assms(1,2)] assms(3-6)] os_msg_receive_eq [OF assms(1,2), of msg] by auto

section \<open>Properties\<close>

definition demo_msg :: "u8 \<Rightarrow> u8 \<Rightarrow> u8 \<Rightarrow> bytes" where
  "demo_msg sig d p = [sig, 0, 0, 0, d, 0, 0, 0, p, 0, 0, 0]"

text \<open>Three slots of 12 bytes.\<close>

definition demo_queue :: OSQueue_t where
  "demo_queue = \<lparr>q_list = replicate 36 0, q_messageSize = 12, q_head = 1, q_tail = 0, q_size = 3\<rparr>"

definition demo_msgqs :: msgq_st where
  "demo_msgqs = \<lparr>msgQList = [\<lparr>mq_q = demo_queue, mq_taskId = 1, mq_change = 1\<rparr>], nQueues = 1\<rparr>"

lemma demo_queue_inv: "queue_inv demo_queue" "qmsgs demo_queue = []"
  by (simp_all add: queue_inv_def demo_queue_def qmsgs_def ring_def live_def ring_len_def)

lemma demo_msgqs_inv: "msgq_inv demo_cfg demo_msgqs" "queue_at demo_msgqs 0 = demo_queue" "0 < nQueues demo_msgqs"
  using demo_queue_inv(1) by (simp_all add: msgq_inv_def demo_msgqs_def queue_at_def)

text \<open>C22: messages without delay are first in, first out: after posting any messages for which there
  is room, as many receptions as there are messages in the queue return the messages that were in it
  before and then the posted ones, in order, and leave the queue empty.\<close>

theorem queue_fifo:
  assumes "queue_inv q" and "\<forall>x \<in> set (qmsgs q). plain_msg (qm q) x" and "\<forall>x \<in> set ms. plain_msg (qm q) x"
    and "length (qmsgs q) + length ms \<le> qn q - 1"
  shows "\<exists>q1 q2. post_all (\<lambda>x q. queue_push q x) ms q = Inr q1 \<and>
    fetch_all fetch_msg (length (qmsgs q) + length ms) q1 = Inr (qmsgs q @ ms, q2) \<and> qmsgs q2 = []"
  using mq.post_then_fetch [of "qn q" "qm q" q ms] assms by (auto simp: plain_inv_def)

theorem queue_fifo_witness:
  "\<exists>q1 q2. post_all (\<lambda>x q. queue_push q x) [demo_msg 7 0 0, demo_msg 9 0 0] demo_queue = Inr q1 \<and>
    fetch_all fetch_msg 2 q1 = Inr ([demo_msg 7 0 0, demo_msg 9 0 0], q2)"
proof -
  have p: "plain_msg 12 (demo_msg sig 0 0)" for sig
    by (simp add: plain_msg_def demo_msg_def mdelay_def mreload_def fld_def)
  have "qm demo_queue = 12" "qn demo_queue = 3" by (simp_all add: demo_queue_def)
  then have "\<exists>q1 q2. post_all (\<lambda>x q. queue_push q x) [demo_msg 7 0 0, demo_msg 9 0 0] demo_queue = Inr q1 \<and>
    fetch_all fetch_msg (length (qmsgs demo_queue) + length [demo_msg 7 0 0, demo_msg 9 0 0]) q1 =
      Inr (qmsgs demo_queue @ [demo_msg 7 0 0, demo_msg 9 0 0], q2) \<and> qmsgs q2 = []"
    by (intro queue_fifo) (simp_all add: demo_queue_inv p)
  then show ?thesis by (simp add: demo_queue_inv numeral_2_eq_2) blast
qed

text \<open>C20: a post to a queue of size \<open>n\<close> appends the message, with its delay and period filled in, as
  long as the queue holds fewer than \<open>n - 1\<close> messages; with \<open>n - 1\<close> messages it reports a full queue
  and changes nothing but the delay and period of the caller's message.\<close>

theorem msg_post_refines:
  assumes "msgq_inv cfg s" and "queue < nQueues s" and "qm (queue_at s queue) \<le> length msg"
  shows "if length (qmsgs (queue_at s queue)) = qn (queue_at s queue) - 1
    then os_msg_post cfg msg queue d p s = Inr (MSG_QUEUE_FULL, stamped d p msg, s)
    else \<exists>s'. os_msg_post cfg msg queue d p s = Inr (MSG_QUEUE_POSTED, stamped d p msg, s') \<and> msgq_inv cfg s' \<and>
      qmsgs (queue_at s' queue) = qmsgs (queue_at s queue) @ [take (qm (queue_at s queue)) (stamped d p msg)] \<and>
      s' = with_queue s queue (queue_at s' queue)"
proof -
  note i = msgq_invD [OF assms(1,2)]
  have "length (qmsgs (queue_at s queue)) < qn (queue_at s queue) - 1"
    if "length (qmsgs (queue_at s queue)) \<noteq> qn (queue_at s queue) - 1"
    using qmsgs_cap [OF i(2)] that by simp
  then show ?thesis
    using msg_post_full [OF assms] msg_post_room [OF assms, of d p] i(1) msgq_inv_with_queue [OF assms(1)]
    by (cases "length (qmsgs (queue_at s queue)) = qn (queue_at s queue) - 1") auto
qed

theorem msg_post_refines_witness:
  "\<exists>s'. os_msg_post demo_cfg (demo_msg 7 0 0) 0 5 0 demo_msgqs = Inr (MSG_QUEUE_POSTED, demo_msg 7 5 0, s')"
proof -
  have "qm (queue_at demo_msgqs 0) \<le> length (demo_msg 7 0 0)"
    by (simp add: demo_msgqs_inv demo_queue_def demo_msg_def)
  from msg_post_refines [OF demo_msgqs_inv(1,3) this, of 5 0]
  have "\<exists>s'. os_msg_post demo_cfg (demo_msg 7 0 0) 0 5 0 demo_msgqs = Inr (MSG_QUEUE_POSTED, stamped 5 0 (demo_msg 7 0 0), s')"
    by (auto simp: demo_msgqs_inv demo_queue_inv(2) split: if_split_asm) (simp_all add: demo_queue_def)
  moreover have "stamped 5 0 (demo_msg 7 0 0) = demo_msg 7 5 0"
    by (simp add: stamped_def set_fld_def demo_msg_def)
  ultimately show ?thesis by simp
qed

text \<open>C21: a reception delivers the first message of the queue that is due (delay 0) and reports
  received; the messages before it that are not due move behind the rest, unchanged, and a periodic
  message is queued again at the end with its delay set to its period. When no message is due the
  queue is reported empty and nothing changes. The search always ends.\<close>

theorem msg_receive_refines:
  assumes "msgq_inv cfg s" and "queue < nQueues s" and "qm (queue_at s queue) \<le> length msg"
  shows "if \<forall>x \<in> set (qmsgs (queue_at s queue)). mdelay x \<noteq> 0
    then os_msg_receive cfg msg queue s = Inr (MSG_QUEUE_EMPTY, msg, s)
    else \<exists>ds x rest s'. qmsgs (queue_at s queue) = ds @ x # rest \<and> (\<forall>y \<in> set ds. mdelay y \<noteq> 0) \<and> mdelay x = 0 \<and>
      os_msg_receive cfg msg queue s =
        Inr (MSG_QUEUE_RECEIVED, delivered x @ drop (qm (queue_at s queue)) msg, s') \<and> msgq_inv cfg s' \<and>
      qmsgs (queue_at s' queue) = rest @ ds @ (if mreload x = 0 then [] else [delivered x]) \<and>
      s' = with_queue s queue (queue_at s' queue)"
proof (cases "\<forall>x \<in> set (qmsgs (queue_at s queue)). mdelay x \<noteq> 0")
  case True
  then show ?thesis using msg_receive_none [OF assms(1,2)] by simp
next
  case False
  then have "\<exists>x \<in> set (qmsgs (queue_at s queue)). mdelay x = 0" by simp
  from split_list_first_prop [OF this] obtain ds x rest where
    sp: "qmsgs (queue_at s queue) = ds @ x # rest" "mdelay x = 0" "\<forall>y \<in> set ds. mdelay y \<noteq> 0" by blast
  obtain q where q: "os_msg_receive cfg msg queue s =
      Inr (MSG_QUEUE_RECEIVED, delivered x @ drop (qm (queue_at s queue)) msg, with_queue s queue q)" "queue_inv q"
    "qmsgs q = rest @ ds @ (if mreload x = 0 then [] else [delivered x])"
    using msg_receive_due [OF assms sp(1,3,2)] by blast
  moreover have "queue_at (with_queue s queue q) queue = q" using msgq_invD(1) [OF assms(1,2)] by simp
  ultimately show ?thesis
    using False sp msgq_inv_with_queue [OF assms(1) q(2)] by (metis (no_types, lifting))
qed

theorem msg_receive_refines_witness:
  "os_msg_receive demo_cfg (demo_msg 7 0 0) 0 demo_msgqs = Inr (MSG_QUEUE_EMPTY, demo_msg 7 0 0, demo_msgqs)"
proof -
  have "qm (queue_at demo_msgqs 0) \<le> length (demo_msg 7 0 0)"
    by (simp add: demo_msgqs_inv demo_queue_def demo_msg_def)
  from msg_receive_refines [OF demo_msgqs_inv(1,3) this] show ?thesis
    by (simp add: demo_msgqs_inv demo_queue_inv(2))
qed

text \<open>The delay of a message after some ticks.\<close>

lemma mdelay_ticked: "12 \<le> length x \<Longrightarrow> unat (mdelay (ticked x)) = unat (mdelay x) - 1"
  by (cases "mdelay x = 0") (simp_all add: ticked_def mdelay_def fld_set_same unat_minus_one)

lemma mdelay_ticks: "12 \<le> length x \<Longrightarrow> unat (mdelay ((ticked ^^ k) x)) = unat (mdelay x) - k \<and> length ((ticked ^^ k) x) = length x"
  by (induction k) (simp_all add: mdelay_ticked)

lemma qmsgs_length:
  assumes "queue_inv q" and "x \<in> set (qmsgs q)"
  shows "length x = qm q"
proof -
  note qi = queue_invD [OF assms(1)]
  from assms(2) obtain k where k: "k \<in> set (live (qn q) (qh q) (unat (q_tail q)))" "x = sl (qm q) (q_list q) k"
    unfolding qmsgs_def ring_def by (metis imageE list.set_map)
  show ?thesis unfolding k(2) by (rule length_sl [OF live_less [OF qi(2,3) k(1)] qi(4)])
qed

text \<open>Ticks of one queue: it can go on being ticked, and its messages count down in place.\<close>

definition tickable :: "config \<Rightarrow> u8 \<Rightarrow> os \<Rightarrow> bool" where
  "tickable cfg queue s \<longleftrightarrow> msgq_inv cfg (os_msgqs s) \<and> queue < nQueues (os_msgqs s) \<and>
     signalable cfg (mq_change (msgQList (os_msgqs s) ! unat queue)) s"

lemma tick_once:
  assumes "tickable cfg queue s"
  shows "\<exists>s'. os_msgQ_tick cfg queue s = Inr s' \<and> tickable cfg queue s' \<and>
    qmsgs (queue_at (os_msgqs s') queue) = map ticked (qmsgs (queue_at (os_msgqs s) queue)) \<and>
    q_messageSize (queue_at (os_msgqs s') queue) = q_messageSize (queue_at (os_msgqs s) queue)"
proof -
  have a: "msgq_inv cfg (os_msgqs s)" "queue < nQueues (os_msgqs s)"
    "signalable cfg (mq_change (msgQList (os_msgqs s) ! unat queue)) s" using assms by (simp_all add: tickable_def)
  note i = msgq_invD [OF a(1,2)]
  obtain s1 q' where r: "sig_same cfg s s1"
    "os_msgQ_tick cfg queue s = Inr (s1\<lparr>os_msgqs := with_queue (os_msgqs s) queue q'\<rparr>)"
    "queue_inv q'" "qmsgs q' = map ticked (qmsgs (queue_at (os_msgqs s) queue))"
    "q_messageSize q' = q_messageSize (queue_at (os_msgqs s) queue)"
    using msgQ_tick_ok [OF i(3,1) i(2) [unfolded queue_at_def] a(3)]
    unfolding with_queue_def queue_at_def by metis
  let ?s = "s1\<lparr>os_msgqs := with_queue (os_msgqs s) queue q'\<rparr>"
  have "mq_change (msgQList (with_queue (os_msgqs s) queue q') ! unat queue) = mq_change (msgQList (os_msgqs s) ! unat queue)"
    using i(1) by (simp add: with_queue_def)
  then have "signalable cfg (mq_change (msgQList (os_msgqs ?s) ! unat queue)) ?s"
    using a(3) r(1) sig_same_length [OF r(1)] by (simp add: signalable_def sig_same_def task_kept_def)
  moreover have "queue < nQueues (os_msgqs ?s)" using a(2) by (simp add: with_queue_def)
  ultimately have "tickable cfg queue ?s" using msgq_inv_with_queue [OF a(1) r(3)] by (simp add: tickable_def)
  then show ?thesis using r(2,4,5) i(1) by (intro exI [of _ ?s]) simp
qed

lemma ticks_run:
  "tickable cfg queue s \<Longrightarrow> \<exists>s'. iterR k (os_msgQ_tick cfg queue) s = Inr s' \<and> tickable cfg queue s' \<and>
    qmsgs (queue_at (os_msgqs s') queue) = map (ticked ^^ k) (qmsgs (queue_at (os_msgqs s) queue)) \<and>
    q_messageSize (queue_at (os_msgqs s') queue) = q_messageSize (queue_at (os_msgqs s) queue)"
proof (induction k arbitrary: s)
  case (Suc k)
  obtain s1 where s1: "os_msgQ_tick cfg queue s = Inr s1" "tickable cfg queue s1"
    "qmsgs (queue_at (os_msgqs s1) queue) = map ticked (qmsgs (queue_at (os_msgqs s) queue))"
    "q_messageSize (queue_at (os_msgqs s1) queue) = q_messageSize (queue_at (os_msgqs s) queue)"
    using tick_once [OF Suc.prems] by blast
  from Suc.IH [OF s1(2)] s1 show ?case by (simp add: funpow_Suc_right comp_def del: funpow.simps)
qed simp

text \<open>One tick of a queue counts every delayed message down by one, in place, and signals the
  change event of the queue, as an interrupt, once for each message that becomes due; it leaves the
  other queues alone and it always ends.\<close>

theorem msgq_tick_counts_down:
  assumes "msgq_inv cfg (os_msgqs s)" and "queue < nQueues (os_msgqs s)"
    and "signalable cfg (mq_change (msgQList (os_msgqs s) ! unat queue)) s"
  shows "\<exists>s1 s'. os_msgQ_tick cfg queue s = Inr s' \<and>
    iterR (length (filter (\<lambda>x. mdelay x = 1) (qmsgs (queue_at (os_msgqs s) queue))))
      (OS_INT_SIGNAL_EVENT cfg (mq_change (msgQList (os_msgqs s) ! unat queue))) s = Inr s1 \<and>
    s' = s1\<lparr>os_msgqs := os_msgqs s'\<rparr> \<and> msgq_inv cfg (os_msgqs s') \<and>
    qmsgs (queue_at (os_msgqs s') queue) = map ticked (qmsgs (queue_at (os_msgqs s) queue)) \<and>
    os_msgqs s' = with_queue (os_msgqs s) queue (queue_at (os_msgqs s') queue)"
proof -
  note i = msgq_invD [OF assms(1,2)]
  obtain s1 q' where r:
    "iterR (length (filter (\<lambda>m. mdelay m = 1) (qmsgs (queue_at (os_msgqs s) queue))))
       (OS_INT_SIGNAL_EVENT cfg (mq_change (msgQList (os_msgqs s) ! unat queue))) s = Inr s1"
    "os_msgQ_tick cfg queue s = Inr (s1\<lparr>os_msgqs := with_queue (os_msgqs s) queue q'\<rparr>)"
    "queue_inv q'" "qmsgs q' = map ticked (qmsgs (queue_at (os_msgqs s) queue))"
    using msgQ_tick_ok [OF i(3,1) i(2) [unfolded queue_at_def] assms(3)]
    unfolding with_queue_def queue_at_def by metis
  then show ?thesis
    using i(1) msgq_inv_with_queue [OF assms(1) r(3)]
    by (intro exI [of _ s1] exI [of _ "s1\<lparr>os_msgqs := with_queue (os_msgqs s) queue q'\<rparr>"]) simp
qed

definition demo_msg_os :: os where
  "demo_msg_os = (demo_os demo_waiting)\<lparr>os_msgqs := demo_msgqs\<rparr>"

lemma demo_msg_os_sel:
  "os_msgqs demo_msg_os = demo_msgqs" "signalable demo_cfg (mq_change (msgQList demo_msgqs ! 0)) demo_msg_os"
  by (simp_all add: demo_msg_os_def signalable_def demo_msgqs_def demo_waiting_inv demo_os_def)

theorem msgq_tick_counts_down_witness:
  "\<exists>s'. os_msgQ_tick demo_cfg 0 demo_msg_os = Inr s' \<and> qmsgs (queue_at (os_msgqs s') 0) = []"
proof -
  have "msgq_inv demo_cfg (os_msgqs demo_msg_os)" "0 < nQueues (os_msgqs demo_msg_os)"
    "signalable demo_cfg (mq_change (msgQList (os_msgqs demo_msg_os) ! unat (0 :: u8))) demo_msg_os"
    using demo_msgqs_inv demo_msg_os_sel by simp_all
  from msgq_tick_counts_down [OF this] show ?thesis
    by (auto simp: demo_msg_os_sel(1) demo_msgqs_inv(2) demo_queue_inv(2))
qed

text \<open>C39: a queue with room for a single message, which \<open>os_msgQ_create\<close> accepts, cannot be used: a
  new one has its head at slot 1, so that the first post writes past the buffer, and a tick of it
  (its storage zeroed) never ends, whatever number of rounds it is given.\<close>

theorem single_slot_queue:
  assumes "12 \<le> unat m" and "unat m \<le> length msg"
    and "0 < N_QUEUES cfg" and "unat queue < length (msgQList (os_msgqs s))"
    and "mq_q (msgQList (os_msgqs s) ! unat queue) = new_queue (replicate (unat m) 0) 1 m"
  shows "queue_push (new_queue (replicate (unat m) 0) 1 m) msg = Inl OutOfBounds \<and>
    tick_loop cfg queue 1 m fuel (next_slot (new_queue (replicate (unat m) 0) 1 m) 0) s = Inl OutOfFuel"
proof
  let ?q = "new_queue (replicate (unat m) 0) 1 m"
  obtain k where k: "unat m = Suc k" using assms(1) by (cases "unat m") auto
  then have "0 < length msg" using assms(2) by linarith
  then show "queue_push ?q msg = Inl OutOfBounds"
    using k by (simp add: queue_push_def new_queue_def slot_at_def)
  have z: "next_slot ?q i = 0" for i by (simp add: next_slot_def new_queue_def)
  have "get32 (replicate (unat m) 0) delay_at = Inr 0"
    using assms(1) by (simp add: get32_def)
  then have "tick_slot cfg queue m 0 s = Inr s"
    using assms(4,5) by (simp add: tick_slot_def new_queue_def)
  then show "tick_loop cfg queue 1 m fuel (next_slot ?q 0) s = Inl OutOfFuel"
    unfolding z using assms(4,5) z by (induction fuel) simp_all
qed

theorem single_slot_queue_witness:
  "queue_push (new_queue (replicate 12 0) 1 12) (demo_msg 7 0 0) = Inl OutOfBounds"
proof -
  let ?s = "demo_msg_os\<lparr>os_msgqs := \<lparr>msgQList = [\<lparr>mq_q = new_queue (replicate 12 0) 1 12, mq_taskId = 0, mq_change = 1\<rparr>], nQueues = 1\<rparr>\<rparr>"
  have "queue_push (new_queue (replicate (unat (12 :: u16)) 0) 1 12) (demo_msg 7 0 0) = Inl OutOfBounds \<and>
    tick_loop demo_cfg 0 1 12 5 (next_slot (new_queue (replicate (unat (12 :: u16)) 0) 1 12) 0) ?s = Inl OutOfFuel"
    by (rule single_slot_queue) (simp_all add: demo_msg_def)
  then show ?thesis by simp
qed

end
