(* ===== verification/Os_Sched.thy ===== *)
theory Os_Sched
  imports Os_Task_Inv
begin

text \<open>
  The functions of \<open>os_task.c\<close> that choose a task: the next one to run (by priority or round
  robin) and the one a semaphore releases. The contract both scheduling policies satisfy is the
  locale \<open>scheduler\<close>.
\<close>

section \<open>Operations\<close>

text \<open>
  \<open>highest_prio_ready_task\<close>: the loop keeps the best task so far and its priority; the counter
  has 16 bits, the result 8.
\<close>

definition highest_prio_body :: "task_st \<Rightarrow> u16 \<Rightarrow> u8 \<times> u8 \<Rightarrow> (u8 \<times> u8) res" where
  "highest_prio_body s i acc = bindR (tcb_get s (unat i)) (\<lambda>task.
     if tcb_state task = READY
     then Inr (if tcb_prio task < snd acc then (ucast i, tcb_prio task) else acc)
     else Inr acc)"

definition highest_prio_ready_task :: "task_st \<Rightarrow> u8 res" where
  "highest_prio_ready_task s =
     bindR (for_ne 0 (ucast (nTasks s)) (highest_prio_body s) (NO_TID, 255)) (\<lambda>acc. Inr (fst acc))"

text \<open>
  \<open>next_ready_task\<close>: \<open>rr_scan\<close> is the \<open>do\<close> loop, which ends because \<open>nChecked\<close> meets
  \<open>nTasks\<close> after at most 256 rounds.
\<close>

function rr_scan :: "task_st \<Rightarrow> u16 \<Rightarrow> u8 \<Rightarrow> u16 option res" where
  "rr_scan s index nChecked = bindR (tcb_get s (unat index)) (\<lambda>task.
     if tcb_state task = READY then Inr (Some index)
     else if nChecked + 1 \<noteq> nTasks s
     then rr_scan s (if index + 1 = ucast (nTasks s) then 0 else index + 1) (nChecked + 1)
     else Inr None)"
  by pat_completeness auto
termination
proof (relation "measure (\<lambda>(s, index, nChecked). unat (nTasks s - nChecked - 1))")
  fix s :: task_st and index :: u16 and nChecked :: u8
  assume "nChecked + 1 \<noteq> nTasks s"
  then have "nTasks s - nChecked - 1 \<noteq> 0"
    by (metis add.commute diff_add_cancel eq_iff_diff_eq_0 diff_diff_eq)
  then have "unat (nTasks s - nChecked - 1 - 1) < unat (nTasks s - nChecked - 1)"
    by (rule measure_unat)
  then show "((s, if index + 1 = ucast (nTasks s) then 0 else index + 1, nChecked + 1), s, index, nChecked)
      \<in> measure (\<lambda>(s, index, nChecked). unat (nTasks s - nChecked - 1))"
    by (simp add: diff_diff_eq)
qed simp

declare rr_scan.simps [simp del]

definition rr_start :: "task_st \<Rightarrow> u16" where
  "rr_start s = (if last_running_task s = NO_TID then 0
     else if last_running_task s + 1 \<ge> ucast (nTasks s) then 0 else last_running_task s + 1)"

definition next_ready_task :: "task_st \<Rightarrow> (u8 \<times> task_st) res" where
  "next_ready_task s = bindR (rr_scan s (rr_start s) 0) (\<lambda>found.
     let lastRun = (case found of Some index \<Rightarrow> index | None \<Rightarrow> NO_TID)
     in Inr (ucast lastRun, s\<lparr>last_running_task := lastRun\<rparr>))"

text \<open>The two scheduling policies, as \<open>os_schedule\<close> selects them at compile time.\<close>

definition os_select_task :: "config \<Rightarrow> task_st \<Rightarrow> (u8 \<times> task_st) res" where
  "os_select_task cfg s =
     (if ROUND_ROBIN cfg then next_ready_task s
      else bindR (highest_prio_ready_task s) (\<lambda>tid. Inr (tid, s)))"

text \<open>Waiting tasks of a semaphore.\<close>

definition waiting_this_sem :: "u16 \<Rightarrow> tcb \<Rightarrow> bool" where
  "waiting_this_sem sem task \<longleftrightarrow> tcb_state task = WAITING_SEM \<and> tcb_semaphore task = sem"

definition release_prio_body :: "u16 \<Rightarrow> task_st \<Rightarrow> u8 \<Rightarrow> u8 \<times> u8 \<Rightarrow> (u8 \<times> u8) res" where
  "release_prio_body sem s tid acc = bindR (tcb_get s (unat tid)) (\<lambda>task.
     if waiting_this_sem sem task
     then Inr (if tcb_prio task < snd acc then (tid, tcb_prio task) else acc)
     else Inr acc)"

text \<open>Round robin: (found task, longest waiting time, last task seen waiting).\<close>

definition release_rr_body :: "u16 \<Rightarrow> task_st \<Rightarrow> u8 \<Rightarrow> u8 \<times> u32 \<times> u8 \<Rightarrow> (u8 \<times> u32 \<times> u8) res" where
  "release_rr_body sem s tid acc = (case acc of (found, longest, lastChecked) \<Rightarrow>
     bindR (tcb_get s (unat tid)) (\<lambda>task.
       if waiting_this_sem sem task
       then Inr (if tcb_time task > longest then (tid, tcb_time task, tid) else (found, longest, tid))
       else Inr acc))"

definition found_waiting_task :: "config \<Rightarrow> u16 \<Rightarrow> task_st \<Rightarrow> u8 res" where
  "found_waiting_task cfg sem s =
     (if ROUND_ROBIN cfg
      then bindR (for_ne 0 (nTasks s) (release_rr_body sem s) (NO_TID, 0, NO_TID)) (\<lambda>acc.
             case acc of (found, longest, lastChecked) \<Rightarrow>
               Inr (if longest = 0 \<and> lastChecked \<noteq> NO_TID then lastChecked else found))
      else bindR (for_ne 0 (nTasks s) (release_prio_body sem s) (NO_TID, 255)) (\<lambda>acc. Inr (fst acc)))"

definition os_task_release_waiting_task :: "config \<Rightarrow> u16 \<Rightarrow> task_st \<Rightarrow> task_st res" where
  "os_task_release_waiting_task cfg sem s = bindR (found_waiting_task cfg sem s) (\<lambda>foundTask.
     if foundTask \<noteq> NO_TID then mod_tcb (unat foundTask) (tcb_state_update (\<lambda>_. READY)) s
     else Inr s)"

definition os_task_waiting_this_semaphore :: "u16 \<Rightarrow> task_st \<Rightarrow> u8 res" where
  "os_task_waiting_this_semaphore sem s =
     for_ne_break 0 (nTasks s) (\<lambda>tid result.
       bindR (tcb_get s (unat tid)) (\<lambda>task.
         if waiting_this_sem sem task then Inr (True, 1) else Inr (False, result))) 0"

section \<open>The best entry of a table\<close>

text \<open>
  Both priority loops look for the smallest key below 255 among the entries that satisfy a
  condition; \<open>argmin P key k acc\<close> says that \<open>acc\<close> is right for the first \<open>k\<close> entries.
\<close>

definition argmin :: "(nat \<Rightarrow> bool) \<Rightarrow> (nat \<Rightarrow> u8) \<Rightarrow> nat \<Rightarrow> u8 \<times> u8 \<Rightarrow> bool" where
  "argmin P key k acc \<longleftrightarrow>
     (if \<exists>i < k. P i \<and> key i < 255
      then \<exists>i < k. P i \<and> key i < 255 \<and> acc = (of_nat i, key i) \<and> (\<forall>j < k. P j \<longrightarrow> key i \<le> key j)
      else acc = (255, 255))"

lemma argmin_0: "argmin P key 0 (255, 255)"
  by (simp add: argmin_def)

lemma argmin_skip: "argmin P key k acc \<Longrightarrow> \<not> P k \<Longrightarrow> argmin P key (Suc k) acc"
  unfolding argmin_def by (auto simp: less_Suc_eq split: if_splits)

lemma argmin_step:
  assumes "argmin P key k acc" and "P k"
  shows "argmin P key (Suc k) (if key k < snd acc then (of_nat k, key k) else acc)"
proof (cases "\<exists>i < k. P i \<and> key i < 255")
  case True
  with assms(1) obtain i where i: "i < k" "P i" "key i < 255" "acc = (of_nat i, key i)"
    "\<forall>j < k. P j \<longrightarrow> key i \<le> key j" unfolding argmin_def by auto
  show ?thesis
  proof (cases "key k < key i")
    case True
    then have "key k < 255" using i(3) by (rule less_trans)
    then show ?thesis
      using True i assms(2) unfolding argmin_def by (fastforce simp: less_Suc_eq)
  next
    case False
    then show ?thesis
      using i assms(2) unfolding argmin_def by (fastforce simp: less_Suc_eq)
  qed
next
  case False
  with assms(1) have acc: "acc = (255, 255)" unfolding argmin_def by auto
  have none: "\<not> key j < 255" if "j < k" "P j" for j using False that by blast
  show ?thesis
  proof (cases "key k < 255")
    case True
    have "key k \<le> key j" if "j < Suc k" "P j" for j
      using that none [of j] True by (cases "j = k") auto
    then show ?thesis
      using True acc assms(2) unfolding argmin_def by auto
  next
    case False
    then show ?thesis
      using acc none unfolding argmin_def by (auto simp: less_Suc_eq)
  qed
qed

section \<open>Choice by priority\<close>

lemma task_inv_bounds:
  assumes "task_inv cfg s"
  shows "unat (nTasks s) \<le> length (task_list s)" "unat (nTasks s) < 255"
  using assms by (auto simp: task_inv_def)

lemma ucast_of_nat_u16_u8: "n < 256 \<Longrightarrow> ucast (of_nat n :: u16) = (of_nat n :: u8)"
  by (simp add: word_unat_eq_iff unsigned_ucast_eq unat_of_nat_u8 unat_of_nat_u16 take_bit_nat_eq_self)

lemma highest_prio_argmin:
  assumes "task_inv cfg s"
  shows "\<exists>acc. highest_prio_ready_task s = Inr (fst acc) \<and>
    argmin (\<lambda>i. tcb_state (task_list s ! i) = READY) (\<lambda>i. tcb_prio (task_list s ! i)) (unat (nTasks s)) acc"
proof -
  let ?P = "\<lambda>i. tcb_state (task_list s ! i) = READY" and ?key = "\<lambda>i. tcb_prio (task_list s ! i)"
  have "\<exists>acc. foldR (\<lambda>j. highest_prio_body s (of_nat j)) [0..<unat (nTasks s)] (255, 255) = Inr acc \<and>
      argmin ?P ?key (unat (nTasks s)) acc"
  proof (rule foldR_upt_inv)
    fix k acc assume k: "k < unat (nTasks s)" and I: "argmin ?P ?key k acc"
    have b: "k < length (task_list s)" "k < 255" using k task_inv_bounds [OF assms] by simp_all
    then have u: "unat (of_nat k :: u16) = k" "ucast (of_nat k :: u16) = (of_nat k :: u8)"
      by (simp_all add: unat_of_nat_u16 ucast_of_nat_u16_u8)
    show "\<exists>acc'. highest_prio_body s (of_nat k) acc = Inr acc' \<and> argmin ?P ?key (Suc k) acc'"
      using b(1) u argmin_step [OF I] argmin_skip [OF I]
      by (cases "tcb_state (task_list s ! k) = READY")
        (simp_all add: highest_prio_body_def split: if_split_asm)
  qed (rule argmin_0)
  then show ?thesis
    by (auto simp: highest_prio_ready_task_def for_ne_fold)
qed

text \<open>A task the priority scheduler can choose.\<close>

definition hp_eligible :: "task_st \<Rightarrow> nat \<Rightarrow> bool" where
  "hp_eligible s i \<longleftrightarrow> i < unat (nTasks s) \<and> tcb_state (task_list s ! i) = READY \<and> tcb_prio (task_list s ! i) < 255"

lemma highest_prio_some:
  assumes "task_inv cfg s" and "hp_eligible s j"
  obtains i where "highest_prio_ready_task s = Inr (of_nat i)" "hp_eligible s i"
    "\<forall>j. hp_eligible s j \<longrightarrow> tcb_prio (task_list s ! i) \<le> tcb_prio (task_list s ! j)"
proof -
  from highest_prio_argmin [OF assms(1)] obtain acc where
    acc: "highest_prio_ready_task s = Inr (fst acc)"
      "argmin (\<lambda>i. tcb_state (task_list s ! i) = READY) (\<lambda>i. tcb_prio (task_list s ! i)) (unat (nTasks s)) acc"
    by blast
  have "\<exists>i < unat (nTasks s). tcb_state (task_list s ! i) = READY \<and> tcb_prio (task_list s ! i) < 255"
    using assms(2) by (auto simp: hp_eligible_def)
  with acc(2) obtain i where "i < unat (nTasks s)" "tcb_state (task_list s ! i) = READY"
    "tcb_prio (task_list s ! i) < 255" "fst acc = of_nat i"
    "\<forall>j < unat (nTasks s). tcb_state (task_list s ! j) = READY \<longrightarrow> tcb_prio (task_list s ! i) \<le> tcb_prio (task_list s ! j)"
    unfolding argmin_def by auto
  with acc(1) show ?thesis by (intro that [of i]) (auto simp: hp_eligible_def)
qed

lemma highest_prio_none:
  assumes "task_inv cfg s" and "\<forall>j. \<not> hp_eligible s j"
  shows "highest_prio_ready_task s = Inr NO_TID"
proof -
  from highest_prio_argmin [OF assms(1)] obtain acc where
    acc: "highest_prio_ready_task s = Inr (fst acc)"
      "argmin (\<lambda>i. tcb_state (task_list s ! i) = READY) (\<lambda>i. tcb_prio (task_list s ! i)) (unat (nTasks s)) acc"
    by blast
  have "\<not> (\<exists>i < unat (nTasks s). tcb_state (task_list s ! i) = READY \<and> tcb_prio (task_list s ! i) < 255)"
    using assms(2) by (auto simp: hp_eligible_def)
  with acc show ?thesis unfolding argmin_def by auto
qed

section \<open>Round robin\<close>

definition rr_eligible :: "task_st \<Rightarrow> nat \<Rightarrow> bool" where
  "rr_eligible s i \<longleftrightarrow> i < unat (nTasks s) \<and> tcb_state (task_list s ! i) = READY"

lemma rr_scan_find:
  assumes "task_inv cfg s" and "i < unat (nTasks s)" and "m \<noteq> 0" and "m \<le> unat (nTasks s)"
  shows "rr_scan s (of_nat i) (of_nat (unat (nTasks s) - m)) =
    Inr (map_option of_nat (List.find (\<lambda>i. tcb_state (task_list s ! i) = READY) (cyc (unat (nTasks s)) i m)))"
  using assms(2-4)
proof (induction m arbitrary: i)
  case 0
  then show ?case by simp
next
  case (Suc m)
  let ?n = "unat (nTasks s)"
  have b: "i < length (task_list s)" "i < 255" "?n < 255"
    using Suc.prems(1) task_inv_bounds [OF assms(1)] by simp_all
  have ui: "unat (of_nat i :: u16) = i" using b by (simp add: unat_of_nat_u16)
  have nc: "of_nat (?n - Suc m) + 1 = (of_nat (?n - m) :: u8)"
  proof -
    have "?n - m = Suc (?n - Suc m)" using Suc.prems(3) by simp
    then show ?thesis by (metis of_nat_Suc add.commute)
  qed
  have last: "(of_nat (?n - m) = nTasks s) \<longleftrightarrow> m = 0"
  proof -
    have "?n - m < 256" using b(3) by simp
    then have "(of_nat (?n - m) = nTasks s) \<longleftrightarrow> ?n - m = ?n" by (rule of_nat_u8_eq)
    also have "\<dots> \<longleftrightarrow> m = 0" using Suc.prems(3) by arith
    finally show ?thesis .
  qed
  have wrap: "(of_nat i + 1 = (ucast (nTasks s) :: u16)) \<longleftrightarrow> Suc i = ?n"
  proof -
    have "of_nat i + 1 = (of_nat (Suc i) :: u16)" by simp
    then have "unat (of_nat i + 1 :: u16) = Suc i"
      using b(2) unat_of_nat_u16 [of "Suc i"] by (simp add: add.commute)
    then show ?thesis by (simp add: word_unat_eq_iff)
  qed
  let ?next = "if Suc i = ?n then 0 else Suc i"
  have nxt: "(if of_nat i + 1 = (ucast (nTasks s) :: u16) then 0 else of_nat i + 1) = (of_nat ?next :: u16)"
    using wrap by simp
  show ?case
  proof (cases "tcb_state (task_list s ! i) = READY")
    case True
    then show ?thesis
      using b ui by (simp add: rr_scan.simps [of s "of_nat i"])
  next
    case False
    show ?thesis
    proof (cases "m = 0")
      case True
      then show ?thesis
        using False b ui nc last by (simp add: rr_scan.simps [of s "of_nat i"])
    next
      case m: False
      have "?next < ?n" using Suc.prems(1) by auto
      from Suc.IH [OF this m] Suc.prems(3)
      have "rr_scan s (of_nat ?next) (of_nat (?n - m)) =
          Inr (map_option of_nat (List.find (\<lambda>i. tcb_state (task_list s ! i) = READY) (cyc ?n ?next m)))"
        by simp
      then show ?thesis
        using False b ui nc last m nxt by (simp add: rr_scan.simps [of s "of_nat i"])
    qed
  qed
qed

text \<open>The task after the last one, as a table index.\<close>

definition rr_from :: "task_st \<Rightarrow> nat" where
  "rr_from s = (if last_running_task s = NO_TID \<or> unat (last_running_task s) + 1 \<ge> unat (nTasks s)
     then 0 else unat (last_running_task s) + 1)"

lemma rr_start_eq:
  assumes "task_inv cfg s"
  shows "rr_start s = of_nat (rr_from s)"
proof (cases "last_running_task s = NO_TID")
  case True
  then show ?thesis by (simp add: rr_start_def rr_from_def)
next
  case False
  let ?l = "last_running_task s"
  have "unat ?l < 255"
    using assms False task_inv_bounds [OF assms] by (auto simp: task_inv_def)
  then have u: "unat (?l + 1) = unat ?l + 1"
    using unat_add_lem [of ?l 1] by simp
  then have "(ucast (nTasks s) \<le> ?l + 1) \<longleftrightarrow> unat (nTasks s) \<le> unat ?l + 1"
    by (simp add: word_le_nat_alt)
  then show ?thesis
    using False by (simp add: rr_start_def rr_from_def add.commute)
qed

lemma rr_from_less: "0 < unat (nTasks s) \<Longrightarrow> rr_from s < unat (nTasks s)"
  by (auto simp: rr_from_def)

lemma rr_scan_start:
  assumes "task_inv cfg s" and "0 < unat (nTasks s)"
  shows "rr_scan s (rr_start s) 0 = Inr (map_option of_nat
    (List.find (\<lambda>i. tcb_state (task_list s ! i) = READY) (cyc (unat (nTasks s)) (rr_from s) (unat (nTasks s)))))"
  using rr_scan_find [OF assms(1) rr_from_less [OF assms(2)], of "unat (nTasks s)"] assms(2)
  by (simp add: rr_start_eq [OF assms(1)])

lemma task_inv_last:
  assumes "task_inv cfg s" and "i < unat (nTasks s)"
  shows "task_inv cfg (s\<lparr>last_running_task := of_nat i\<rparr>)" "task_inv cfg (s\<lparr>last_running_task := NO_TID\<rparr>)"
  using assms task_inv_bounds [OF assms(1)] unat_of_nat_u16 [of i] by (auto simp: task_inv_def)

text \<open>
  The task it chooses is the first ready one in table order around the table, from the task after
  the last one.
\<close>

lemma next_ready_some:
  assumes "task_inv cfg s" and "rr_eligible s j"
  obtains d where "d < unat (nTasks s)"
    "next_ready_task s = Inr (of_nat ((rr_from s + d) mod unat (nTasks s)),
       s\<lparr>last_running_task := of_nat ((rr_from s + d) mod unat (nTasks s))\<rparr>)"
    "rr_eligible s ((rr_from s + d) mod unat (nTasks s))"
    "\<forall>e < d. \<not> rr_eligible s ((rr_from s + e) mod unat (nTasks s))"
proof -
  let ?n = "unat (nTasks s)" and ?R = "\<lambda>i. tcb_state (task_list s ! i) = READY"
  let ?c = "cyc ?n (rr_from s) ?n"
  have n: "0 < ?n" using assms(2) by (auto simp: rr_eligible_def)
  note fr = rr_from_less [OF n]
  have nth: "?c ! e = (rr_from s + e) mod ?n" if "e < ?n" for e
    using fr that by (simp add: cyc_nth)
  have j: "j < ?n" "?R j" using assms(2) by (auto simp: rr_eligible_def)
  have "\<exists>e < ?n. (rr_from s + e) mod ?n = j"
  proof (cases "rr_from s \<le> j")
    case True
    then show ?thesis using j(1) by (intro exI [of _ "j - rr_from s"]) auto
  next
    case False
    then have "rr_from s + (j + ?n - rr_from s) = j + ?n" using fr by simp
    then show ?thesis using j(1) False fr by (intro exI [of _ "j + ?n - rr_from s"]) auto
  qed
  then have "\<exists>x \<in> set ?c. ?R x"
    using nth j(2) by (metis length_cyc nth_mem)
  then have "List.find ?R ?c \<noteq> None" unfolding find_None_iff by blast
  then obtain x where x: "List.find ?R ?c = Some x" by blast
  then obtain d where d: "d < ?n" "x = ?c ! d" "?R x" "\<forall>e < d. \<not> ?R (?c ! e)"
    by (auto simp: find_Some_iff)
  have xn: "x < 255" "x < ?n" using d nth [of d] n task_inv_bounds [OF assms(1)]
    by (auto intro: less_trans [OF mod_less_divisor])
  have "next_ready_task s = Inr (of_nat x, s\<lparr>last_running_task := of_nat x\<rparr>)"
    using x xn by (simp add: next_ready_task_def rr_scan_start [OF assms(1) n] ucast_of_nat_u16_u8)
  moreover have "\<not> rr_eligible s ((rr_from s + e) mod ?n)" if "e < d" for e
  proof -
    have "\<not> ?R (?c ! e)" using d(4) that by blast
    then show ?thesis using nth [of e] that d(1) by (simp add: rr_eligible_def)
  qed
  ultimately show ?thesis
    using that [of d] d nth [of d] xn by (simp add: rr_eligible_def)
qed

lemma next_ready_none:
  assumes "task_inv cfg s" and "0 < unat (nTasks s)" and "\<forall>j. \<not> rr_eligible s j"
  shows "next_ready_task s = Inr (NO_TID, s\<lparr>last_running_task := NO_TID\<rparr>)"
proof -
  let ?n = "unat (nTasks s)" and ?R = "\<lambda>i. tcb_state (task_list s ! i) = READY"
  have "\<not> ?R x" if "x \<in> set (cyc ?n (rr_from s) ?n)" for x
    using that assms(2,3) rr_from_less [OF assms(2)]
    by (auto simp: in_set_conv_nth cyc_nth rr_eligible_def)
  then have "List.find ?R (cyc ?n (rr_from s) ?n) = None" by (simp add: find_None_iff)
  then show ?thesis
    using rr_scan_start [OF assms(1,2)] by (simp add: next_ready_task_def)
qed

section \<open>The contract of a scheduler\<close>

text \<open>
  A scheduling policy returns an eligible task (which is ready) and \<open>NO_TID\<close> when there is none;
  it changes no task and keeps the invariant.
\<close>

locale scheduler =
  fixes inv :: "task_st \<Rightarrow> bool" and eligible :: "task_st \<Rightarrow> nat \<Rightarrow> bool"
    and select :: "task_st \<Rightarrow> (u8 \<times> task_st) res"
  assumes eligible_ready: "eligible s i \<Longrightarrow> i < unat (nTasks s) \<and> tcb_state (task_list s ! i) = READY"
    and select_some: "inv s \<Longrightarrow> eligible s j \<Longrightarrow>
      \<exists>i s'. select s = Inr (of_nat i, s') \<and> eligible s i \<and> inv s' \<and> task_list s' = task_list s \<and> nTasks s' = nTasks s"
    and select_none: "inv s \<Longrightarrow> \<forall>j. \<not> eligible s j \<Longrightarrow>
      \<exists>s'. select s = Inr (NO_TID, s') \<and> inv s' \<and> task_list s' = task_list s \<and> nTasks s' = nTasks s"
    and inv_bound: "inv s \<Longrightarrow> unat (nTasks s) < 255"
begin

lemma select_total:
  assumes "inv s"
  shows "\<exists>tid s'. select s = Inr (tid, s') \<and> inv s' \<and> task_list s' = task_list s \<and> nTasks s' = nTasks s"
  using select_some [OF assms] select_none [OF assms] by blast

lemma select_tid:
  assumes "inv s" and "select s = Inr (tid, s')"
  shows "(tid = NO_TID \<and> (\<forall>j. \<not> eligible s j)) \<or>
    (tid < nTasks s \<and> eligible s (unat tid) \<and> tcb_state (task_list s ! unat tid) = READY)"
proof (cases "\<exists>j. eligible s j")
  case True
  then obtain i where i: "tid = of_nat i" "eligible s i"
    using select_some [OF assms(1)] assms(2) by auto
  have "i < unat (nTasks s)" using eligible_ready [OF i(2)] by simp
  moreover have "unat (of_nat i :: u8) = i"
    using calculation inv_bound [OF assms(1)] by (intro unat_of_nat_u8) simp
  ultimately show ?thesis using i eligible_ready [OF i(2)] by (simp add: word_less_nat_alt)
next
  case False
  then show ?thesis using select_none [OF assms(1)] assms(2) by auto
qed

end

definition rr_inv :: "config \<Rightarrow> task_st \<Rightarrow> bool" where
  "rr_inv cfg s \<longleftrightarrow> task_inv cfg s \<and> 0 < unat (nTasks s)"

interpretation hp: scheduler "task_inv cfg" hp_eligible
    "\<lambda>s. bindR (highest_prio_ready_task s) (\<lambda>tid. Inr (tid, s))" for cfg
proof
  fix s i j
  show "hp_eligible s i \<Longrightarrow> i < unat (nTasks s) \<and> tcb_state (task_list s ! i) = READY"
    by (simp add: hp_eligible_def)
  assume inv: "task_inv cfg s"
  then show "unat (nTasks s) < 255" by (rule task_inv_bounds)
  show "hp_eligible s j \<Longrightarrow> \<exists>i s'. bindR (highest_prio_ready_task s) (\<lambda>tid. Inr (tid, s)) = Inr (of_nat i, s') \<and>
      hp_eligible s i \<and> task_inv cfg s' \<and> task_list s' = task_list s \<and> nTasks s' = nTasks s"
    by (rule highest_prio_some [OF inv], assumption) (use inv in auto)
  show "\<forall>j. \<not> hp_eligible s j \<Longrightarrow> \<exists>s'. bindR (highest_prio_ready_task s) (\<lambda>tid. Inr (tid, s)) = Inr (NO_TID, s') \<and>
      task_inv cfg s' \<and> task_list s' = task_list s \<and> nTasks s' = nTasks s"
    using inv by (simp add: highest_prio_none)
qed

interpretation rr: scheduler "rr_inv cfg" rr_eligible next_ready_task for cfg
proof
  fix s i j
  show "rr_eligible s i \<Longrightarrow> i < unat (nTasks s) \<and> tcb_state (task_list s ! i) = READY"
    by (simp add: rr_eligible_def)
  assume "rr_inv cfg s"
  then have inv: "task_inv cfg s" and n: "0 < unat (nTasks s)" by (auto simp: rr_inv_def)
  show "unat (nTasks s) < 255" by (rule task_inv_bounds [OF inv])
  show "\<exists>i s'. next_ready_task s = Inr (of_nat i, s') \<and> rr_eligible s i \<and> rr_inv cfg s' \<and>
      task_list s' = task_list s \<and> nTasks s' = nTasks s" if "rr_eligible s j"
  proof -
    from next_ready_some [OF inv that] obtain d where
      d: "next_ready_task s = Inr (of_nat ((rr_from s + d) mod unat (nTasks s)),
         s\<lparr>last_running_task := of_nat ((rr_from s + d) mod unat (nTasks s))\<rparr>)"
        "rr_eligible s ((rr_from s + d) mod unat (nTasks s))" .
    then show ?thesis
      using task_inv_last(1) [OF inv, of "(rr_from s + d) mod unat (nTasks s)"] n
      by (intro exI [of _ "(rr_from s + d) mod unat (nTasks s)"]) (auto simp: rr_inv_def)
  qed
  show "\<exists>s'. next_ready_task s = Inr (NO_TID, s') \<and> rr_inv cfg s' \<and> task_list s' = task_list s \<and> nTasks s' = nTasks s"
    if "\<forall>j. \<not> rr_eligible s j"
    using next_ready_none [OF inv n that] task_inv_last(2) [OF inv n] n by (simp add: rr_inv_def)
qed

section \<open>Releasing a waiting task\<close>

definition waiter :: "u16 \<Rightarrow> task_st \<Rightarrow> nat \<Rightarrow> bool" where
  "waiter sem s i \<longleftrightarrow> i < unat (nTasks s) \<and> waiting_this_sem sem (task_list s ! i)"

lemma waiting_this_semaphore_iff:
  assumes "task_inv cfg s"
  shows "os_task_waiting_this_semaphore sem s = Inr (if \<exists>i. waiter sem s i then 1 else 0)"
proof -
  have "os_task_waiting_this_semaphore sem s =
      Inr (if \<exists>j < unat (nTasks s). waiting_this_sem sem (task_list s ! j) then 1 else 0)"
    unfolding os_task_waiting_this_semaphore_def
  proof (rule for_ne_break_search)
    fix j assume j: "j < unat (nTasks s)"
    have b: "j < length (task_list s)" "j < 256"
      using j task_inv_bounds [OF assms] by simp_all
    then show "bindR (tcb_get s (unat (of_nat j :: u8)))
        (\<lambda>task. if waiting_this_sem sem task then Inr (True, 1) else Inr (False, 0)) =
        Inr (if waiting_this_sem sem (task_list s ! j) then (True, 1) else (False, 0 :: u8))"
      by (simp add: unat_of_nat_u8)
  qed
  then show ?thesis by (simp add: waiter_def)
qed

lemma release_prio_argmin:
  assumes "task_inv cfg s"
  shows "\<exists>acc. for_ne 0 (nTasks s) (release_prio_body sem s) (NO_TID, 255) = Inr acc \<and>
    argmin (\<lambda>i. waiting_this_sem sem (task_list s ! i)) (\<lambda>i. tcb_prio (task_list s ! i)) (unat (nTasks s)) acc"
  unfolding for_ne_fold
proof (rule foldR_upt_inv)
  fix k acc
  assume k: "k < unat (nTasks s)"
    and I: "argmin (\<lambda>i. waiting_this_sem sem (task_list s ! i)) (\<lambda>i. tcb_prio (task_list s ! i)) k acc"
  have b: "k < length (task_list s)" "k < 256" using k task_inv_bounds [OF assms] by simp_all
  then show "\<exists>acc'. release_prio_body sem s (of_nat k) acc = Inr acc' \<and>
      argmin (\<lambda>i. waiting_this_sem sem (task_list s ! i)) (\<lambda>i. tcb_prio (task_list s ! i)) (Suc k) acc'"
    using argmin_step [OF I] argmin_skip [OF I] unat_of_nat_u8 [of k]
    by (cases "waiting_this_sem sem (task_list s ! k)")
      (simp_all add: release_prio_body_def split: if_split_asm)
qed (rule argmin_0)

text \<open>What the round-robin loop knows after \<open>k\<close> rounds.\<close>

definition longest_inv :: "(nat \<Rightarrow> bool) \<Rightarrow> (nat \<Rightarrow> u32) \<Rightarrow> nat \<Rightarrow> u8 \<times> u32 \<times> u8 \<Rightarrow> bool" where
  "longest_inv W time k acc \<longleftrightarrow> (case acc of (found, longest, lastChecked) \<Rightarrow>
     (\<forall>j < k. W j \<longrightarrow> time j \<le> longest) \<and>
     (if longest = 0 then found = 255 else \<exists>i < k. W i \<and> found = of_nat i \<and> time i = longest) \<and>
     (if \<exists>i < k. W i then \<exists>i < k. W i \<and> lastChecked = of_nat i else lastChecked = 255 \<and> longest = 0))"

lemma longest_inv_0: "longest_inv W time 0 (255, 0, 255)"
  by (simp add: longest_inv_def)

lemma longest_inv_skip: "longest_inv W time k acc \<Longrightarrow> \<not> W k \<Longrightarrow> longest_inv W time (Suc k) acc"
  unfolding longest_inv_def by (auto simp: less_Suc_eq split: if_splits)

lemma longest_inv_step:
  assumes "longest_inv W time k (found, longest, lastChecked)" and "W k"
  shows "longest_inv W time (Suc k)
    (if longest < time k then (of_nat k, time k, of_nat k) else (found, longest, of_nat k))"
proof -
  have old: "\<forall>j < k. W j \<longrightarrow> time j \<le> longest"
    "if longest = 0 then found = 255 else \<exists>i < k. W i \<and> found = of_nat i \<and> time i = longest"
    using assms(1) by (simp_all add: longest_inv_def)
  have last: "\<exists>i < Suc k. W i \<and> (of_nat k :: u8) = of_nat i"
    using assms(2) by blast
  then have ex: "\<exists>i < Suc k. W i" by blast
  show ?thesis
  proof (cases "longest < time k")
    case True
    have "\<forall>j < Suc k. W j \<longrightarrow> time j \<le> time k"
      using old(1) True by (auto simp: less_Suc_eq intro: order_trans less_imp_le)
    moreover have "\<exists>i < Suc k. W i \<and> (of_nat k :: u8) = of_nat i \<and> time i = time k"
      using assms(2) by blast
    moreover have "time k \<noteq> 0" using True by auto
    ultimately show ?thesis using True last ex by (simp add: longest_inv_def)
  next
    case False
    then have "\<forall>j < Suc k. W j \<longrightarrow> time j \<le> longest"
      using old(1) by (auto simp: less_Suc_eq)
    moreover have "if longest = 0 then found = 255 else \<exists>i < Suc k. W i \<and> found = of_nat i \<and> time i = longest"
      using old(2) less_SucI by (metis (no_types))
    ultimately show ?thesis using False last ex by (simp add: longest_inv_def)
  qed
qed

lemma release_rr_longest:
  assumes "task_inv cfg s"
  shows "\<exists>acc. for_ne 0 (nTasks s) (release_rr_body sem s) (NO_TID, 0, NO_TID) = Inr acc \<and>
    longest_inv (\<lambda>i. waiting_this_sem sem (task_list s ! i)) (\<lambda>i. tcb_time (task_list s ! i)) (unat (nTasks s)) acc"
  unfolding for_ne_fold
proof (rule foldR_upt_inv)
  fix k and acc :: "u8 \<times> u32 \<times> u8"
  assume k: "k < unat (nTasks s)"
    and I: "longest_inv (\<lambda>i. waiting_this_sem sem (task_list s ! i)) (\<lambda>i. tcb_time (task_list s ! i)) k acc"
  obtain found longest lastChecked where acc: "acc = (found, longest, lastChecked)" by (metis prod_cases3)
  have b: "k < length (task_list s)" "k < 256" using k task_inv_bounds [OF assms] by simp_all
  show "\<exists>acc'. release_rr_body sem s (of_nat k) acc = Inr acc' \<and>
      longest_inv (\<lambda>i. waiting_this_sem sem (task_list s ! i)) (\<lambda>i. tcb_time (task_list s ! i)) (Suc k) acc'"
    using b longest_inv_step [OF I [unfolded acc]] longest_inv_skip [OF I] unat_of_nat_u8 [of k]
    by (cases "waiting_this_sem sem (task_list s ! k)")
      (simp_all add: release_rr_body_def acc split: if_split_asm)
qed (rule longest_inv_0)

text \<open>The waiter to be released: lowest priority number, or longest waiting time.\<close>

definition best_waiter :: "config \<Rightarrow> u16 \<Rightarrow> task_st \<Rightarrow> nat \<Rightarrow> bool" where
  "best_waiter cfg sem s i \<longleftrightarrow> waiter sem s i \<and>
     (\<forall>j. waiter sem s j \<longrightarrow>
        (if ROUND_ROBIN cfg then tcb_time (task_list s ! j) \<le> tcb_time (task_list s ! i)
         else tcb_prio (task_list s ! i) \<le> tcb_prio (task_list s ! j)))"

text \<open>A waiter the release can find: by priority, one whose priority is not 255.\<close>

definition releasable :: "config \<Rightarrow> u16 \<Rightarrow> task_st \<Rightarrow> nat \<Rightarrow> bool" where
  "releasable cfg sem s i \<longleftrightarrow> waiter sem s i \<and> (ROUND_ROBIN cfg \<or> tcb_prio (task_list s ! i) < 255)"

lemma found_waiting_some:
  assumes "task_inv cfg s" and "releasable cfg sem s j"
  obtains i where "found_waiting_task cfg sem s = Inr (of_nat i)" "best_waiter cfg sem s i"
proof (cases "ROUND_ROBIN cfg")
  case True
  from release_rr_longest [OF assms(1)] obtain found longest lastChecked where
    r: "for_ne 0 (nTasks s) (release_rr_body sem s) (NO_TID, 0, NO_TID) = Inr (found, longest, lastChecked)"
    and I: "longest_inv (\<lambda>i. waiting_this_sem sem (task_list s ! i)) (\<lambda>i. tcb_time (task_list s ! i))
      (unat (nTasks s)) (found, longest, lastChecked)"
    by (metis prod_cases3)
  have ex: "\<exists>i < unat (nTasks s). waiting_this_sem sem (task_list s ! i)"
    using assms(2) by (auto simp: releasable_def waiter_def)
  have le: "tcb_time (task_list s ! j) \<le> longest" if "waiter sem s j" for j
    using I that by (simp add: longest_inv_def waiter_def)
  show ?thesis
  proof (cases "longest = 0")
    case z: True
    from I ex obtain i where i: "i < unat (nTasks s)" "waiting_this_sem sem (task_list s ! i)" "lastChecked = of_nat i"
      by (auto simp: longest_inv_def)
    have "(of_nat i :: u8) \<noteq> 255"
      using of_nat_u8_eq [of i 255] i(1) task_inv_bounds [OF assms(1)] by auto
    moreover have "best_waiter cfg sem s i"
      unfolding best_waiter_def using i(1,2) le z True
      by (auto simp: waiter_def)
    ultimately show ?thesis
      using that [of i] i(3) r z True by (simp add: found_waiting_task_def)
  next
    case False
    with I obtain i where i: "i < unat (nTasks s)" "waiting_this_sem sem (task_list s ! i)"
      "found = of_nat i" "tcb_time (task_list s ! i) = longest"
      by (auto simp: longest_inv_def)
    then show ?thesis
      using that [of i] r False True le by (auto simp: found_waiting_task_def best_waiter_def waiter_def)
  qed
next
  case False
  from release_prio_argmin [OF assms(1)] obtain acc where
    r: "for_ne 0 (nTasks s) (release_prio_body sem s) (NO_TID, 255) = Inr acc"
    and I: "argmin (\<lambda>i. waiting_this_sem sem (task_list s ! i)) (\<lambda>i. tcb_prio (task_list s ! i)) (unat (nTasks s)) acc"
    by blast
  have "\<exists>i < unat (nTasks s). waiting_this_sem sem (task_list s ! i) \<and> tcb_prio (task_list s ! i) < 255"
    using assms(2) False by (auto simp: releasable_def waiter_def)
  with I obtain i where "i < unat (nTasks s)" "waiting_this_sem sem (task_list s ! i)" "fst acc = of_nat i"
    "\<forall>j < unat (nTasks s). waiting_this_sem sem (task_list s ! j) \<longrightarrow> tcb_prio (task_list s ! i) \<le> tcb_prio (task_list s ! j)"
    unfolding argmin_def by auto
  then show ?thesis
    using that [of i] r False by (simp add: found_waiting_task_def best_waiter_def waiter_def)
qed

lemma found_waiting_none:
  assumes "task_inv cfg s" and "\<forall>j. \<not> releasable cfg sem s j"
  shows "found_waiting_task cfg sem s = Inr NO_TID"
proof (cases "ROUND_ROBIN cfg")
  case True
  from release_rr_longest [OF assms(1)] obtain found longest lastChecked where
    r: "for_ne 0 (nTasks s) (release_rr_body sem s) (NO_TID, 0, NO_TID) = Inr (found, longest, lastChecked)"
    and I: "longest_inv (\<lambda>i. waiting_this_sem sem (task_list s ! i)) (\<lambda>i. tcb_time (task_list s ! i))
      (unat (nTasks s)) (found, longest, lastChecked)"
    by (metis prod_cases3)
  have "\<not> (\<exists>i < unat (nTasks s). waiting_this_sem sem (task_list s ! i))"
    using assms(2) True by (auto simp: releasable_def waiter_def)
  with I r True show ?thesis by (simp add: longest_inv_def found_waiting_task_def)
next
  case False
  from release_prio_argmin [OF assms(1)] obtain acc where
    r: "for_ne 0 (nTasks s) (release_prio_body sem s) (NO_TID, 255) = Inr acc"
    and I: "argmin (\<lambda>i. waiting_this_sem sem (task_list s ! i)) (\<lambda>i. tcb_prio (task_list s ! i)) (unat (nTasks s)) acc"
    by blast
  have "\<not> (\<exists>i < unat (nTasks s). waiting_this_sem sem (task_list s ! i) \<and> tcb_prio (task_list s ! i) < 255)"
    using assms(2) False by (auto simp: releasable_def waiter_def)
  with I r False show ?thesis unfolding argmin_def by (auto simp: found_waiting_task_def)
qed

text \<open>The table with task \<open>i\<close> made ready.\<close>

definition with_ready :: "nat \<Rightarrow> task_st \<Rightarrow> task_st" where
  "with_ready i s = s\<lparr>task_list := (task_list s)[i := (task_list s ! i)\<lparr>tcb_state := READY\<rparr>]\<rparr>"

lemma release_some:
  assumes "task_inv cfg s" and "releasable cfg sem s j"
  obtains i where "os_task_release_waiting_task cfg sem s = Inr (with_ready i s)" "best_waiter cfg sem s i"
proof -
  from found_waiting_some [OF assms] obtain i where
    i: "found_waiting_task cfg sem s = Inr (of_nat i)" "best_waiter cfg sem s i" .
  then have lt: "i < length (task_list s)" "i < 255"
    using task_inv_bounds [OF assms(1)] by (auto simp: best_waiter_def waiter_def)
  then have "unat (of_nat i :: u8) = i" "(of_nat i :: u8) \<noteq> 255"
    using of_nat_u8_eq [of i 255] by (simp_all add: unat_of_nat_u8)
  then show ?thesis
    using that [of i] i lt by (simp add: os_task_release_waiting_task_def with_ready_def)
qed

lemma release_none:
  "task_inv cfg s \<Longrightarrow> \<forall>j. \<not> releasable cfg sem s j \<Longrightarrow> os_task_release_waiting_task cfg sem s = Inr s"
  by (simp add: os_task_release_waiting_task_def found_waiting_none)

lemma keeps_release: "keeps cfg (os_task_release_waiting_task cfg sem)"
proof (rule keepsI)
  fix s s' assume inv: "task_inv cfg s" and r: "os_task_release_waiting_task cfg sem s = Inr s'"
  have "keeps cfg (\<lambda>s. bindR (found_waiting_task cfg sem s) (\<lambda>foundTask.
     if foundTask \<noteq> NO_TID then mod_tcb (unat foundTask) (tcb_state_update (\<lambda>_. READY)) s else Inr s))"
    by (intro keeps_get keeps_if keeps_mod keeps_Inr) (simp add: tcb_same_def)
  from keepsD [OF this inv, of s'] r show "task_kept cfg s s'"
    by (simp add: os_task_release_waiting_task_def)
qed

section \<open>Round-robin distance\<close>

text \<open>How many table entries the round-robin scheduler looks at before entry \<open>k\<close>.\<close>

definition rr_dist :: "task_st \<Rightarrow> nat \<Rightarrow> nat" where
  "rr_dist s k = (k + unat (nTasks s) - rr_from s) mod unat (nTasks s)"

lemma cyc_offset:
  assumes "f < n" and "d < (n :: nat)" and "(f + d) mod n = k"
  shows "(k + n - f) mod n = d"
proof (cases "f + d < n")
  case True
  have "k = f + d" by (rule trans [OF assms(3) [symmetric] mod_less [OF True]])
  then have "k + n - f = d + n" by simp
  then show ?thesis using assms(2) by simp
next
  case False
  then have "k = f + d - n" using assms by (simp add: le_mod_geq)
  then show ?thesis using assms False by simp
qed

lemma rr_dist_reach:
  assumes "0 < unat (nTasks s)" and "k < unat (nTasks s)"
  shows "(rr_from s + rr_dist s k) mod unat (nTasks s) = k" "rr_dist s k < unat (nTasks s)"
proof -
  let ?n = "unat (nTasks s)"
  have f: "rr_from s < ?n" by (rule rr_from_less [OF assms(1)])
  have "(rr_from s + (k + ?n - rr_from s)) mod ?n = k"
    using f assms(2) by simp
  then show "(rr_from s + rr_dist s k) mod ?n = k"
    by (simp add: rr_dist_def mod_simps)
  show "rr_dist s k < ?n" using assms(1) by (simp add: rr_dist_def)
qed

text \<open>One choice: it is task \<open>k\<close>, or task \<open>k\<close> is closer afterwards.\<close>

lemma rr_step:
  assumes "task_inv cfg s" and "rr_eligible s k" and "next_ready_task s = Inr (tid, t)"
    and "nTasks s' = nTasks s" and "last_running_task s' = last_running_task t"
  shows "tid = of_nat k \<or> rr_dist s' k < rr_dist s k"
proof -
  let ?n = "unat (nTasks s)"
  have k: "k < ?n" and n: "0 < ?n" using assms(2) by (auto simp: rr_eligible_def)
  note f = rr_from_less [OF n] and reach = rr_dist_reach [OF n k]
  obtain d where d: "d < ?n" and sel: "next_ready_task s = Inr (of_nat ((rr_from s + d) mod ?n),
       s\<lparr>last_running_task := of_nat ((rr_from s + d) mod ?n)\<rparr>)"
    and before: "\<forall>e < d. \<not> rr_eligible s ((rr_from s + e) mod ?n)"
    by (rule next_ready_some [OF assms(1,2)])
  let ?i = "(rr_from s + d) mod ?n"
  have i: "?i < ?n" using n by simp
  then have i255: "?i < 255" using task_inv_bounds(2) [OF assms(1)] by (rule less_trans)
  have le: "d \<le> rr_dist s k" using before reach(1) assms(2) by (metis not_le)
  show ?thesis
  proof (cases "d = rr_dist s k")
    case True
    then show ?thesis using sel reach(1) assms(3) by simp
  next
    case False
    with le have lt: "d < rr_dist s k" by simp
    have last: "unat (last_running_task s') = ?i" "last_running_task s' \<noteq> 255"
      using sel assms(3,5) i255 unat_of_nat_u16 [of ?i] by (auto simp: word_unat_eq_iff)
    have from': "rr_from s' = (rr_from s + d + 1) mod ?n"
      using last i assms(4) by (auto simp: rr_from_def mod_Suc)
    have "(rr_from s' + (rr_dist s k - d - 1)) mod ?n = (rr_from s + d + 1 + (rr_dist s k - d - 1)) mod ?n"
      unfolding from' by (rule mod_add_left_eq)
    also have "rr_from s + d + 1 + (rr_dist s k - d - 1) = rr_from s + rr_dist s k" using lt by simp
    finally have "(k + ?n - rr_from s') mod ?n = rr_dist s k - d - 1"
      using reach n by (intro cyc_offset) (simp_all add: from')
    then show ?thesis using lt assms(4) by (simp add: rr_dist_def)
  qed
qed

section \<open>Properties\<close>

text \<open>With priority scheduling, when some ready task has a priority below 255, the scheduler
  returns a ready task whose priority number is strictly smaller than that of every other ready
  task (priorities are unique); the task table is not changed.\<close>

theorem prio_schedule_optimal:
  assumes "task_inv cfg s" and "\<not> ROUND_ROBIN cfg" and "hp_eligible s j"
  shows "\<exists>i. os_select_task cfg s = Inr (of_nat i, s) \<and> hp_eligible s i \<and>
    (\<forall>j. hp_eligible s j \<longrightarrow> j \<noteq> i \<longrightarrow> tcb_prio (task_list s ! i) < tcb_prio (task_list s ! j))"
proof -
  obtain i where i: "highest_prio_ready_task s = Inr (of_nat i)" "hp_eligible s i"
    and le: "\<forall>j. hp_eligible s j \<longrightarrow> tcb_prio (task_list s ! i) \<le> tcb_prio (task_list s ! j)"
    by (rule highest_prio_some [OF assms(1,3)])
  have "tcb_prio (task_list s ! i) \<noteq> tcb_prio (task_list s ! j)" if "hp_eligible s j" "j \<noteq> i" for j
  proof -
    have "distinct (map tcb_prio (take (unat (nTasks s)) (task_list s)))" "unat (nTasks s) \<le> length (task_list s)"
      using assms(1) by (auto simp: task_inv_def)
    then show ?thesis
      using i(2) that by (auto simp: hp_eligible_def distinct_conv_nth)
  qed
  then show ?thesis
    using i le assms(2) by (auto simp: os_select_task_def order.strict_iff_order)
qed

theorem prio_schedule_optimal_witness:
  "\<exists>i. os_select_task demo_cfg (demo_tasks [demo_tcb 0 READY 7, demo_tcb 1 READY 3, demo_tcb 2 KILLED 1]) =
     Inr (of_nat i, demo_tasks [demo_tcb 0 READY 7, demo_tcb 1 READY 3, demo_tcb 2 KILLED 1])"
proof -
  have "hp_eligible (demo_tasks [demo_tcb 0 READY 7, demo_tcb 1 READY 3, demo_tcb 2 KILLED 1]) 0"
    by (simp add: hp_eligible_def)
  from prio_schedule_optimal [OF demo_inv3 _ this] show ?thesis by auto
qed

text \<open>A task created with priority 255, which the documented range 0-255 allows, is never
  chosen by the priority scheduler: when it is the only ready task the scheduler reports that no
  task is ready, and whatever task is chosen has another priority.\<close>

theorem prio_255_starves:
  assumes "task_inv cfg s" and "\<not> ROUND_ROBIN cfg" and "k < unat (nTasks s)" and "tcb_prio (task_list s ! k) = 255"
  shows "os_select_task cfg s \<noteq> Inr (of_nat k, s) \<and>
    ((\<forall>j < unat (nTasks s). j \<noteq> k \<longrightarrow> tcb_state (task_list s ! j) \<noteq> READY) \<longrightarrow>
      os_select_task cfg s = Inr (NO_TID, s))"
proof (intro conjI impI)
  have k: "\<not> hp_eligible s k" using assms(4) by (simp add: hp_eligible_def)
  have b: "k < 255" using assms(3) task_inv_bounds [OF assms(1)] by simp
  show "os_select_task cfg s \<noteq> Inr (of_nat k, s)"
  proof
    assume "os_select_task cfg s = Inr (of_nat k, s)"
    then have "bindR (highest_prio_ready_task s) (\<lambda>tid. Inr (tid, s)) = Inr (of_nat k, s)"
      using assms(2) by (simp add: os_select_task_def)
    from hp.select_tid [OF assms(1) this] show False
      using k b of_nat_u8_eq [of k 255] by (auto simp: unat_of_nat_u8)
  qed
  assume "\<forall>j < unat (nTasks s). j \<noteq> k \<longrightarrow> tcb_state (task_list s ! j) \<noteq> READY"
  then have "\<forall>j. \<not> hp_eligible s j" using k by (auto simp: hp_eligible_def)
  then show "os_select_task cfg s = Inr (NO_TID, s)"
    using assms(2) highest_prio_none [OF assms(1)] by (simp add: os_select_task_def)
qed

theorem prio_255_starves_witness:
  "os_select_task demo_cfg (demo_tasks [demo_tcb 0 KILLED 0, demo_tcb 1 READY 255, demo_tcb 2 WAITING_TIME 1]) =
     Inr (NO_TID, demo_tasks [demo_tcb 0 KILLED 0, demo_tcb 1 READY 255, demo_tcb 2 WAITING_TIME 1])"
proof -
  have three: "j < 3 \<longleftrightarrow> j = 0 \<or> j = 1 \<or> j = 2" for j :: nat by auto
  have "task_inv demo_cfg (demo_tasks [demo_tcb 0 KILLED 0, demo_tcb 1 READY 255, demo_tcb 2 WAITING_TIME 1])"
    by (rule demo_inv3) simp_all
  from prio_255_starves [OF this, of 1] show ?thesis by (simp add: three)
qed

text \<open>Round robin: the task chosen is the first ready one in table order (around the table)
  after the task that ran last, and it becomes the task that ran last; nothing else changes.\<close>

theorem rr_chooses_next:
  assumes "task_inv cfg s" and "ROUND_ROBIN cfg" and "rr_eligible s j"
  shows "\<exists>d < unat (nTasks s). let i = (rr_from s + d) mod unat (nTasks s) in
    os_select_task cfg s = Inr (of_nat i, s\<lparr>last_running_task := of_nat i\<rparr>) \<and> rr_eligible s i \<and>
    (\<forall>e < d. \<not> rr_eligible s ((rr_from s + e) mod unat (nTasks s)))"
  using next_ready_some [OF assms(1,3)] assms(2) by (auto simp: os_select_task_def Let_def)

definition demo_rr :: config where
  "demo_rr = demo_cfg\<lparr>ROUND_ROBIN := True\<rparr>"

lemma demo_rr_inv: "task_inv demo_rr s \<longleftrightarrow> task_inv demo_cfg s" "ROUND_ROBIN demo_rr"
  by (simp_all add: task_inv_def demo_rr_def EVENT_QUEUE_SIZE_def N_TOTAL_EVENTS_def)

theorem rr_chooses_next_witness:
  "\<exists>d < unat (3 :: u8). let i = (rr_from (demo_tasks [demo_tcb 0 READY 0, demo_tcb 1 KILLED 1, demo_tcb 2 READY 2]) + d) mod 3 in
    os_select_task demo_rr (demo_tasks [demo_tcb 0 READY 0, demo_tcb 1 KILLED 1, demo_tcb 2 READY 2]) =
      Inr (of_nat i, (demo_tasks [demo_tcb 0 READY 0, demo_tcb 1 KILLED 1, demo_tcb 2 READY 2])\<lparr>last_running_task := of_nat i\<rparr>)"
proof -
  have "rr_eligible (demo_tasks [demo_tcb 0 READY 0, demo_tcb 1 KILLED 1, demo_tcb 2 READY 2]) 0"
    by (simp add: rr_eligible_def)
  from rr_chooses_next [OF _ demo_rr_inv(2) this] show ?thesis
    unfolding demo_rr_inv(1) Let_def by (auto simp: demo_inv3_Suc)
qed

text \<open>Round robin is fair: in any run of choices between which tasks may change in any way, as
  long as their number does not change, a task that stays ready is chosen within the first
  \<open>nTasks\<close> choices.\<close>

theorem rr_fair:
  assumes "\<forall>j. task_inv cfg (ss j) \<and> nTasks (ss j) = N \<and> rr_eligible (ss j) k"
    and "\<forall>j. \<exists>tid t. next_ready_task (ss j) = Inr (tid, t) \<and> last_running_task (ss (Suc j)) = last_running_task t"
  shows "\<exists>j < unat N. \<exists>t. next_ready_task (ss j) = Inr (of_nat k, t)"
proof -
  have "\<exists>i. j \<le> i \<and> i \<le> j + D \<and> (\<exists>t. next_ready_task (ss i) = Inr (of_nat k, t))"
    if "rr_dist (ss j) k \<le> D" for j D
    using that
  proof (induction D arbitrary: j)
    case 0
    obtain tid t where t: "next_ready_task (ss j) = Inr (tid, t)" "last_running_task (ss (Suc j)) = last_running_task t"
      using assms(2) by blast
    have "tid = of_nat k"
      using rr_step [of cfg "ss j" k tid t "ss (Suc j)"] assms(1) t 0 by auto
    then show ?case using t by auto
  next
    case (Suc D)
    obtain tid t where t: "next_ready_task (ss j) = Inr (tid, t)" "last_running_task (ss (Suc j)) = last_running_task t"
      using assms(2) by blast
    then consider "tid = of_nat k" | "rr_dist (ss (Suc j)) k < rr_dist (ss j) k"
      using rr_step [of cfg "ss j" k tid t "ss (Suc j)"] assms(1) by auto
    then show ?case
    proof cases
      case 1
      then show ?thesis using t by (intro exI [of _ j]) auto
    next
      case 2
      then have "rr_dist (ss (Suc j)) k \<le> D" using Suc.prems by simp
      from Suc.IH [OF this] show ?thesis by (metis Suc_leD add_Suc_shift)
    qed
  qed
  moreover have N: "0 < unat N" and "rr_dist (ss 0) k \<le> unat N - 1"
  proof -
    have k: "nTasks (ss 0) = N" "k < unat N" using assms(1) by (auto simp: rr_eligible_def)
    then show "0 < unat N" by simp
    then have "rr_dist (ss 0) k < unat N" using rr_dist_reach(2) [of "ss 0" k] k by simp
    then show "rr_dist (ss 0) k \<le> unat N - 1" by simp
  qed
  ultimately obtain i where "i \<le> unat N - 1" "\<exists>t. next_ready_task (ss i) = Inr (of_nat k, t)"
    by (metis add_0)
  with N show ?thesis by (intro exI [of _ i]) auto
qed

theorem rr_fair_witness:
  "\<exists>j < unat (3 :: u8). \<exists>t. next_ready_task
     ((demo_tasks [demo_tcb 0 WAITING_SEM 0, demo_tcb 1 KILLED 1, demo_tcb 2 READY 2])\<lparr>last_running_task := of_nat 2\<rparr>) = Inr (of_nat 2, t)"
proof -
  let ?s = "(demo_tasks [demo_tcb 0 WAITING_SEM 0, demo_tcb 1 KILLED 1, demo_tcb 2 READY 2])\<lparr>last_running_task := of_nat 2\<rparr>"
  have inv: "task_inv demo_cfg ?s" by (rule task_inv_last) (simp_all add: demo_inv3_Suc)
  have "rr_scan ?s 0 0 = Inr (Some 2)"
    by (simp add: rr_scan.simps)
  then have "next_ready_task ?s = Inr (2, ?s)"
    by (simp add: next_ready_task_def rr_start_def)
  then show ?thesis
    using rr_fair [of demo_cfg "\<lambda>_. ?s" 3 2] inv by (simp add: rr_eligible_def)
qed

text \<open>With round robin and no task created, the scheduler does not report an idle system: right
  after initialisation it runs past the end of the task table.\<close>

theorem rr_no_tasks_out_of_bounds:
  assumes "ROUND_ROBIN cfg" and "length (task_list s) < 255"
  shows "os_select_task cfg (os_task_init s) = Inl OutOfBounds"
proof -
  let ?s = "os_task_init s"
  have scan: "rr_scan ?s (of_nat i) (of_nat i) = Inl OutOfBounds" if "i \<le> length (task_list s)" for i
    using that
  proof (induction "length (task_list s) - i" arbitrary: i)
    case 0
    then have "unat (of_nat i :: u16) = length (task_list s)"
      using assms(2) by (simp add: unat_of_nat_u16)
    then show ?case by (simp add: rr_scan.simps os_task_init_def)
  next
    case (Suc m)
    then have i: "i < length (task_list s)" by simp
    then have u: "unat (of_nat i :: u16) = i" using assms(2) by (simp add: unat_of_nat_u16)
    have "of_nat i + 1 = (of_nat (Suc i) :: u8)" "of_nat i + 1 = (of_nat (Suc i) :: u16)" by simp_all
    moreover have "(of_nat (Suc i) :: u8) \<noteq> 0" "(of_nat (Suc i) :: u16) \<noteq> 0"
      using i assms(2) unat_of_nat_u8 [of "Suc i"] unat_of_nat_u16 [of "Suc i"]
      by (auto simp del: of_nat_Suc)
    moreover have "rr_scan ?s (of_nat (Suc i)) (of_nat (Suc i)) = Inl OutOfBounds"
      using Suc i by (intro Suc.hyps) auto
    ultimately show ?case
      using i u by (simp add: rr_scan.simps [of _ "of_nat i"] os_task_init_def tcb_reset_def del: of_nat_Suc)
  qed
  have "rr_start ?s = 0" by (simp add: rr_start_def os_task_init_def)
  then show ?thesis
    using scan [of 0] assms(1) by (simp add: os_select_task_def next_ready_task_def)
qed

theorem rr_no_tasks_out_of_bounds_witness:
  "os_select_task demo_rr (os_task_init (demo_tasks [demo_tcb 0 READY 0, demo_tcb 1 KILLED 1])) = Inl OutOfBounds"
  by (rule rr_no_tasks_out_of_bounds) (simp_all add: demo_rr_inv)

text \<open>C16: signalling a semaphore somebody waits for makes exactly one task ready: a waiter of that
  semaphore with the smallest priority number (with round robin: the longest waiting time); no
  other field of any task changes. A waiter of priority 255 is never found by priority: when all
  waiters have that priority nothing changes.\<close>

theorem release_best_waiter:
  assumes "task_inv cfg s"
  shows "if \<exists>j. releasable cfg sem s j
    then \<exists>i. best_waiter cfg sem s i \<and> os_task_release_waiting_task cfg sem s =
      Inr (s\<lparr>task_list := (task_list s)[i := (task_list s ! i)\<lparr>tcb_state := READY\<rparr>]\<rparr>)
    else os_task_release_waiting_task cfg sem s = Inr s"
proof (cases "\<exists>j. releasable cfg sem s j")
  case True
  then obtain j where "releasable cfg sem s j" by blast
  from release_some [OF assms this] obtain i where
    "os_task_release_waiting_task cfg sem s = Inr (with_ready i s)" "best_waiter cfg sem s i" .
  with True show ?thesis by (auto simp: with_ready_def)
next
  case False
  then show ?thesis using release_none [OF assms] by simp
qed

theorem release_best_waiter_witness:
  "\<exists>i. best_waiter demo_cfg 0 (demo_tasks [demo_tcb 0 WAITING_SEM 4, demo_tcb 1 READY 1, demo_tcb 2 WAITING_SEM 2]) i"
proof -
  let ?s = "demo_tasks [demo_tcb 0 WAITING_SEM 4, demo_tcb 1 READY 1, demo_tcb 2 WAITING_SEM 2]"
  have inv: "task_inv demo_cfg ?s" by (rule demo_inv3) simp_all
  have "releasable demo_cfg 0 ?s 0"
    by (simp_all add: waiter_def releasable_def waiting_this_sem_def)
  then show ?thesis
    using release_best_waiter [OF inv, of 0] by (auto split: if_split_asm)
qed

end
