(* ===== verification/Os_Tick.thy ===== *)
theory Os_Tick
  imports Os_Sem Os_Msgq_Props Os_Sched
begin

text \<open>
  The functions of \<open>os_task.c\<close> that reach other modules: creating a task (with its message queue) and
  the clock tick. The invariant of the whole kernel and its preservation by both.
\<close>

section \<open>Operations\<close>

text \<open>The loop that looks for another task of the same priority, from the last task down.\<close>

fun prio_check :: "nat \<Rightarrow> u8 \<Rightarrow> task_st \<Rightarrow> unit res" where
  "prio_check 0 prio s = Inr ()"
| "prio_check (Suc taskId) prio s = bindR (tcb_get s taskId) (\<lambda>t.
     os_assert (tcb_prio t \<noteq> prio) ''task_list[ taskId ].prio != prio'' (prio_check taskId prio s))"

definition tcb_create :: "nat \<Rightarrow> u8 \<Rightarrow> u8 \<Rightarrow> tcb \<Rightarrow> tcb" where
  "tcb_create taskproc tid prio t = t\<lparr>tcb_tid := tid, tcb_prio := prio, tcb_state := READY, tcb_savedState := READY,
     tcb_semaphore := 0, tcb_internal_state := 0, tcb_taskproc := taskproc, tcb_waitSingleEvent := False, tcb_time := 0\<rparr>"

definition os_task_create ::
    "config \<Rightarrow> nat \<Rightarrow> nat \<Rightarrow> u8 \<Rightarrow> bytes \<Rightarrow> u8 \<Rightarrow> u16 \<Rightarrow> os \<Rightarrow> (u8 \<times> os) res" where
  "os_task_create cfg taskproc data prio msgPool poolSize msgSize s =
     os_assert (running (os_kern s) = 0) ''os_running() == 0''
     (os_assert (unat (nTasks (os_tasks s)) < N_TASKS cfg) ''nTasks < N_TASKS''
     (os_assert (taskproc \<noteq> 0) ''taskproc != NULL''
     (bindR (prio_check (unat (nTasks (os_tasks s))) prio (os_tasks s)) (\<lambda>_.
      let tid = nTasks (os_tasks s) in
      bindR (on_tasks (mod_tcb (unat tid) (tcb_create taskproc tid prio)) s) (\<lambda>s.
      bindR (if poolSize > 0 then os_msgQ_create cfg msgPool poolSize msgSize tid s else Inr (NO_QUEUE, s)) (\<lambda>r.
        case r of (queue, s) \<Rightarrow>
      bindR (on_tasks (mod_tcb (unat tid) (\<lambda>t. t\<lparr>tcb_msgQ := queue, tcb_data := data\<rparr>)) s) (\<lambda>s.
      bindR (on_tasks (os_task_clear_wait_queue cfg tid) s) (\<lambda>s.
        Inr (tid, s\<lparr>os_tasks := (os_tasks s)\<lparr>nTasks := nTasks (os_tasks s) + 1\<rparr>\<rparr>)))))))))"

text \<open>One round of \<open>task_tick\<close>: the time of task \<open>i\<close>, then its message queue on the master clock.\<close>

definition tick_time :: "config \<Rightarrow> u8 \<Rightarrow> u32 \<Rightarrow> u8 \<Rightarrow> task_st \<Rightarrow> task_st res" where
  "tick_time cfg clockId tickSize i s = bindR (tcb_get s (unat i)) (\<lambda>t.
     let state = tcb_state t in
     if state = WAITING_TIME \<or> state = WAITING_EVENT_TIMEOUT then
       if tcb_clockId t = clockId then
         if tcb_time t \<le> tickSize then
           bindR (mod_tcb (unat i) (tcb_time_update (\<lambda>_. 0)) s) (\<lambda>s.
           bindR (if state = WAITING_EVENT_TIMEOUT then os_task_clear_wait_queue cfg i s else Inr s)
             (task_ready_set i))
         else mod_tcb (unat i) (\<lambda>t. t\<lparr>tcb_time := tcb_time t - tickSize\<rparr>) s
       else Inr s
     else if state = WAITING_SEM then mod_tcb (unat i) (\<lambda>t. t\<lparr>tcb_time := tcb_time t + 1\<rparr>) s
     else Inr s)"

definition tick_task :: "config \<Rightarrow> u8 \<Rightarrow> u32 \<Rightarrow> u8 \<Rightarrow> os \<Rightarrow> os res" where
  "tick_task cfg clockId tickSize i s =
     bindR (on_tasks (tick_time cfg clockId tickSize i) s) (\<lambda>s.
       if clockId = 0 then
         bindR (os_task_msgQ_get i (os_tasks s)) (\<lambda>queue.
           if queue \<noteq> NO_QUEUE then os_msgQ_tick cfg queue s else Inr s)
       else Inr s)"

definition task_tick :: "config \<Rightarrow> u8 \<Rightarrow> u32 \<Rightarrow> os \<Rightarrow> os res" where
  "task_tick cfg clockId tickSize s =
     for_ne 0 (nTasks (os_tasks s)) (tick_task cfg clockId tickSize) s"

section \<open>The invariant of the kernel\<close>

text \<open>
  Every module is well formed; every queue signals an event that exists; every task has no queue or
  one that exists.
\<close>

definition queues_inv :: "config \<Rightarrow> os \<Rightarrow> bool" where
  "queues_inv cfg s \<longleftrightarrow> msgq_inv cfg (os_msgqs s) \<and>
     (\<forall>i < unat (nQueues (os_msgqs s)).
        mq_change (msgQList (os_msgqs s) ! i) < nEvents (os_events s) \<and>
        unat (mq_change (msgQList (os_msgqs s) ! i)) < event_cap cfg) \<and>
     (\<forall>i < unat (nTasks (os_tasks s)).
        tcb_msgQ (task_list (os_tasks s) ! i) = NO_QUEUE \<or> tcb_msgQ (task_list (os_tasks s) ! i) < nQueues (os_msgqs s))"

definition os_inv :: "config \<Rightarrow> os \<Rightarrow> bool" where
  "os_inv cfg s \<longleftrightarrow> task_inv cfg (os_tasks s) \<and> sem_inv cfg (os_sems s) \<and> event_inv cfg (os_events s) \<and>
     (0 < N_QUEUES cfg \<longrightarrow> queues_inv cfg s)"

lemma os_invD:
  assumes "os_inv cfg s"
  shows "task_inv cfg (os_tasks s)" "sem_inv cfg (os_sems s)" "event_inv cfg (os_events s)"
    "0 < N_QUEUES cfg \<Longrightarrow> queues_inv cfg s"
  using assms by (simp_all add: os_inv_def)

text \<open>An operation on the tasks alone.\<close>

lemma msgQ_kept:
  assumes "map tcb_msgQ (task_list t) = map tcb_msgQ (task_list t0)" and "i < length (task_list t0)"
  shows "tcb_msgQ (task_list t ! i) = tcb_msgQ (task_list t0 ! i)"
proof -
  have "length (task_list t) = length (task_list t0)" by (rule map_eq_imp_length_eq [OF assms(1)])
  then show ?thesis using nth_map [of i "task_list t" tcb_msgQ] nth_map [of i "task_list t0" tcb_msgQ] assms by simp
qed

lemma queues_inv_tasks:
  assumes "queues_inv cfg s" and "task_inv cfg (os_tasks s)" and "task_kept cfg (os_tasks s) t"
  shows "queues_inv cfg (s\<lparr>os_tasks := t\<rparr>)"
proof -
  have n: "nTasks t = nTasks (os_tasks s)" by (rule task_keptD(2) [OF assms(3)])
  have "tcb_msgQ (task_list t ! i) = tcb_msgQ (task_list (os_tasks s) ! i)" if "i < unat (nTasks (os_tasks s))" for i
    using msgQ_kept [OF task_keptD(4) [OF assms(3)], of i] that task_inv_bounds(1) [OF assms(2)] by simp
  then show ?thesis using assms(1) n by (simp add: queues_inv_def)
qed

lemma os_inv_tasks:
  assumes "os_inv cfg s" and "task_kept cfg (os_tasks s) t"
  shows "os_inv cfg (s\<lparr>os_tasks := t\<rparr>)"
  using assms queues_inv_tasks [OF _ os_invD(1) [OF assms(1)] assms(2)] task_keptD(1) [OF assms(2)]
  by (simp add: os_inv_def)

lemma os_inv_on_tasks:
  assumes "os_inv cfg s" and "keeps cfg f" and "on_tasks f s = Inr s'"
  shows "os_inv cfg s'"
  using assms keepsD [OF assms(2) os_invD(1) [OF assms(1)]] by (auto simp: on_tasks_eq_Inr intro: os_inv_tasks)

text \<open>Signals and the ticks of queues keep the invariant.\<close>

lemma event_inv_ids:
  assumes "event_inv cfg e" and "nEvents e' = nEvents e" and "map event_id (eventList e') = map event_id (eventList e)"
  shows "event_inv cfg e'"
proof -
  have len: "length (eventList e') = length (eventList e)" by (rule map_eq_imp_length_eq [OF assms(3)])
  have "event_id (eventList e' ! i) = event_id (eventList e ! i)" if "i < length (eventList e)" for i
    using nth_map [of i "eventList e'" event_id] nth_map [of i "eventList e" event_id] that len assms(3) by simp
  then show ?thesis using assms(1,2) len by (auto simp: event_inv_def)
qed

lemma sig_same_inv:
  assumes "os_inv cfg s" and "sig_same cfg s s'"
  shows "os_inv cfg s'"
proof -
  have k: "task_kept cfg (os_tasks s) (os_tasks s')" "nEvents (os_events s') = nEvents (os_events s)"
    "os_msgqs s' = os_msgqs s" "os_sems s' = os_sems s"
    using assms(2) by (simp_all add: sig_same_def)
  have "event_inv cfg (os_events s')"
    using assms(2) os_invD(3) [OF assms(1)] by (auto simp: sig_same_def intro: event_inv_ids)
  moreover have "queues_inv cfg s'" if "0 < N_QUEUES cfg"
    using queues_inv_tasks [OF os_invD(4) [OF assms(1) that] os_invD(1) [OF assms(1)] k(1)] k
    by (simp add: queues_inv_def)
  ultimately show ?thesis
    using k task_keptD(1) [OF k(1)] os_invD(2) [OF assms(1)] by (simp add: os_inv_def)
qed

lemma queue_signalable:
  assumes "os_inv cfg s" and "0 < N_QUEUES cfg" and "queue < nQueues (os_msgqs s)"
  shows "signalable cfg (mq_change (msgQList (os_msgqs s) ! unat queue)) s"
proof -
  let ?e = "mq_change (msgQList (os_msgqs s) ! unat queue)"
  have q: "?e < nEvents (os_events s)" "unat ?e < event_cap cfg"
    using os_invD(4) [OF assms(1,2)] assms(3) by (auto simp: queues_inv_def word_less_nat_alt)
  then have "unat ?e < length (eventList (os_events s))"
    using os_invD(3) [OF assms(1)] by (auto simp: event_inv_def word_less_nat_alt)
  moreover have "0 < N_TOTAL_EVENTS cfg" using assms(2) by (simp add: N_TOTAL_EVENTS_def)
  ultimately show ?thesis using q os_invD(1) [OF assms(1)] by (simp add: signalable_def)
qed

text \<open>
  The tick of the queue of a task: only the queue changes, and what its signals change: the tasks that
  wait for the change event of a queue. The others are \<open>deaf\<close> to the queues.
\<close>

definition change_events :: "os \<Rightarrow> nat set" where
  "change_events s = (\<lambda>i. unat (mq_change (msgQList (os_msgqs s) ! i))) ` {..<unat (nQueues (os_msgqs s))}"

definition deaf :: "nat set \<Rightarrow> tcb \<Rightarrow> bool" where
  "deaf E t \<longleftrightarrow> (event_waiting t \<longrightarrow> pending t \<inter> E = {})"

lemma deaf_not_waiting: "\<not> event_waiting t \<Longrightarrow> deaf E t"
  by (simp add: deaf_def)

lemma sig_tcb_deaf: "deaf E t \<Longrightarrow> unat e \<in> E \<Longrightarrow> sig_tcb e t = t"
  by (auto simp: deaf_def sig_tcb_def)

definition tick_same :: "config \<Rightarrow> os \<Rightarrow> os \<Rightarrow> bool" where
  "tick_same cfg s s' \<longleftrightarrow> os_kern s' = os_kern s \<and> os_sems s' = os_sems s \<and>
     task_kept cfg (os_tasks s) (os_tasks s') \<and>
     change_events s' = change_events s \<and> queue_ids (os_msgqs s') = queue_ids (os_msgqs s) \<and>
     (\<forall>i < length (task_list (os_tasks s)). deaf (change_events s) (task_list (os_tasks s) ! i) \<longrightarrow>
       task_list (os_tasks s') ! i = task_list (os_tasks s) ! i)"

lemma task_kept_length: "task_kept cfg s s' \<Longrightarrow> length (task_list s') = length (task_list s)"
  by (drule task_keptD(4)) (rule map_eq_imp_length_eq)

lemma tick_same_trans:
  assumes "tick_same cfg s s1" and "tick_same cfg s1 s2"
  shows "tick_same cfg s s2"
proof -
  have "length (task_list (os_tasks s1)) = length (task_list (os_tasks s))"
    using assms(1) by (auto simp: tick_same_def intro: task_kept_length)
  then show ?thesis using assms by (auto simp: tick_same_def intro: task_kept_trans)
qed

lemma int_signal_tick_same:
  assumes "signalable cfg e s" and "OS_INT_SIGNAL_EVENT cfg e s = Inr s1" and "unat e \<in> change_events s"
  shows "tick_same cfg s s1"
proof -
  obtain s1' where s1': "OS_INT_SIGNAL_EVENT cfg e s = Inr s1'" "sig_same cfg s s1'"
    "os_task_signal_event cfg e (os_tasks s) = Inr (os_tasks s1')"
    using int_signal_ok [OF assms(1)] by blast
  have a: "task_inv cfg (os_tasks s)" "unat e < event_cap cfg" using assms(1) by (simp_all add: signalable_def)
  obtain t where "os_task_signal_event cfg e (os_tasks s) = Inr t"
    "\<forall>i < length (task_list (os_tasks s)). task_list t ! i =
       (if i < unat (nTasks (os_tasks s)) then sig_tcb e (task_list (os_tasks s) ! i) else task_list (os_tasks s) ! i)"
    using signal_event_at [OF a] by blast
  then show ?thesis using s1' assms(2,3) by (simp add: tick_same_def sig_same_def sig_tcb_deaf change_events_def)
qed

lemma iter_int_signal_tick_same:
  "signalable cfg e s \<Longrightarrow> iterR c (OS_INT_SIGNAL_EVENT cfg e) s = Inr s1 \<Longrightarrow> unat e \<in> change_events s \<Longrightarrow>
   tick_same cfg s s1"
proof (induction c arbitrary: s)
  case 0
  then show ?case by (simp add: tick_same_def task_kept_refl signalable_def)
next
  case (Suc c)
  from Suc.prems(2) obtain s2 where s2: "OS_INT_SIGNAL_EVENT cfg e s = Inr s2"
    "iterR c (OS_INT_SIGNAL_EVENT cfg e) s2 = Inr s1" by (auto simp: bindR_eq_Inr)
  have "signalable cfg e s2" using int_signal_ok [OF Suc.prems(1)] s2(1) by auto
  moreover have t: "tick_same cfg s s2" by (rule int_signal_tick_same [OF Suc.prems(1) s2(1) Suc.prems(3)])
  moreover have "unat e \<in> change_events s2" using t Suc.prems(3) by (simp add: tick_same_def)
  ultimately show ?case using Suc.IH [OF _ s2(2)] by (blast intro: tick_same_trans)
qed

lemma msgQ_tick_inv:
  assumes "os_inv cfg s" and "0 < N_QUEUES cfg" and "queue < nQueues (os_msgqs s)"
  obtains s' where "os_msgQ_tick cfg queue s = Inr s'" "os_inv cfg s'" "tick_same cfg s s'"
proof -
  have q: "queues_inv cfg s" by (rule os_invD(4) [OF assms(1,2)])
  then have mi: "msgq_inv cfg (os_msgqs s)" by (simp add: queues_inv_def)
  note i = msgq_invD [OF mi assms(3)]
  note sg = queue_signalable [OF assms]
  obtain s1 q' c where r: "iterR c (OS_INT_SIGNAL_EVENT cfg (mq_change (msgQList (os_msgqs s) ! unat queue))) s = Inr s1"
    "sig_same cfg s s1" "os_msgQ_tick cfg queue s = Inr (s1\<lparr>os_msgqs := with_queue (os_msgqs s) queue q'\<rparr>)" "queue_inv q'"
    using msgQ_tick_ok [OF assms(2) i(1) i(2) [unfolded queue_at_def] sg] unfolding with_queue_def by metis
  let ?m = "with_queue (os_msgqs s) queue q'"
  have inv1: "os_inv cfg s1" by (rule sig_same_inv [OF assms(1) r(2)])
  have same: "os_msgqs s1 = os_msgqs s" using r(2) by (simp add: sig_same_def)
  have ch: "mq_change (msgQList ?m ! j) = mq_change (msgQList (os_msgqs s) ! j) \<and> nQueues ?m = nQueues (os_msgqs s)"
    if "j < unat (nQueues (os_msgqs s))" for j
    using i(1) by (cases "j = unat queue") (simp_all add: with_queue_def)
  have nq: "nQueues ?m = nQueues (os_msgqs s)" by (simp add: with_queue_def)
  have "queues_inv cfg (s1\<lparr>os_msgqs := ?m\<rparr>)"
    using os_invD(4) [OF inv1 assms(2)] msgq_inv_with_queue [OF mi r(4)] ch nq
    by (simp add: queues_inv_def same)
  then have "os_inv cfg (s1\<lparr>os_msgqs := ?m\<rparr>)" using inv1 by (simp add: os_inv_def)
  moreover have "tick_same cfg s (s1\<lparr>os_msgqs := ?m\<rparr>)"
  proof -
    have "unat (mq_change (msgQList (os_msgqs s) ! unat queue)) \<in> change_events s"
      using assms(3) by (auto simp: change_events_def word_less_nat_alt)
    from iter_int_signal_tick_same [OF sg r(1) this] have "tick_same cfg s s1" .
    moreover have "change_events (s1\<lparr>os_msgqs := ?m\<rparr>) = change_events s"
      unfolding change_events_def by (intro image_cong) (simp_all add: nq ch)
    ultimately show ?thesis by (simp add: tick_same_def)
  qed
  ultimately show ?thesis using that r(3) by blast
qed

section \<open>The tick of one task\<close>

definition tick_tcb :: "u8 \<Rightarrow> u32 \<Rightarrow> tcb \<Rightarrow> tcb" where
  "tick_tcb clockId n t =
     (if (tcb_state t = WAITING_TIME \<or> tcb_state t = WAITING_EVENT_TIMEOUT) \<and> tcb_clockId t = clockId then
        if tcb_time t \<le> n then
          (if tcb_state t = WAITING_EVENT_TIMEOUT then cleared t else t)\<lparr>tcb_time := 0, tcb_state := READY\<rparr>
        else t\<lparr>tcb_time := tcb_time t - n\<rparr>
      else if tcb_state t = WAITING_SEM then t\<lparr>tcb_time := tcb_time t + 1\<rparr>
      else t)"

lemma tick_tcb_idle:
  "tcb_state t \<noteq> WAITING_TIME \<Longrightarrow> tcb_state t \<noteq> WAITING_EVENT_TIMEOUT \<Longrightarrow> tcb_state t \<noteq> WAITING_SEM \<Longrightarrow> tick_tcb c n t = t"
  by (simp add: tick_tcb_def)

lemma tick_tcb_deaf: "deaf E t \<Longrightarrow> deaf E (tick_tcb c n t)"
  by (simp add: tick_tcb_def deaf_def event_waiting_def pending_def)

lemma tick_tcb_same: "tcb_same t (tick_tcb c n t)"
  by (simp add: tick_tcb_def tcb_same_def cleared_def)

lemma cleared_time: "cleared (t\<lparr>tcb_time := x\<rparr>) = (cleared t)\<lparr>tcb_time := x\<rparr>"
  by (simp add: cleared_def)

lemma tick_time_at:
  assumes i: "unat i < length (task_list s)" "i < nTasks s"
    and len: "length (tcb_eventQueue (task_list s ! unat i)) = EVENT_QUEUE_SIZE cfg"
  shows "tick_time cfg c n i s = Inr (s\<lparr>task_list := (task_list s)[unat i := tick_tcb c n (task_list s ! unat i)]\<rparr>)"
proof -
  let ?t = "task_list s ! unat i"
  consider "tcb_state ?t = WAITING_TIME" | "tcb_state ?t = WAITING_EVENT_TIMEOUT" | "tcb_state ?t = WAITING_SEM"
    | "tcb_state ?t \<noteq> WAITING_TIME" "tcb_state ?t \<noteq> WAITING_EVENT_TIMEOUT" "tcb_state ?t \<noteq> WAITING_SEM" by blast
  then show ?thesis
  proof cases
    case 1
    then show ?thesis using i by (simp add: tick_time_def tick_tcb_def task_ready_set_def)
  next
    case 2
    then show ?thesis
      using i len by (simp add: tick_time_def tick_tcb_def task_ready_set_def clear_wait_queue_at cleared_time)
  next
    case 3
    then show ?thesis using i by (simp add: tick_time_def tick_tcb_def)
  next
    case 4
    then show ?thesis using i by (simp add: tick_time_def tick_tcb_def)
  qed
qed

lemma keeps_tick_time: "keeps cfg (tick_time cfg c n i)"
  unfolding tick_time_def [abs_def] Let_def
  by (intro keeps_get keeps_if keeps_seq keeps_mod keeps_clear_wait_queue keeps_asserted keeps_Inr)
    (simp_all add: tcb_same_def)

section \<open>The tick of all tasks\<close>

text \<open>On another clock than the master clock only the tasks change, each on its own.\<close>

lemma sub_tick_pointwise:
  assumes inv: "task_inv cfg (os_tasks s)" and c: "c \<noteq> 0"
  shows "task_tick cfg c n s = Inr (s\<lparr>os_tasks := (os_tasks s)\<lparr>task_list :=
    map (tick_tcb c n) (take (unat (nTasks (os_tasks s))) (task_list (os_tasks s))) @
    drop (unat (nTasks (os_tasks s))) (task_list (os_tasks s))\<rparr>\<rparr>)"
proof -
  let ?ts = "os_tasks s"
  let ?n = "unat (nTasks ?ts)"
  let ?mk = "\<lambda>l. s\<lparr>os_tasks := ?ts\<lparr>task_list := l\<rparr>\<rparr>"
  have n: "?n \<le> length (task_list ?ts)" "?n < 255" by (rule task_inv_bounds [OF inv])+
  have "foldR (\<lambda>j. tick_task cfg c n (of_nat j)) [0..<?n] (?mk (task_list ?ts)) =
    Inr (?mk (map (tick_tcb c n) (take ?n (task_list ?ts)) @ drop ?n (task_list ?ts)))"
  proof (rule foldR_pointwise [where mk = ?mk, OF _ n(1)])
    fix j ys
    assume j: "j < ?n" and ys: "length ys = length (task_list ?ts)" "ys ! j = task_list ?ts ! j"
    have u: "unat (of_nat j :: u8) = j" using j n by (intro unat_of_nat_u8) simp
    have "tick_time cfg c n (of_nat j) (?ts\<lparr>task_list := ys\<rparr>) =
        Inr ((?ts\<lparr>task_list := ys\<rparr>)\<lparr>task_list := (task_list (?ts\<lparr>task_list := ys\<rparr>))
          [unat (of_nat j :: u8) := tick_tcb c n (task_list (?ts\<lparr>task_list := ys\<rparr>) ! unat (of_nat j :: u8))]\<rparr>)"
      using j n ys u task_inv_queue [OF inv, of j] by (intro tick_time_at) (simp_all add: word_less_nat_alt)
    then show "tick_task cfg c n (of_nat j) (?mk ys) = Inr (?mk (ys[j := tick_tcb c n (task_list ?ts ! j)]))"
      using u ys c by (simp add: tick_task_def on_tasks_def)
  qed
  then show ?thesis by (simp add: task_tick_def for_ne_fold)
qed

text \<open>One round on any clock, for the tasks that do not wait for the event of a queue.\<close>

lemma tick_task_ok:
  assumes inv: "os_inv cfg s" and j: "j < unat (nTasks (os_tasks s))"
  obtains s' where "tick_task cfg c n (of_nat j) s = Inr s'" "os_inv cfg s'" "os_kern s' = os_kern s"
    "task_kept cfg (os_tasks s) (os_tasks s')" "change_events s' = change_events s"
    "\<forall>i < length (task_list (os_tasks s)). deaf (change_events s) (task_list (os_tasks s) ! i) \<longrightarrow>
       task_list (os_tasks s') ! i = (if i = j then tick_tcb c n (task_list (os_tasks s) ! i) else task_list (os_tasks s) ! i)"
    "queue_ids (os_msgqs s') = queue_ids (os_msgqs s)"
proof -
  note that2 = that
  note ti = os_invD(1) [OF inv]
  let ?ts = "os_tasks s"
  note b = task_inv_bounds [OF ti]
  have u: "unat (of_nat j :: u8) = j" using j b by (intro unat_of_nat_u8) simp
  have jl: "j < length (task_list ?ts)" using j b by simp
  let ?t1 = "?ts\<lparr>task_list := (task_list ?ts)[j := tick_tcb c n (task_list ?ts ! j)]\<rparr>"
  let ?s1 = "s\<lparr>os_tasks := ?t1\<rparr>"
  have t1: "tick_time cfg c n (of_nat j) ?ts = Inr ?t1"
    using tick_time_at [of "of_nat j" ?ts cfg c n] u jl j task_inv_queue [OF ti jl] by (simp add: word_less_nat_alt)
  note kept = keepsD [OF keeps_tick_time ti t1]
  have inv1: "os_inv cfg ?s1" by (rule os_inv_tasks [OF inv kept])
  let ?q = "tcb_msgQ (tick_tcb c n (task_list ?ts ! j))"
  have step: "tick_task cfg c n (of_nat j) s =
      (if c = 0 \<and> ?q \<noteq> NO_QUEUE then os_msgQ_tick cfg ?q ?s1 else Inr ?s1)"
    using t1 u jl by (simp add: tick_task_def on_tasks_def os_task_msgQ_get_def)
  have here: "task_list ?t1 ! i = (if i = j then tick_tcb c n (task_list ?ts ! i) else task_list ?ts ! i)" for i
    using jl by simp
  have stay: thesis if "tick_task cfg c n (of_nat j) s = Inr ?s1"
    using that2 [OF that inv1] kept here by (simp add: change_events_def)
  show ?thesis
  proof (cases "c = 0 \<and> ?q \<noteq> NO_QUEUE")
    case False
    show ?thesis by (rule stay [OF trans [OF step if_not_P [OF False]]])
  next
    case True
    show ?thesis
    proof (cases "0 < N_QUEUES cfg")
      case False
      then have "os_msgQ_tick cfg ?q ?s1 = Inr ?s1" by (simp add: os_msgQ_tick_def)
      then show ?thesis by (intro stay) (rule trans [OF trans [OF step if_P [OF True]]])
    next
      case nq: True
      have "\<forall>i < unat (nTasks ?t1). tcb_msgQ (task_list ?t1 ! i) = NO_QUEUE \<or> tcb_msgQ (task_list ?t1 ! i) < nQueues (os_msgqs ?s1)"
        using os_invD(4) [OF inv1 nq] by (simp add: queues_inv_def)
      then have "?q < nQueues (os_msgqs ?s1)" using j jl True by auto
      from msgQ_tick_inv [OF inv1 nq this] obtain s' where
        s': "os_msgQ_tick cfg ?q ?s1 = Inr s'" "os_inv cfg s'" "tick_same cfg ?s1 s'" .
      have ch: "change_events ?s1 = change_events s" by (simp add: change_events_def)
      have "\<forall>i < length (task_list ?ts). deaf (change_events s) (task_list ?ts ! i) \<longrightarrow>
         task_list (os_tasks s') ! i = (if i = j then tick_tcb c n (task_list ?ts ! i) else task_list ?ts ! i)"
        using s'(3) here tick_tcb_deaf by (auto simp: tick_same_def ch)
      then show ?thesis
        using that [of s', OF trans [OF trans [OF step if_P [OF True]] s'(1)] s'(2)] s'(3) kept
        by (auto simp: tick_same_def ch intro: task_kept_trans)
    qed
  qed
qed

lemma task_tick_ok:
  assumes inv: "os_inv cfg s"
  obtains s' where "task_tick cfg c n s = Inr s'" "os_inv cfg s'" "os_kern s' = os_kern s"
    "task_kept cfg (os_tasks s) (os_tasks s')" "change_events s' = change_events s"
    "\<forall>i < unat (nTasks (os_tasks s)). deaf (change_events s) (task_list (os_tasks s) ! i) \<longrightarrow>
       task_list (os_tasks s') ! i = tick_tcb c n (task_list (os_tasks s) ! i)"
    "queue_ids (os_msgqs s') = queue_ids (os_msgqs s)"
proof -
  let ?n = "unat (nTasks (os_tasks s))" and ?l = "task_list (os_tasks s)"
  let ?I = "\<lambda>k x. os_inv cfg x \<and> os_kern x = os_kern s \<and> task_kept cfg (os_tasks s) (os_tasks x) \<and>
    change_events x = change_events s \<and> queue_ids (os_msgqs x) = queue_ids (os_msgqs s) \<and> (\<forall>i < ?n. deaf (change_events s) (?l ! i) \<longrightarrow> task_list (os_tasks x) ! i = (if i < k then tick_tcb c n (?l ! i) else ?l ! i))"
  note b = task_inv_bounds [OF os_invD(1) [OF inv]]
  have "\<exists>s'. foldR (\<lambda>j. tick_task cfg c n (of_nat j)) [0..<?n] s = Inr s' \<and> ?I ?n s'"
  proof (rule foldR_upt_inv [where I = ?I])
    fix k x assume k: "k < ?n" and I: "?I k x"
    then have kept: "task_kept cfg (os_tasks s) (os_tasks x)" and "os_inv cfg x" by simp_all
    then have len: "length (task_list (os_tasks x)) = length ?l" and nT: "nTasks (os_tasks x) = nTasks (os_tasks s)"
      by (auto intro: task_kept_length task_keptD(2))
    have "k < unat (nTasks (os_tasks x))" using k nT by simp
    from tick_task_ok [OF \<open>os_inv cfg x\<close> this] obtain y where
      y: "tick_task cfg c n (of_nat k) x = Inr y" "os_inv cfg y" "os_kern y = os_kern x"
        "task_kept cfg (os_tasks x) (os_tasks y)" "change_events y = change_events x"
        "\<forall>i < length (task_list (os_tasks x)). deaf (change_events x) (task_list (os_tasks x) ! i) \<longrightarrow>
           task_list (os_tasks y) ! i = (if i = k then tick_tcb c n (task_list (os_tasks x) ! i) else task_list (os_tasks x) ! i)"
        "queue_ids (os_msgqs y) = queue_ids (os_msgqs x)" .
    have "task_list (os_tasks y) ! i = (if i < Suc k then tick_tcb c n (?l ! i) else ?l ! i)"
      if "i < ?n" "deaf (change_events s) (?l ! i)" for i
    proof -
      have xi: "task_list (os_tasks x) ! i = (if i < k then tick_tcb c n (?l ! i) else ?l ! i)" using I that by blast
      then have "deaf (change_events x) (task_list (os_tasks x) ! i)" using I that(2) tick_tcb_deaf by simp
      then have "task_list (os_tasks y) ! i = (if i = k then tick_tcb c n (task_list (os_tasks x) ! i) else task_list (os_tasks x) ! i)"
        using y(6) that(1) b(1) len by simp
      then show ?thesis using xi by (cases "i = k") (simp_all add: less_Suc_eq)
    qed
    then show "\<exists>s'. tick_task cfg c n (of_nat k) x = Inr s' \<and> ?I (Suc k) s'"
      using y(1-5,7) I task_kept_trans [OF kept y(4)] by (intro exI [of _ y]) simp
  qed (simp add: inv task_kept_refl [OF os_invD(1) [OF inv]])
  then show ?thesis
    using that by (auto simp: task_tick_def for_ne_fold)
qed

section \<open>Creating a task\<close>

lemma prio_check_eq:
  "k \<le> length (task_list s) \<Longrightarrow> prio_check k prio s =
   (if \<exists>i < k. tcb_prio (task_list s ! i) = prio then Inl (OsAssert ''task_list[ taskId ].prio != prio'') else Inr ())"
  by (induction k) (auto simp: less_Suc_eq os_assert_def)

text \<open>The message pool of a task fits its queue.\<close>

definition pool_ok :: "config \<Rightarrow> bytes \<Rightarrow> u8 \<Rightarrow> u16 \<Rightarrow> os \<Rightarrow> bool" where
  "pool_ok cfg pool n m s \<longleftrightarrow> 2 \<le> unat n \<and> 12 \<le> unat m \<and> unat n * unat m \<le> length pool \<and> 0 < N_QUEUES cfg \<and>
     unat (nQueues (os_msgqs s)) < N_QUEUES cfg \<and> unat (nEvents (os_events s)) < N_TOTAL_EVENTS cfg \<and>
     N_TOTAL_EVENTS cfg \<le> 16 \<and> N_QUEUES cfg < 255"

lemma unat_u8_succ: "unat (x :: u8) < n \<Longrightarrow> n \<le> 255 \<Longrightarrow> unat (x + 1) = Suc (unat x)"
  using unat_add_lem [of x 1] by simp

lemma queue_inv_new:
  assumes "2 \<le> unat n" and "12 \<le> unat m" and "unat n * unat m \<le> length pool"
  shows "queue_inv (new_queue pool n m)" "qmsgs (new_queue pool n m) = []"
  using assms by (simp_all add: queue_inv_def new_queue_def qmsgs_def ring_def live_def ring_len_def)

lemma os_msgQ_create_ok:
  assumes inv: "event_inv cfg (os_events s)" "msgq_inv cfg (os_msgqs s)" and pool: "pool_ok cfg pool n m s"
  obtains ev where "os_msgQ_create cfg pool n m tid s = Inr (nQueues (os_msgqs s), s\<lparr>os_events := ev, os_msgqs :=
      \<lparr>msgQList = (msgQList (os_msgqs s))[unat (nQueues (os_msgqs s)) :=
         \<lparr>mq_q = new_queue pool n m, mq_taskId = tid, mq_change = nEvents (os_events s)\<rparr>],
       nQueues = nQueues (os_msgqs s) + 1\<rparr>\<rparr>)"
    "event_inv cfg ev" "unat (nEvents ev) = Suc (unat (nEvents (os_events s)))"
proof -
  have p: "unat (nEvents (os_events s)) < N_TOTAL_EVENTS cfg" "N_TOTAL_EVENTS cfg \<le> 255" "0 < N_TOTAL_EVENTS cfg" "0 < N_QUEUES cfg"
    "unat (nQueues (os_msgqs s)) < N_QUEUES cfg"
    using pool by (simp_all add: pool_ok_def)
  define ev where "ev = (os_events s)\<lparr>eventList := (eventList (os_events s))[unat (nEvents (os_events s)) :=
      \<lparr>event_id = nEvents (os_events s), signaledByTid = 255\<rparr>], nEvents := nEvents (os_events s) + 1\<rparr>"
  have ev: "event_create cfg (os_events s) = Inr (nEvents (os_events s), ev)"
    using inv(1) p(1,3) by (simp add: event_create_def event_inv_def Let_def ev_def)
  have "unat (nEvents ev) = Suc (unat (nEvents (os_events s)))"
    using unat_u8_succ [OF p(1,2)] by (simp add: ev_def)
  moreover have "unat (nQueues (os_msgqs s)) < length (msgQList (os_msgqs s))"
    using inv(2) p(5) by (simp add: msgq_inv_def)
  ultimately show ?thesis
    using that [of ev] ev event_create_inv [OF inv(1) p(2) ev] p by (simp add: os_msgQ_create_def Let_def)
qed

text \<open>The queues with that of a new task.\<close>

definition add_queue :: "bytes \<Rightarrow> u8 \<Rightarrow> u16 \<Rightarrow> u8 \<Rightarrow> u8 \<Rightarrow> msgq_st \<Rightarrow> msgq_st" where
  "add_queue pool n m tid change ms = \<lparr>msgQList = (msgQList ms)[unat (nQueues ms) :=
       \<lparr>mq_q = new_queue pool n m, mq_taskId = tid, mq_change = change\<rparr>], nQueues = nQueues ms + 1\<rparr>"

text \<open>The control block of a new task, and the table with it.\<close>

definition new_tcb :: "nat \<Rightarrow> nat \<Rightarrow> u8 \<Rightarrow> u8 \<Rightarrow> task_st \<Rightarrow> tcb" where
  "new_tcb taskproc data prio queue ts =
     cleared ((tcb_create taskproc (nTasks ts) prio (task_list ts ! unat (nTasks ts)))\<lparr>tcb_msgQ := queue, tcb_data := data\<rparr>)"

definition add_task :: "tcb \<Rightarrow> task_st \<Rightarrow> task_st" where
  "add_task t ts = ts\<lparr>task_list := (task_list ts)[unat (nTasks ts) := t], nTasks := nTasks ts + 1\<rparr>"

lemma new_tcb_sel [simp]:
  "tcb_tid (new_tcb f d p q ts) = nTasks ts" "tcb_prio (new_tcb f d p q ts) = p" "tcb_taskproc (new_tcb f d p q ts) = f"
  "tcb_state (new_tcb f d p q ts) = READY" "tcb_msgQ (new_tcb f d p q ts) = q" "tcb_data (new_tcb f d p q ts) = d"
  "pending (new_tcb f d p q ts) = {}" "tcb_internal_state (new_tcb f d p q ts) = 0"
  "length (tcb_eventQueue (new_tcb f d p q ts)) = length (tcb_eventQueue (task_list ts ! unat (nTasks ts)))"
  unfolding new_tcb_def by (simp_all add: tcb_create_def cleared_def pending_def wq_elems_empty)

lemma task_inv_create:
  assumes inv: "task_inv cfg ts" and room: "unat (nTasks ts) < N_TASKS cfg" and f: "f \<noteq> 0"
    and prio: "\<forall>i < unat (nTasks ts). tcb_prio (task_list ts ! i) \<noteq> p"
  shows "task_inv cfg (add_task (new_tcb f d p q ts) ts)"
    and "unat (nTasks ts + 1) = Suc (unat (nTasks ts))"
proof -
  let ?n = "unat (nTasks ts)" and ?t = "new_tcb f d p q ts"
  have len: "length (task_list ts) = N_TASKS cfg" "N_TASKS cfg < 255" using inv by (simp_all add: task_inv_def)
  show n: "unat (nTasks ts + 1) = Suc ?n" using unat_u8_succ [OF room] len by simp
  have "map tcb_prio (take (Suc ?n) ((task_list ts)[?n := ?t])) = map tcb_prio (take ?n (task_list ts)) @ [p]"
    using room len by (simp add: take_update_last)
  moreover have "p \<notin> set (map tcb_prio (take ?n (task_list ts)))"
    using prio by (fastforce simp: in_set_conv_nth)
  ultimately have "distinct (map tcb_prio (take (Suc ?n) ((task_list ts)[?n := ?t])))"
    using inv by (simp add: task_inv_def)
  moreover have "length (tcb_eventQueue ?t) = EVENT_QUEUE_SIZE cfg"
    using task_inv_queue [OF inv, of ?n] room len by simp
  ultimately show "task_inv cfg (add_task ?t ts)"
    using inv room len f n unfolding task_inv_def add_task_def
    by (auto simp: nth_list_update less_Suc_eq)
qed

lemma task_create_run:
  assumes inv: "os_inv cfg s" and idle: "running (os_kern s) = 0" and room: "unat (nTasks (os_tasks s)) < N_TASKS cfg"
    and f: "f \<noteq> 0" and prio: "\<forall>i < unat (nTasks (os_tasks s)). tcb_prio (task_list (os_tasks s) ! i) \<noteq> p"
    and q: "(if 0 < n then os_msgQ_create cfg pool n m (nTasks (os_tasks s)) s else Inr (NO_QUEUE, s)) = Inr (queue, s\<lparr>os_events := e, os_msgqs := mq\<rparr>)"
  shows "os_task_create cfg f d p pool n m s = Inr (nTasks (os_tasks s),
    s\<lparr>os_tasks := add_task (new_tcb f d p queue (os_tasks s)) (os_tasks s), os_events := e, os_msgqs := mq\<rparr>)"
proof -
  let ?ts = "os_tasks s"
  let ?tid = "nTasks ?ts"
  have ti: "task_inv cfg ?ts" by (rule os_invD(1) [OF inv])
  have i: "unat ?tid < length (task_list ?ts)" using room ti by (simp add: task_inv_def)
  have pc: "prio_check (unat ?tid) p ?ts = Inr ()" using prio prio_check_eq [of "unat ?tid" ?ts p] i by auto
  define t1 where "t1 = tcb_create f ?tid p (task_list ?ts ! unat ?tid)"
  let ?s1 = "s\<lparr>os_tasks := ?ts\<lparr>task_list := (task_list ?ts)[unat ?tid := t1]\<rparr>\<rparr>"
  have c1: "on_tasks (mod_tcb (unat ?tid) (tcb_create f ?tid p)) s = Inr ?s1" using i by (simp add: on_tasks_def t1_def)
  have q1: "(if 0 < n then os_msgQ_create cfg pool n m ?tid ?s1 else Inr (NO_QUEUE, ?s1)) =
      Inr (queue, ?s1\<lparr>os_events := e, os_msgqs := mq\<rparr>)"
  proof (cases "0 < n")
    case True
    then have "os_msgQ_create cfg pool n m ?tid s = Inr (queue, s\<lparr>os_events := e, os_msgqs := mq\<rparr>)" using q by simp
    then have "os_msgQ_create cfg pool n m ?tid ?s1 = Inr (queue, ?s1\<lparr>os_events := e, os_msgqs := mq\<rparr>)"
      by (cases s) (auto simp: os_msgQ_create_def res_simps Let_def split: if_splits)
    then show ?thesis using True by simp
  next
    case False
    then show ?thesis using q by (cases s) simp
  qed
  let ?t2 = "t1\<lparr>tcb_msgQ := queue, tcb_data := d\<rparr>"
  have len: "length (tcb_eventQueue ?t2) = EVENT_QUEUE_SIZE cfg"
    using task_inv_queue [OF ti i] by (simp add: t1_def tcb_create_def)
  let ?s2 = "?s1\<lparr>os_tasks := ?ts\<lparr>task_list := (task_list ?ts)[unat ?tid := ?t2]\<rparr>, os_events := e, os_msgqs := mq\<rparr>"
  let ?s3 = "?s1\<lparr>os_tasks := ?ts\<lparr>task_list := (task_list ?ts)[unat ?tid := cleared ?t2]\<rparr>, os_events := e, os_msgqs := mq\<rparr>"
  have c2: "on_tasks (mod_tcb (unat ?tid) (\<lambda>t. t\<lparr>tcb_msgQ := queue, tcb_data := d\<rparr>)) (?s1\<lparr>os_events := e, os_msgqs := mq\<rparr>) = Inr ?s2"
    using i by (simp add: on_tasks_def)
  have "os_task_clear_wait_queue cfg ?tid (?ts\<lparr>task_list := (task_list ?ts)[unat ?tid := ?t2]\<rparr>) =
      Inr (?ts\<lparr>task_list := (task_list ?ts)[unat ?tid := cleared ?t2]\<rparr>)"
    using i len clear_wait_queue_at [of ?tid "?ts\<lparr>task_list := (task_list ?ts)[unat ?tid := ?t2]\<rparr>" cfg] by simp
  then have c3: "on_tasks (os_task_clear_wait_queue cfg ?tid) ?s2 = Inr ?s3"
    by (simp add: on_tasks_def)
  have "os_task_create cfg f d p pool n m s = Inr (?tid, ?s3\<lparr>os_tasks := (os_tasks ?s3)\<lparr>nTasks := nTasks (os_tasks ?s3) + 1\<rparr>\<rparr>)"
    unfolding os_task_create_def Let_def
    by (simp only: idle room f pc c1 q1 c2 c3 os_assert_True bindR.simps prod.case simp_thms)
  then show ?thesis by (cases s) (simp add: new_tcb_def add_task_def t1_def)
qed

text \<open>Creating a task keeps the invariant of the kernel.\<close>

lemma task_create_inv:
  assumes inv: "os_inv cfg s" and idle: "running (os_kern s) = 0" and room: "unat (nTasks (os_tasks s)) < N_TASKS cfg"
    and f: "f \<noteq> 0" and prio: "\<forall>i < unat (nTasks (os_tasks s)). tcb_prio (task_list (os_tasks s) ! i) \<noteq> p"
    and pool: "n = 0 \<or> pool_ok cfg pool n m s"
  obtains s' queue where "os_task_create cfg f d p pool n m s = Inr (nTasks (os_tasks s), s')" "os_inv cfg s'"
    "os_tasks s' = add_task (new_tcb f d p queue (os_tasks s)) (os_tasks s)"
    "if n = 0 then queue = NO_QUEUE
     else os_msgQ_event_get cfg queue (os_msgqs s') = Inr (nEvents (os_events s)) \<and> qmsgs (queue_at (os_msgqs s') queue) = []"
    "if n = 0 then queue = NO_QUEUE \<and> os_msgqs s' = os_msgqs s
     else queue = nQueues (os_msgqs s) \<and> os_msgqs s' = add_queue pool n m (nTasks (os_tasks s)) (nEvents (os_events s)) (os_msgqs s)"
proof -
  let ?ts = "os_tasks s"
  have ti: "task_inv cfg ?ts" by (rule os_invD(1) [OF inv])
  note tc = task_inv_create [OF ti room f prio]
  have tab: "task_list (add_task t ?ts) ! i = (if i = unat (nTasks ?ts) then t else task_list ?ts ! i)" for t i
    using room ti by (simp add: add_task_def task_inv_def)
  have nt: "unat (nTasks (add_task t ?ts)) = Suc (unat (nTasks ?ts))" for t
    using tc(2) by (simp add: add_task_def)
  show ?thesis
  proof (cases "n = 0")
    case True
    let ?s' = "s\<lparr>os_tasks := add_task (new_tcb f d p NO_QUEUE ?ts) ?ts\<rparr>"
    have "(if 0 < n then os_msgQ_create cfg pool n m (nTasks ?ts) s else Inr (NO_QUEUE, s)) =
        Inr (NO_QUEUE, s\<lparr>os_events := os_events s, os_msgqs := os_msgqs s\<rparr>)" using True by simp
    from task_create_run [OF inv idle room f prio this]
    have r: "os_task_create cfg f d p pool n m s = Inr (nTasks ?ts, ?s')" by simp
    have "queues_inv cfg ?s'" if "0 < N_QUEUES cfg"
      using os_invD(4) [OF inv that] tab nt by (auto simp: queues_inv_def less_Suc_eq)
    then have "os_inv cfg ?s'" using inv tc(1) by (simp add: os_inv_def)
    then show ?thesis using that [OF r] True by simp
  next
    case False
    then have pl: "pool_ok cfg pool n m s" and n: "0 < n" using pool by (auto simp: word_gt_0)
    then have nq: "0 < N_QUEUES cfg" "unat (nQueues (os_msgqs s)) < N_QUEUES cfg" "N_QUEUES cfg < 255"
      "N_TOTAL_EVENTS cfg \<le> 16" "unat (nEvents (os_events s)) < N_TOTAL_EVENTS cfg"
      by (simp_all add: pool_ok_def)
    note qi = os_invD(4) [OF inv nq(1)]
    then have mi: "msgq_inv cfg (os_msgqs s)" by (simp add: queues_inv_def)
    let ?k = "nQueues (os_msgqs s)"
    let ?mq = "\<lparr>mq_q = new_queue pool n m, mq_taskId = nTasks ?ts, mq_change = nEvents (os_events s)\<rparr>"
    let ?m = "\<lparr>msgQList = (msgQList (os_msgqs s))[unat ?k := ?mq], nQueues = ?k + 1\<rparr>"
    obtain ev where ev: "os_msgQ_create cfg pool n m (nTasks ?ts) s = Inr (?k, s\<lparr>os_events := ev, os_msgqs := ?m\<rparr>)"
      "event_inv cfg ev" "unat (nEvents ev) = Suc (unat (nEvents (os_events s)))"
      by (rule os_msgQ_create_ok [OF os_invD(3) [OF inv] mi pl])
    let ?s' = "s\<lparr>os_tasks := add_task (new_tcb f d p ?k ?ts) ?ts, os_events := ev, os_msgqs := ?m\<rparr>"
    have "(if 0 < n then os_msgQ_create cfg pool n m (nTasks ?ts) s else Inr (NO_QUEUE, s)) =
        Inr (?k, s\<lparr>os_events := ev, os_msgqs := ?m\<rparr>)" using n ev(1) by simp
    note r = task_create_run [OF inv idle room f prio this]
    have k: "unat (?k + 1) = Suc (unat ?k)" "unat ?k < length (msgQList (os_msgqs s))"
      using unat_u8_succ [OF nq(2)] nq mi by (simp_all add: msgq_inv_def)
    have lm: "msgQList ?m ! i = (if i = unat ?k then ?mq else msgQList (os_msgqs s) ! i)" for i
      using k(2) by simp
    have newq: "queue_inv (new_queue pool n m)" "qmsgs (new_queue pool n m) = []"
      using queue_inv_new pl by (simp_all add: pool_ok_def)
    have "msgq_inv cfg ?m"
      using mi k newq(1) lm nq by (auto simp: msgq_inv_def less_Suc_eq)
    moreover have "unat (nEvents (os_events s)) < event_cap cfg"
      using nq by (auto simp: event_cap_def EVENT_QUEUE_SIZE_def)
    ultimately have "queues_inv cfg ?s'"
      using qi tab nt k lm ev(3) by (auto simp: queues_inv_def less_Suc_eq word_less_nat_alt)
    then have "os_inv cfg ?s'" using inv tc(1) ev(2) by (simp add: os_inv_def)
    moreover have "os_msgQ_event_get cfg ?k (os_msgqs ?s') = Inr (nEvents (os_events s))"
      using nq(1) k by (simp add: os_msgQ_event_get_def word_le_nat_alt)
    moreover have "qmsgs (queue_at (os_msgqs ?s') ?k) = []"
      using newq(2) k by (simp add: queue_at_def)
    ultimately show ?thesis using that [OF r] False by (simp add: add_queue_def)
  qed
qed

lemma create_refused:
  assumes "task_inv cfg (os_tasks s)"
    and "running (os_kern s) \<noteq> 0 \<or> N_TASKS cfg \<le> unat (nTasks (os_tasks s)) \<or> f = 0 \<or>
      (\<exists>i < unat (nTasks (os_tasks s)). tcb_prio (task_list (os_tasks s) ! i) = p)"
  shows "\<exists>e. os_task_create cfg f d p pool n m s = Inl (OsAssert e)"
proof (cases "running (os_kern s) \<noteq> 0 \<or> N_TASKS cfg \<le> unat (nTasks (os_tasks s)) \<or> f = 0")
  case True
  then show ?thesis by (auto simp: os_task_create_def os_assert_def)
next
  case False
  then have "\<exists>i < unat (nTasks (os_tasks s)). tcb_prio (task_list (os_tasks s) ! i) = p" using assms(2) by blast
  then have "prio_check (unat (nTasks (os_tasks s))) p (os_tasks s) = Inl (OsAssert ''task_list[ taskId ].prio != prio'')"
    using task_inv_bounds(1) [OF assms(1)] by (simp add: prio_check_eq)
  then show ?thesis using False by (simp add: os_task_create_def not_le)
qed

lemma new_tcb_saved: "tcb_savedState (new_tcb f d p q ts) = READY"
  by (simp add: new_tcb_def tcb_create_def cleared_def)

text \<open>What a creation that succeeds has found and done.\<close>

lemma created_conditions:
  assumes "os_inv cfg s" and "os_task_create cfg f d p pool n m s = Inr (tid, s')"
  shows "running (os_kern s) = 0" "unat (nTasks (os_tasks s)) < N_TASKS cfg" "f \<noteq> 0"
    "\<forall>i < unat (nTasks (os_tasks s)). tcb_prio (task_list (os_tasks s) ! i) \<noteq> p"
proof -
  have "\<not> (running (os_kern s) \<noteq> 0 \<or> N_TASKS cfg \<le> unat (nTasks (os_tasks s)) \<or> f = 0 \<or>
      (\<exists>i < unat (nTasks (os_tasks s)). tcb_prio (task_list (os_tasks s) ! i) = p))" (is "\<not> ?R")
  proof
    assume ?R
    from create_refused [OF os_invD(1) [OF assms(1)] this, of d pool n m] assms(2) show False by simp
  qed
  then show "running (os_kern s) = 0" "unat (nTasks (os_tasks s)) < N_TASKS cfg" "f \<noteq> 0"
    "\<forall>i < unat (nTasks (os_tasks s)). tcb_prio (task_list (os_tasks s) ! i) \<noteq> p" by auto
qed

lemma created_room:
  "os_inv cfg s \<Longrightarrow> os_task_create cfg f d p pool n m s = Inr (tid, s') \<Longrightarrow> unat (nTasks (os_tasks s)) < length (task_list (os_tasks s))"
  using created_conditions(2) [of cfg s f d p pool n m tid s'] os_invD(1) [of cfg s] by (simp add: task_inv_def)

lemma created_task:
  assumes "os_inv cfg s" and "n = 0 \<or> pool_ok cfg pool n m s" and "os_task_create cfg f d p pool n m s = Inr (tid, s')"
  obtains queue where "os_tasks s' = add_task (new_tcb f d p queue (os_tasks s)) (os_tasks s)"
    "unat (nTasks (os_tasks s')) = Suc (unat (nTasks (os_tasks s)))" "os_inv cfg s'"
    "if n = 0 then queue = NO_QUEUE \<and> os_msgqs s' = os_msgqs s
     else queue = nQueues (os_msgqs s) \<and> os_msgqs s' = add_queue pool n m (nTasks (os_tasks s)) (nEvents (os_events s)) (os_msgqs s)"
proof -
  note ok = created_conditions [OF assms(1,3)]
  obtain s1 queue where s1: "os_task_create cfg f d p pool n m s = Inr (nTasks (os_tasks s), s1)" "os_inv cfg s1"
    "os_tasks s1 = add_task (new_tcb f d p queue (os_tasks s)) (os_tasks s)"
    "if n = 0 then queue = NO_QUEUE \<and> os_msgqs s1 = os_msgqs s
     else queue = nQueues (os_msgqs s) \<and> os_msgqs s1 = add_queue pool n m (nTasks (os_tasks s)) (nEvents (os_events s)) (os_msgqs s)"
    by (rule task_create_inv [OF assms(1) ok assms(2), of d]) blast
  then show ?thesis
    using that [of queue] assms(3) task_inv_create(2) [OF os_invD(1) [OF assms(1)] ok(2-4)] by (simp add: add_task_def)
qed

lemma task_create_kern: "os_task_create cfg f d p pool n m s = Inr (tid, s') \<Longrightarrow> os_kern s' = os_kern s"
  by (auto simp: os_task_create_def os_msgQ_create_def res_simps Let_def split: if_split_asm)

section \<open>Properties\<close>

text \<open>C29: creating a task before the kernel runs, with a priority no other task has and a pool that
  fits (or none; at most 16 events in total), returns the next task number; the new task is ready, waits for nothing and starts
  its procedure at the beginning; its queue, if it has one, is empty and signals a new event; the
  other tasks are unchanged and the invariant of the kernel holds again.\<close>

theorem task_create_fresh:
  assumes "os_inv cfg s" and "running (os_kern s) = 0" and "unat (nTasks (os_tasks s)) < N_TASKS cfg" and "f \<noteq> 0"
    and "\<forall>i < unat (nTasks (os_tasks s)). tcb_prio (task_list (os_tasks s) ! i) \<noteq> p"
    and "n = 0 \<or> pool_ok cfg pool n m s"
  shows "\<exists>s' queue. os_task_create cfg f d p pool n m s = Inr (nTasks (os_tasks s), s') \<and> os_inv cfg s' \<and>
    unat (nTasks (os_tasks s')) = Suc (unat (nTasks (os_tasks s))) \<and>
    task_list (os_tasks s') = (task_list (os_tasks s))[unat (nTasks (os_tasks s)) := new_tcb f d p queue (os_tasks s)] \<and>
    tcb_state (new_tcb f d p queue (os_tasks s)) = READY \<and> tcb_internal_state (new_tcb f d p queue (os_tasks s)) = 0 \<and>
    pending (new_tcb f d p queue (os_tasks s)) = {} \<and>
    (if n = 0 then queue = NO_QUEUE
     else os_msgQ_event_get cfg queue (os_msgqs s') = Inr (nEvents (os_events s)) \<and> qmsgs (queue_at (os_msgqs s') queue) = [])"
proof -
  obtain s' queue where r: "os_task_create cfg f d p pool n m s = Inr (nTasks (os_tasks s), s')" "os_inv cfg s'"
    "os_tasks s' = add_task (new_tcb f d p queue (os_tasks s)) (os_tasks s)"
    "if n = 0 then queue = NO_QUEUE
     else os_msgQ_event_get cfg queue (os_msgqs s') = Inr (nEvents (os_events s)) \<and> qmsgs (queue_at (os_msgqs s') queue) = []"
    by (rule task_create_inv [OF assms])
  then show ?thesis
    using task_inv_create(2) [OF os_invD(1) [OF assms(1)] assms(3-5)]
    by (intro exI [of _ s'] exI [of _ queue]) (simp add: add_task_def)
qed

definition demo_boot :: os where
  "demo_boot = (demo_msg_os)\<lparr>os_tasks := (demo_tasks [demo_tcb 0 READY 7, demo_tcb 1 READY 3, demo_tcb 2 KILLED 1])\<lparr>nTasks := 2\<rparr>\<rparr>"

lemma demo_boot_inv: "os_inv demo_cfg demo_boot" "nTasks (os_tasks demo_boot) = 2" "running (os_kern demo_boot) = 0"
proof -
  have three: "i < 3 \<longleftrightarrow> i = 0 \<or> i = 1 \<or> i = 2" for i :: nat by auto
  have "task_inv demo_cfg (os_tasks demo_boot)"
    by (simp add: task_inv_def demo_boot_def three less_2_cases_iff)
  moreover have "sem_inv demo_cfg (os_sems demo_boot)"
    by (simp add: demo_boot_def demo_msg_os_def demo_os_def sem_inv_def less_2_cases_iff)
  moreover have "event_inv demo_cfg (os_events demo_boot)" by (simp add: demo_boot_def demo_msg_os_def)
  moreover have "queues_inv demo_cfg demo_boot"
    using demo_msgqs_inv(1) demo_queue_inv(1)
    by (simp add: queues_inv_def demo_boot_def demo_msg_os_def demo_msgqs_def demo_os_def less_2_cases_iff)
  ultimately show "os_inv demo_cfg demo_boot" by (simp add: os_inv_def)
qed (simp_all add: demo_boot_def demo_msg_os_def)

theorem task_create_fresh_witness:
  "\<exists>s'. os_task_create demo_cfg 1 0 9 [] 0 0 demo_boot = Inr (2, s') \<and> unat (nTasks (os_tasks s')) = 3"
proof -
  have "unat (nTasks (os_tasks demo_boot)) < N_TASKS demo_cfg" "(1 :: nat) \<noteq> 0" "(0 :: u8) = 0 \<or> pool_ok demo_cfg [] 0 0 demo_boot"
    "\<forall>i < unat (nTasks (os_tasks demo_boot)). tcb_prio (task_list (os_tasks demo_boot) ! i) \<noteq> 9"
    by (simp_all add: demo_boot_inv(2) less_2_cases_iff) (simp add: demo_boot_def)
  from task_create_fresh [OF demo_boot_inv(1,3) this(1,2,4,3), of 0] show ?thesis
    by (auto simp: demo_boot_inv(2))
qed

text \<open>C30: a task is refused, by an assertion and before anything changes, when the kernel is running,
  when the table is full, when there is no procedure or when the priority is taken.\<close>

theorem task_create_refused:
  assumes "task_inv cfg (os_tasks s)"
    and "running (os_kern s) \<noteq> 0 \<or> N_TASKS cfg \<le> unat (nTasks (os_tasks s)) \<or> f = 0 \<or>
      (\<exists>i < unat (nTasks (os_tasks s)). tcb_prio (task_list (os_tasks s) ! i) = p)"
  shows "\<exists>e. os_task_create cfg f d p pool n m s = Inl (OsAssert e)"
  using assms by (rule create_refused)

theorem task_create_refused_witness:
  "\<exists>e. os_task_create demo_cfg 1 0 3 [] 0 0 demo_boot = Inl (OsAssert e)"
proof (rule task_create_refused)
  show "task_inv demo_cfg (os_tasks demo_boot)" by (rule os_invD(1) [OF demo_boot_inv(1)])
  have "tcb_prio (task_list (os_tasks demo_boot) ! 1) = 3" by (simp add: demo_boot_def)
  then show "running (os_kern demo_boot) \<noteq> 0 \<or> N_TASKS demo_cfg \<le> unat (nTasks (os_tasks demo_boot)) \<or> (1 :: nat) = 0 \<or>
      (\<exists>i < unat (nTasks (os_tasks demo_boot)). tcb_prio (task_list (os_tasks demo_boot) ! i) = 3)"
    by (simp add: demo_boot_inv(2)) (meson less_2_cases_iff)
qed

text \<open>\<open>n\<close> ticks of a sub clock: a task that waits for that clock for at most \<open>n\<close> more ticks is
  ready, and gives up its events if it was waiting for them with a timeout; one that waits longer has
  \<open>n\<close> ticks less to wait; every task that waits for another clock, or does not wait for time at all, is
  unchanged, but for the waiting time of those that wait for a semaphore. Nothing else changes.\<close>

theorem sub_tick_exact:
  assumes "task_inv cfg (os_tasks s)" and "c \<noteq> 0"
  shows "\<exists>s'. task_tick cfg c n s = Inr s' \<and> s' = s\<lparr>os_tasks := os_tasks s'\<rparr> \<and> task_inv cfg (os_tasks s') \<and>
    (\<forall>i < unat (nTasks (os_tasks s)). let t = task_list (os_tasks s) ! i; t' = task_list (os_tasks s') ! i in
      if tcb_state t = WAITING_TIME \<or> tcb_state t = WAITING_EVENT_TIMEOUT then
        if tcb_clockId t \<noteq> c then t' = t
        else if tcb_time t \<le> n
        then tcb_state t' = READY \<and> tcb_time t' = 0 \<and> (tcb_state t = WAITING_EVENT_TIMEOUT \<longrightarrow> pending t' = {})
        else t' = t\<lparr>tcb_time := tcb_time t - n\<rparr>
      else if tcb_state t = WAITING_SEM then t' = t\<lparr>tcb_time := tcb_time t + 1\<rparr>
      else t' = t)"
proof -
  let ?ts = "os_tasks s"
  note n = task_inv_bounds [OF assms(1)]
  let ?s' = "s\<lparr>os_tasks := ?ts\<lparr>task_list := map (tick_tcb c n) (take (unat (nTasks ?ts)) (task_list ?ts)) @
    drop (unat (nTasks ?ts)) (task_list ?ts)\<rparr>\<rparr>"
  have at: "task_list (os_tasks ?s') ! i = tick_tcb c n (task_list ?ts ! i)" if "i < unat (nTasks ?ts)" for i
    using that n by (simp add: nth_append)
  have inv: "task_inv cfg (os_tasks ?s')"
    using task_inv_map [OF assms(1) tick_tcb_same n(1)] by simp
  have clr: "pending ((cleared t)\<lparr>tcb_time := 0, tcb_state := READY\<rparr>) = {}" for t
    by (simp add: pending_def cleared_def wq_elems_empty)
  show ?thesis
    using sub_tick_pointwise [OF assms, of n] inv at
    by (intro exI [of _ ?s']) (simp add: Let_def tick_tcb_def clr)
qed

theorem sub_tick_exact_witness:
  "\<exists>s'. task_tick demo_cfg 2 5 demo_boot = Inr s' \<and> task_list (os_tasks s') ! 0 = demo_tcb 0 READY 7"
proof -
  have "(2 :: u8) \<noteq> 0" by simp
  from sub_tick_exact [OF os_invD(1) [OF demo_boot_inv(1)] this, of 5] obtain s' where
    "task_tick demo_cfg 2 5 demo_boot = Inr s'" and
    t: "\<forall>i < unat (nTasks (os_tasks demo_boot)). let t = task_list (os_tasks demo_boot) ! i; t' = task_list (os_tasks s') ! i in
      if tcb_state t = WAITING_TIME \<or> tcb_state t = WAITING_EVENT_TIMEOUT then
        if tcb_clockId t \<noteq> 2 then t' = t
        else if tcb_time t \<le> 5
        then tcb_state t' = READY \<and> tcb_time t' = 0 \<and> (tcb_state t = WAITING_EVENT_TIMEOUT \<longrightarrow> pending t' = {})
        else t' = t\<lparr>tcb_time := tcb_time t - 5\<rparr>
      else if tcb_state t = WAITING_SEM then t' = t\<lparr>tcb_time := tcb_time t + 1\<rparr>
      else t' = t" by blast
  moreover have "task_list (os_tasks demo_boot) ! 0 = demo_tcb 0 READY 7" by (simp add: demo_boot_def)
  ultimately show ?thesis using t [rule_format, of 0] by (simp add: demo_boot_inv(2) Let_def)
qed

end
