(* ===== verification/Os_Kernel.thy ===== *)
theory Os_Kernel
  imports Os_Tick
begin

text \<open>
  The kernel \<open>os_kernel.c\<close>: initialisation, one scheduling decision, the scheduling loop with its tick
  limit, the clock ticks, and the id of the running task. A task procedure is a function on the
  kernel; the ones a program has are given by the parameter \<open>procs\<close>, from the address of a procedure
  to its behaviour.
\<close>

section \<open>Operations\<close>

definition set_running_tid :: "u16 \<Rightarrow> os \<Rightarrow> os" where
  "set_running_tid tid s = s\<lparr>os_kern := (os_kern s)\<lparr>running_tid := tid\<rparr>\<rparr>"

definition os_init :: "config \<Rightarrow> os \<Rightarrow> os" where
  "os_init cfg s = s\<lparr>os_kern := \<lparr>running = 0, running_tid = NO_TID\<rparr>,
     os_sems := os_sem_init cfg (os_sems s), os_events := os_event_init cfg (os_events s),
     os_msgqs := os_msgQ_init cfg (os_msgqs s), os_tasks := os_task_init (os_tasks s)\<rparr>"

definition os_running :: "os \<Rightarrow> u8" where
  "os_running s = running (os_kern s)"

definition os_get_running_tid :: "os \<Rightarrow> u16" where
  "os_get_running_tid s = running_tid (os_kern s)"

definition os_free_tid :: "os \<Rightarrow> os" where
  "os_free_tid s = set_running_tid NO_TID s"

definition os_cbkSleep :: proc where
  "os_cbkSleep s = Inr s"

text \<open>\<open>task_run\<close> of \<open>os_task.c\<close>.\<close>

definition task_run :: "(nat \<Rightarrow> proc) \<Rightarrow> os \<Rightarrow> os res" where
  "task_run procs s =
     (let tid = os_get_running_tid s in
      os_assert (tid < ucast (nTasks (os_tasks s))) ''tid < nTasks''
        (bindR (tcb_get (os_tasks s) (unat tid)) (\<lambda>t. procs (tcb_taskproc t) s)))"

definition os_schedule :: "config \<Rightarrow> (nat \<Rightarrow> proc) \<Rightarrow> os \<Rightarrow> os res" where
  "os_schedule cfg procs s =
     (let s = set_running_tid NO_TID s in
      bindR (os_select_task cfg (os_tasks s)) (\<lambda>r. case r of (tid, t) \<Rightarrow>
        let s = set_running_tid (ucast tid) (s\<lparr>os_tasks := t\<rparr>) in
        if os_get_running_tid s \<noteq> NO_TID then task_run procs s else os_cbkSleep s))"

text \<open>
  The loop of \<open>os_start\<close>; \<open>body\<close> is what one round does. With the limit 0 the counter stands still
  and the loop has no end of its own, so that it is given fuel.
\<close>

fun start_loop :: "nat \<Rightarrow> proc \<Rightarrow> u32 \<Rightarrow> u32 \<Rightarrow> os \<Rightarrow> os res" where
  "start_loop 0 body i tick_limit s = Inl OutOfFuel"
| "start_loop (Suc fuel) body i tick_limit s =
     (if i \<le> tick_limit
      then bindR (body s) (start_loop fuel body (if tick_limit \<noteq> 0 then i + 1 else i) tick_limit)
      else Inr s)"

definition os_start :: "nat \<Rightarrow> config \<Rightarrow> (nat \<Rightarrow> proc) \<Rightarrow> u32 \<Rightarrow> os \<Rightarrow> os res" where
  "os_start fuel cfg procs tick_limit s =
     start_loop fuel (os_schedule cfg procs) 0 tick_limit (os_enable_interrupts (s\<lparr>os_kern := (os_kern s)\<lparr>running := 1\<rparr>\<rparr>))"

definition os_start_locking :: "nat \<Rightarrow> config \<Rightarrow> (nat \<Rightarrow> proc) \<Rightarrow> u32 \<Rightarrow> proc \<Rightarrow> proc \<Rightarrow> os \<Rightarrow> os res" where
  "os_start_locking fuel cfg procs tick_limit lock unlock s =
     start_loop fuel (\<lambda>s. bindR (lock s) (\<lambda>s. bindR (os_schedule cfg procs s) unlock)) 0 tick_limit
       (os_enable_interrupts (s\<lparr>os_kern := (os_kern s)\<lparr>running := 1\<rparr>\<rparr>))"

definition os_tick :: "config \<Rightarrow> os \<Rightarrow> os res" where
  "os_tick cfg s = task_tick cfg 0 1 s"

definition os_sub_tick :: "config \<Rightarrow> u8 \<Rightarrow> os \<Rightarrow> os res" where
  "os_sub_tick cfg i s = (if i \<noteq> 0 then task_tick cfg i 1 s else Inr s)"

definition os_sub_nTick :: "config \<Rightarrow> u8 \<Rightarrow> u32 \<Rightarrow> os \<Rightarrow> os res" where
  "os_sub_nTick cfg i nTicks s = (if i \<noteq> 0 then task_tick cfg i nTicks s else Inr s)"

section \<open>The running task\<close>

text \<open>No task is running, or one that exists.\<close>

definition running_ok :: "os \<Rightarrow> bool" where
  "running_ok s \<longleftrightarrow> running_tid (os_kern s) = NO_TID \<or> unat (running_tid (os_kern s)) < unat (nTasks (os_tasks s))"

lemma os_inv_kern [simp]: "os_inv cfg (s\<lparr>os_kern := k\<rparr>) \<longleftrightarrow> os_inv cfg s"
  by (simp add: os_inv_def queues_inv_def)

lemma os_inv_set_running_tid [simp]: "os_inv cfg (set_running_tid tid s) \<longleftrightarrow> os_inv cfg s"
  by (simp add: set_running_tid_def)

text \<open>Both policies choose as their contract says.\<close>

lemma select_ok:
  assumes "task_inv cfg t" and "ROUND_ROBIN cfg \<longrightarrow> 0 < unat (nTasks t)"
  obtains tid t' where "os_select_task cfg t = Inr (tid, t')" "task_inv cfg t'" "task_list t' = task_list t" "nTasks t' = nTasks t"
    "tid = NO_TID \<or> (tid < nTasks t \<and> tcb_state (task_list t ! unat tid) = READY)"
proof (cases "ROUND_ROBIN cfg")
  case True
  then have inv: "rr_inv cfg t" using assms by (simp add: rr_inv_def)
  obtain tid t' where r: "next_ready_task t = Inr (tid, t')" "rr_inv cfg t'" "task_list t' = task_list t" "nTasks t' = nTasks t"
    using rr.select_total [OF inv] by blast
  then show ?thesis
    using that [of tid t'] rr.select_tid [OF inv r(1)] True by (auto simp: os_select_task_def rr_inv_def)
next
  case False
  obtain tid t' where r: "bindR (highest_prio_ready_task t) (\<lambda>tid. Inr (tid, t)) = Inr (tid, t')" "task_inv cfg t'"
    "task_list t' = task_list t" "nTasks t' = nTasks t"
    using hp.select_total [OF assms(1)] by blast
  then show ?thesis
    using that [of tid t'] hp.select_tid [OF assms(1) r(1)] False by (auto simp: os_select_task_def)
qed

lemma ucast_u8_less: "(ucast (x :: u8) :: u16) < ucast (y :: u8) \<longleftrightarrow> x < y"
  by (simp add: word_less_nat_alt)

lemma ucast_u8_255: "(ucast (x :: u8) :: u16) = 255 \<longleftrightarrow> x = 255"
proof
  assume "(ucast x :: u16) = 255"
  then have "unat (ucast x :: u16) = 255" by simp
  then show "x = 255" by (simp add: word_unat_eq_iff)
qed simp

text \<open>One scheduling decision: it runs a ready task, or sleeps when none is ready.\<close>

lemma os_schedule_ok:
  assumes inv: "os_inv cfg s" and n: "ROUND_ROBIN cfg \<longrightarrow> 0 < unat (nTasks (os_tasks s))"
  obtains tid t where "os_select_task cfg (os_tasks s) = Inr (tid, t)"
    "os_inv cfg (set_running_tid (ucast tid) (s\<lparr>os_tasks := t\<rparr>))"
    "task_list t = task_list (os_tasks s)" "nTasks t = nTasks (os_tasks s)"
    "tid = NO_TID \<and> os_schedule cfg procs s = Inr (set_running_tid NO_TID (s\<lparr>os_tasks := t\<rparr>)) \<or>
     tid < nTasks (os_tasks s) \<and> tcb_state (task_list (os_tasks s) ! unat tid) = READY \<and>
     os_schedule cfg procs s =
       procs (tcb_taskproc (task_list (os_tasks s) ! unat tid)) (set_running_tid (ucast tid) (s\<lparr>os_tasks := t\<rparr>))"
proof -
  note ti = os_invD(1) [OF inv]
  obtain tid t where r: "os_select_task cfg (os_tasks s) = Inr (tid, t)" "task_inv cfg t" "task_list t = task_list (os_tasks s)"
    "nTasks t = nTasks (os_tasks s)"
    "tid = NO_TID \<or> (tid < nTasks (os_tasks s) \<and> tcb_state (task_list (os_tasks s) ! unat tid) = READY)"
    by (rule select_ok [OF ti n])
  have "os_inv cfg (s\<lparr>os_tasks := t\<rparr>)"
    using inv r(2-4) by (simp add: os_inv_def queues_inv_def)
  then have inv': "os_inv cfg (set_running_tid (ucast tid) (s\<lparr>os_tasks := t\<rparr>))" by simp
  let ?s = "set_running_tid (ucast tid) (s\<lparr>os_tasks := t\<rparr>)"
  have sch: "os_schedule cfg procs s = (if tid \<noteq> 255 then task_run procs ?s else Inr ?s)"
    using r(1) by (simp add: os_schedule_def os_get_running_tid_def set_running_tid_def Let_def ucast_u8_255 os_cbkSleep_def)
  have run: "task_run procs ?s = procs (tcb_taskproc (task_list (os_tasks s) ! unat tid)) ?s" if "tid < nTasks (os_tasks s)"
    using that r(3,4) task_inv_index [OF ti that]
    by (simp add: task_run_def os_get_running_tid_def set_running_tid_def ucast_u8_less)
  show ?thesis
    using r(5)
  proof
    assume "tid = NO_TID"
    then show ?thesis using that [OF r(1) inv' r(3,4)] sch by simp
  next
    assume a: "tid < nTasks (os_tasks s) \<and> tcb_state (task_list (os_tasks s) ! unat tid) = READY"
    then have "unat tid < 255" using task_inv_bounds(2) [OF ti] by (simp add: word_less_nat_alt)
    then have "tid \<noteq> 255" by auto
    then show ?thesis using that [OF r(1) inv' r(3,4)] sch run a by simp
  qed
qed

section \<open>The scheduling loop\<close>

lemma start_loop_counts:
  assumes "0 < unat limit" and "unat limit < 2 ^ 32 - 1"
  shows "unat i \<le> unat limit + 1 \<Longrightarrow> unat limit + 2 - unat i \<le> fuel \<Longrightarrow>
    start_loop fuel body i limit s = iterR (unat limit + 1 - unat i) body s"
proof (induction fuel arbitrary: i s)
  case 0
  then show ?case by simp
next
  case (Suc fuel)
  show ?case
  proof (cases "i \<le> limit")
    case True
    then have le: "unat i \<le> unat limit" by (simp add: word_le_nat_alt)
    then have u: "unat (i + 1) = unat i + 1" using assms(2) unat_add_lem [of i 1] by simp
    have d: "unat limit + 1 - unat i = Suc (unat limit + 1 - unat (i + 1))" using le u by simp
    have ne: "limit \<noteq> 0" using assms(1) by auto
    have "start_loop fuel body (i + 1) limit = iterR (unat limit + 1 - unat (i + 1)) body"
      by (rule ext, rule Suc.IH) (use u le Suc.prems in simp_all)
    then show ?thesis using True ne unfolding d by simp
  next
    case False
    then have "unat limit < unat i" by (simp add: word_le_nat_alt)
    then have "unat limit + 1 - unat i = 0" by simp
    then show ?thesis using False by simp
  qed
qed

lemma start_loop_rounds:
  assumes "limit \<noteq> 0" and "limit \<noteq> - 1" and "unat limit + 2 \<le> fuel"
  shows "start_loop fuel body 0 limit s = iterR (unat limit + 1) body s"
proof -
  have "0 < unat limit" using assms(1) by (simp add: unat_gt_0)
  moreover have "unat limit < 2 ^ 32" using unsigned_less [of limit, where ?'a = nat] by simp
  moreover have "unat limit \<noteq> unat (- 1 :: u32)" using assms(2) by (simp add: word_unat_eq_iff)
  moreover have "unat (- 1 :: u32) = 2 ^ 32 - 1" by (simp add: unsigned_minus_1_eq_mask mask_eq_exp_minus_1)
  ultimately show ?thesis using start_loop_counts [of limit 0 fuel] assms(3) by simp
qed

lemma start_loop_forever: "start_loop fuel body 0 0 s \<noteq> Inr s'"
proof (induction fuel arbitrary: s)
  case (Suc fuel)
  then show ?case by (auto simp: bindR_eq_Inr)
qed simp

section \<open>Waiting for ticks\<close>

lemma unat_sub_of_nat:
  assumes "k < unat (x :: u32)"
  shows "unat (x - of_nat k) = unat x - k"
proof -
  have "k < 2 ^ 32" using assms unsigned_less [of x, where ?'a = nat] by simp
  then have u: "unat (of_nat k :: u32) = k" by (simp add: unat_of_nat take_bit_nat_eq_self)
  then have "of_nat k \<le> x" using assms by (simp add: word_le_nat_alt)
  then show ?thesis using u by (simp add: unat_sub)
qed

lemma wait_one_tick:
  assumes "tcb_state t = WAITING_TIME" and "tcb_clockId t = 0" and "k < unat (tcb_time t)"
  shows "if Suc k < unat (tcb_time t)
    then tick_tcb 0 1 (t\<lparr>tcb_time := tcb_time t - of_nat k\<rparr>) = t\<lparr>tcb_time := tcb_time t - of_nat (Suc k)\<rparr>
    else tcb_state (tick_tcb 0 1 (t\<lparr>tcb_time := tcb_time t - of_nat k\<rparr>)) = READY"
proof -
  have "(tcb_time t - of_nat k \<le> 1) = (\<not> Suc k < unat (tcb_time t))"
    using unat_sub_of_nat [OF assms(3)] assms(3) by (simp add: word_le_nat_alt) linarith
  then show ?thesis using assms(1,2) by (simp add: tick_tcb_def diff_diff_eq add.commute)
qed

text \<open>A waiting task over one more tick, and over \<open>k\<close> ticks.\<close>

definition waits_on :: "nat \<Rightarrow> tcb \<Rightarrow> tcb \<Rightarrow> bool" where
  "waits_on k t t' \<longleftrightarrow> (if k < unat (tcb_time t) then t' = t\<lparr>tcb_time := tcb_time t - of_nat k\<rparr> else tcb_state t' = READY)"

lemma waits_on_tick:
  assumes "tcb_state t = WAITING_TIME" and "tcb_clockId t = 0" and "waits_on k t t'"
  shows "\<not> event_waiting t'" and "waits_on (Suc k) t (tick_tcb 0 1 t')"
proof -
  show "\<not> event_waiting t'" using assms(1,3) by (auto simp: waits_on_def event_waiting_def split: if_split_asm)
  show "waits_on (Suc k) t (tick_tcb 0 1 t')"
  proof (cases "k < unat (tcb_time t)")
    case True
    then show ?thesis using wait_one_tick [OF assms(1,2) True] assms(3) by (simp add: waits_on_def split: if_split_asm)
  next
    case False
    then show ?thesis using assms(3) by (simp add: waits_on_def tick_tcb_idle)
  qed
qed

lemma ticks_waiting:
  assumes "os_inv cfg s" and "i < unat (nTasks (os_tasks s))" and "tcb_state (task_list (os_tasks s) ! i) = WAITING_TIME"
    and "tcb_clockId (task_list (os_tasks s) ! i) = 0" and "0 < tcb_time (task_list (os_tasks s) ! i)"
  shows "\<exists>s'. iterR k (os_tick cfg) s = Inr s' \<and> os_inv cfg s' \<and> nTasks (os_tasks s') = nTasks (os_tasks s) \<and>
    waits_on k (task_list (os_tasks s) ! i) (task_list (os_tasks s') ! i)"
proof (induction k)
  case 0
  then show ?case using assms(1,5) by (simp add: waits_on_def word_less_nat_alt)
next
  case (Suc k)
  then obtain s1 where s1: "iterR k (os_tick cfg) s = Inr s1" "os_inv cfg s1" "nTasks (os_tasks s1) = nTasks (os_tasks s)"
    "waits_on k (task_list (os_tasks s) ! i) (task_list (os_tasks s1) ! i)" by blast
  obtain s2 where s2: "task_tick cfg 0 1 s1 = Inr s2" "os_inv cfg s2" "task_kept cfg (os_tasks s1) (os_tasks s2)"
    "\<forall>i < unat (nTasks (os_tasks s1)). deaf (change_events s1) (task_list (os_tasks s1) ! i) \<longrightarrow>
       task_list (os_tasks s2) ! i = tick_tcb 0 1 (task_list (os_tasks s1) ! i)"
    using task_tick_ok [OF s1(2)] by blast
  note w = waits_on_tick [OF assms(3,4) s1(4)]
  have "task_list (os_tasks s2) ! i = tick_tcb 0 1 (task_list (os_tasks s1) ! i)"
    using s2(4) s1(3) assms(2) deaf_not_waiting [OF w(1)] by simp
  moreover have "iterR (Suc k) (os_tick cfg) s = Inr s2" unfolding iterR_snoc s1(1) by (simp add: os_tick_def s2(1))
  ultimately show ?case using w(2) s2(2) s1(3) task_keptD(2) [OF s2(3)] by simp
qed

text \<open>What initialisation leaves.\<close>

lemma os_init_ok:
  assumes "config_ok cfg" and "length (task_list (os_tasks s)) = N_TASKS cfg"
    and "\<forall>t \<in> set (task_list (os_tasks s)). length (tcb_eventQueue t) = EVENT_QUEUE_SIZE cfg"
    and "length (semList (os_sems s)) = N_TOTAL_SEMAPHORES cfg" and "N_TOTAL_SEMAPHORES cfg = 0 \<longrightarrow> nSemaphores (os_sems s) = 0"
    and "length (eventList (os_events s)) = N_TOTAL_EVENTS cfg" and "N_TOTAL_EVENTS cfg = 0 \<longrightarrow> nEvents (os_events s) = 0"
    and "length (msgQList (os_msgqs s)) = N_QUEUES cfg"
  shows "os_inv cfg (os_init cfg s) \<and> nTasks (os_tasks (os_init cfg s)) = 0 \<and> os_running (os_init cfg s) = 0 \<and>
    os_get_running_tid (os_init cfg s) = NO_TID"
proof -
  have "task_inv cfg (os_task_init (os_tasks s))"
    using assms(1-3) by (intro task_inv_init) (simp_all add: config_ok_def)
  moreover have "sem_inv cfg (os_sem_init cfg (os_sems s))" by (rule sem_inv_init [OF assms(4,5)])
  moreover have "event_inv cfg (os_event_init cfg (os_events s))" by (rule event_inv_init [OF assms(6,7)])
  moreover have "queues_inv cfg (os_init cfg s)" if "0 < N_QUEUES cfg"
    using that assms(8) by (simp add: queues_inv_def msgq_inv_def os_init_def os_msgQ_init_def os_task_init_def)
  ultimately show ?thesis
    by (simp add: os_inv_def os_init_def os_running_def os_get_running_tid_def os_task_init_def)
qed

section \<open>Properties\<close>

text \<open>One scheduling decision in a well-formed kernel (with round robin, one that has tasks): the
  procedure that runs is the one of a ready task, with that task recorded as the running one; when no
  procedure runs, the kernel only sleeps. With round robin a ready task is always run if there is one.\<close>

theorem schedule_runs_ready:
  assumes "os_inv cfg s" and "ROUND_ROBIN cfg \<longrightarrow> 0 < unat (nTasks (os_tasks s))"
  shows "\<exists>tid t. os_select_task cfg (os_tasks s) = Inr (tid, t) \<and> task_list t = task_list (os_tasks s) \<and>
    (let s1 = set_running_tid (ucast tid) (s\<lparr>os_tasks := t\<rparr>) in os_inv cfg s1 \<and>
      (if tid = NO_TID
       then os_schedule cfg procs s = Inr s1 \<and>
         (ROUND_ROBIN cfg \<longrightarrow> (\<forall>i < unat (nTasks (os_tasks s)). tcb_state (task_list (os_tasks s) ! i) \<noteq> READY))
       else tid < nTasks (os_tasks s) \<and> tcb_state (task_list (os_tasks s) ! unat tid) = READY \<and>
         os_schedule cfg procs s = procs (tcb_taskproc (task_list (os_tasks s) ! unat tid)) s1))"
proof -
  obtain tid t where r: "os_select_task cfg (os_tasks s) = Inr (tid, t)"
    "os_inv cfg (set_running_tid (ucast tid) (s\<lparr>os_tasks := t\<rparr>))"
    "task_list t = task_list (os_tasks s)" "nTasks t = nTasks (os_tasks s)"
    "tid = NO_TID \<and> os_schedule cfg procs s = Inr (set_running_tid NO_TID (s\<lparr>os_tasks := t\<rparr>)) \<or>
     tid < nTasks (os_tasks s) \<and> tcb_state (task_list (os_tasks s) ! unat tid) = READY \<and>
     os_schedule cfg procs s =
       procs (tcb_taskproc (task_list (os_tasks s) ! unat tid)) (set_running_tid (ucast tid) (s\<lparr>os_tasks := t\<rparr>))"
    by (rule os_schedule_ok [OF assms])
  have b: "unat (nTasks (os_tasks s)) < 255" by (rule task_inv_bounds(2) [OF os_invD(1) [OF assms(1)]])
  have none: "tcb_state (task_list (os_tasks s) ! i) \<noteq> READY"
    if "tid = NO_TID" "ROUND_ROBIN cfg" "i < unat (nTasks (os_tasks s))" for i
  proof
    assume "tcb_state (task_list (os_tasks s) ! i) = READY"
    then have el: "rr_eligible (os_tasks s) i" using that(3) by (simp add: rr_eligible_def)
    have "rr_inv cfg (os_tasks s)" using assms that(2) by (simp add: rr_inv_def os_inv_def)
    from rr.select_tid [OF this, of tid t] r(1) that(1,2) el b show False
      by (auto simp: os_select_task_def word_less_nat_alt)
  qed
  show ?thesis
  proof (cases "tid = NO_TID")
    case True
    then have "\<not> tid < nTasks (os_tasks s)" using b by (auto simp: word_less_nat_alt)
    then show ?thesis using r True none by (intro exI [of _ tid] exI [of _ t]) (simp add: Let_def)
  next
    case False
    then show ?thesis using r by (intro exI [of _ tid] exI [of _ t]) (simp add: Let_def)
  qed
qed

theorem schedule_runs_ready_witness:
  "\<exists>tid. os_select_task demo_cfg (os_tasks demo_boot) = Inr (tid, os_tasks demo_boot)"
proof -
  have "ROUND_ROBIN demo_cfg \<longrightarrow> 0 < unat (nTasks (os_tasks demo_boot))" by simp
  from schedule_runs_ready [OF demo_boot_inv(1) this, of "\<lambda>_ s. Inr s"] obtain tid t where
    t: "os_select_task demo_cfg (os_tasks demo_boot) = Inr (tid, t)" by blast
  then show ?thesis by (auto simp: os_select_task_def bindR_eq_Inr)
qed

text \<open>C28: with a tick limit \<open>n\<close> other than 0 and the largest 32-bit value, \<open>os_start\<close> makes exactly
  \<open>n + 1\<close> scheduling decisions (not \<open>n\<close>) and returns; with the limit 0 it never returns.\<close>

theorem os_start_rounds:
  assumes "limit \<noteq> 0" and "limit \<noteq> - 1" and "unat limit + 2 \<le> fuel"
  shows "os_start fuel cfg procs limit s =
      iterR (unat limit + 1) (os_schedule cfg procs) (s\<lparr>os_kern := (os_kern s)\<lparr>running := 1\<rparr>\<rparr>) \<and>
    (\<forall>fuel s s'. os_start fuel cfg procs 0 s \<noteq> Inr s')"
proof
  show "os_start fuel cfg procs limit s =
      iterR (unat limit + 1) (os_schedule cfg procs) (s\<lparr>os_kern := (os_kern s)\<lparr>running := 1\<rparr>\<rparr>)"
    unfolding os_start_def os_enable_interrupts_def by (rule start_loop_rounds [OF assms])
  show "\<forall>fuel s s'. os_start fuel cfg procs 0 s \<noteq> Inr s'"
    by (simp add: os_start_def start_loop_forever)
qed

theorem os_start_rounds_witness:
  "os_start 5 demo_cfg (\<lambda>_ s. Inr s) 3 demo_boot =
     iterR 4 (os_schedule demo_cfg (\<lambda>_ s. Inr s)) (demo_boot\<lparr>os_kern := (os_kern demo_boot)\<lparr>running := 1\<rparr>\<rparr>)"
  using os_start_rounds [of 3 5 demo_cfg "\<lambda>_ s. Inr s" demo_boot] by simp

text \<open>After \<open>os_init\<close> on storage of the declared sizes the kernel is well formed, has no task, no
  running task and no object, and tasks can be created.\<close>

theorem os_init_inv:
  assumes "config_ok cfg" and "length (task_list (os_tasks s)) = N_TASKS cfg"
    and "\<forall>t \<in> set (task_list (os_tasks s)). length (tcb_eventQueue t) = EVENT_QUEUE_SIZE cfg"
    and "length (semList (os_sems s)) = N_TOTAL_SEMAPHORES cfg" and "N_TOTAL_SEMAPHORES cfg = 0 \<longrightarrow> nSemaphores (os_sems s) = 0"
    and "length (eventList (os_events s)) = N_TOTAL_EVENTS cfg" and "N_TOTAL_EVENTS cfg = 0 \<longrightarrow> nEvents (os_events s) = 0"
    and "length (msgQList (os_msgqs s)) = N_QUEUES cfg"
  shows "os_inv cfg (os_init cfg s) \<and> nTasks (os_tasks (os_init cfg s)) = 0 \<and> os_running (os_init cfg s) = 0 \<and>
    os_get_running_tid (os_init cfg s) = NO_TID"
  by (rule os_init_ok [OF assms])

theorem os_init_inv_witness:
  "os_inv demo_cfg (os_init demo_cfg demo_boot)"
proof -
  have "os_inv demo_cfg (os_init demo_cfg demo_boot) \<and> nTasks (os_tasks (os_init demo_cfg demo_boot)) = 0 \<and>
    os_running (os_init demo_cfg demo_boot) = 0 \<and> os_get_running_tid (os_init demo_cfg demo_boot) = NO_TID"
    by (rule os_init_inv)
      (simp_all add: config_ok_def demo_boot_def demo_msg_os_def demo_os_def demo_msgqs_def)
  then show ?thesis by blast
qed

text \<open>A task that waits for \<open>T\<close> ticks of the master clock, whatever the other tasks and the message
  queues do at the ticks, waits \<open>T - k\<close> more ticks after \<open>k < T\<close> ticks and is ready after \<open>T\<close>; no tick
  faults in a well-formed kernel.\<close>

theorem wait_ticks_exact:
  assumes "os_inv cfg s" and "i < unat (nTasks (os_tasks s))" and "tcb_state (task_list (os_tasks s) ! i) = WAITING_TIME"
    and "tcb_clockId (task_list (os_tasks s) ! i) = 0" and "0 < tcb_time (task_list (os_tasks s) ! i)"
  shows "\<exists>s'. iterR k (os_tick cfg) s = Inr s' \<and> os_inv cfg s' \<and>
    (if k < unat (tcb_time (task_list (os_tasks s) ! i))
     then tcb_state (task_list (os_tasks s') ! i) = WAITING_TIME \<and>
       unat (tcb_time (task_list (os_tasks s') ! i)) = unat (tcb_time (task_list (os_tasks s) ! i)) - k
     else tcb_state (task_list (os_tasks s') ! i) = READY)"
proof -
  let ?t = "task_list (os_tasks s) ! i"
  obtain s' where s': "iterR k (os_tick cfg) s = Inr s'" "os_inv cfg s'" "waits_on k ?t (task_list (os_tasks s') ! i)"
    using ticks_waiting [OF assms] by blast
  then show ?thesis
    using assms(3) unat_sub_of_nat [of k "tcb_time ?t"] by (intro exI [of _ s']) (simp add: waits_on_def split: if_split_asm)
qed

theorem wait_ticks_exact_witness:
  "\<exists>s'. iterR 3 (os_tick demo_cfg) (demo_boot\<lparr>os_tasks := demo_tasks [(demo_tcb 0 WAITING_TIME 7)\<lparr>tcb_time := 3, tcb_clockId := 0\<rparr>,
      demo_tcb 1 READY 3, demo_tcb 2 KILLED 1]\<rparr>) = Inr s' \<and> tcb_state (task_list (os_tasks s') ! 0) = READY"
proof -
  let ?t = "demo_tasks [(demo_tcb 0 WAITING_TIME 7)\<lparr>tcb_time := 3, tcb_clockId := 0\<rparr>, demo_tcb 1 READY 3, demo_tcb 2 KILLED 1]"
  let ?s = "demo_boot\<lparr>os_tasks := ?t\<rparr>"
  have three: "i < 3 \<longleftrightarrow> i = 0 \<or> i = 1 \<or> i = 2" for i :: nat by auto
  have ti: "task_inv demo_cfg ?t" by (simp add: task_inv_def three)
  have "queues_inv demo_cfg ?s"
    using os_invD(4) [OF demo_boot_inv(1)] by (simp add: queues_inv_def three)
  then have inv: "os_inv demo_cfg ?s"
    using demo_boot_inv(1) ti by (simp add: os_inv_def)
  have "\<exists>s'. iterR 3 (os_tick demo_cfg) ?s = Inr s' \<and> os_inv demo_cfg s' \<and>
    (if 3 < unat (tcb_time (task_list (os_tasks ?s) ! 0))
     then tcb_state (task_list (os_tasks s') ! 0) = WAITING_TIME \<and>
       unat (tcb_time (task_list (os_tasks s') ! 0)) = unat (tcb_time (task_list (os_tasks ?s) ! 0)) - 3
     else tcb_state (task_list (os_tasks s') ! 0) = READY)"
    by (rule wait_ticks_exact [OF inv]) simp_all
  then show ?thesis by (auto simp del: iterR.simps)
qed

end
