(* ===== verification/Os_Reentry.thy ===== *)
theory Os_Reentry
  imports Os_Kernel
begin

text \<open>
  The macros a task procedure is written with: the switch on the resume point of \<open>os_reentry.h\<close> and the
  calls that may give up the processor, of \<open>os_task.h\<close>, \<open>os_event.h\<close>, \<open>os_sem.h\<close> and
  \<open>os_msgqueue.h\<close>. A macro that contains \<open>OS_YIELD\<close> says whether it has returned from the task procedure;
  the line it stands on is an argument.
\<close>

section \<open>The macros\<close>

datatype ctl = Goes_on | Returns

text \<open>The task id the macros pass: \<open>os_get_running_tid()\<close>, converted to \<open>uint8_t\<close>.\<close>

definition self_tid :: "os \<Rightarrow> u8" where
  "self_tid s = ucast (os_get_running_tid s)"

text \<open>The switch: \<open>cases\<close> gives the statements from the label on; without a label nothing happens.\<close>

definition OS_BEGIN :: "(u16 \<Rightarrow> proc option) \<Rightarrow> proc" where
  "OS_BEGIN cases s = bindR (task_internal_state_get (self_tid s) (os_tasks s)) (\<lambda>st.
     case cases st of Some body \<Rightarrow> body s | None \<Rightarrow> Inr s)"

definition OS_END :: "os \<Rightarrow> (ctl \<times> os) res" where
  "OS_END s = bindR (on_tasks (os_task_kill (self_tid s)) s) (\<lambda>s. Inr (Returns, os_free_tid s))"

definition OS_YIELD :: "nat \<Rightarrow> os \<Rightarrow> (ctl \<times> os) res" where
  "OS_YIELD line s = bindR (on_tasks (os_task_internal_state_set (self_tid s) (of_nat line)) s) (\<lambda>s.
     Inr (Returns, os_free_tid s))"

definition OS_WAIT_TICKS :: "nat \<Rightarrow> u32 \<Rightarrow> u8 \<Rightarrow> os \<Rightarrow> (ctl \<times> os) res" where
  "OS_WAIT_TICKS line ticks i s =
     bindR (on_tasks (os_task_wait_time_set (self_tid s) i ticks) s) (OS_YIELD line)"

definition OS_SUSPEND_TASK :: "nat \<Rightarrow> u8 \<Rightarrow> os \<Rightarrow> (ctl \<times> os) res" where
  "OS_SUSPEND_TASK line i s = bindR (on_tasks (os_task_suspend i) s) (\<lambda>s.
     if ucast i = os_get_running_tid s then OS_YIELD line s else Inr (Goes_on, s))"

definition OS_RESUME_TASK :: "nat \<Rightarrow> u8 \<Rightarrow> os \<Rightarrow> (ctl \<times> os) res" where
  "OS_RESUME_TASK line i s = bindR (on_tasks (os_task_resume i) s) (\<lambda>s.
     if ucast i = os_get_running_tid s then OS_YIELD line s else Inr (Goes_on, s))"

definition OS_WAIT_SINGLE_EVENT :: "config \<Rightarrow> nat \<Rightarrow> u8 \<Rightarrow> u32 \<Rightarrow> proc option \<Rightarrow> os \<Rightarrow> (ctl \<times> os) res" where
  "OS_WAIT_SINGLE_EVENT cfg line x timeout cb s =
     bindR (os_wait_event cfg (self_tid s) x True timeout cb s) (OS_YIELD line)"

definition OS_WAIT_MULTIPLE_EVENTS :: "config \<Rightarrow> nat \<Rightarrow> bool \<Rightarrow> int list \<Rightarrow> os \<Rightarrow> (ctl \<times> os) res" where
  "OS_WAIT_MULTIPLE_EVENTS cfg line waitAll args s =
     bindR (os_wait_multiple cfg waitAll (args @ [255]) s) (OS_YIELD line)"

definition OS_SIGNAL_EVENT :: "config \<Rightarrow> nat \<Rightarrow> u8 \<Rightarrow> os \<Rightarrow> (ctl \<times> os) res" where
  "OS_SIGNAL_EVENT cfg line event s =
     bindR (os_signal_event cfg event s) (\<lambda>s.
     bindR (on_events (os_event_set_signaling_tid cfg event (self_tid s)) s) (OS_YIELD line))"

definition OS_GET_TASK_TIMEOUT_VALUE :: "os \<Rightarrow> u32 res" where
  "OS_GET_TASK_TIMEOUT_VALUE s = os_task_timeout_get (self_tid s) (os_tasks s)"

text \<open>\<open>OS_WAIT_SEM\<close> names \<open>os_task_wait_sem_set\<close>; the function that exists is \<open>task_wait_sem_set\<close>.\<close>

definition OS_WAIT_SEM :: "config \<Rightarrow> nat \<Rightarrow> u16 \<Rightarrow> os \<Rightarrow> (ctl \<times> os) res" where
  "OS_WAIT_SEM cfg line sem s =
     bindR (os_sem_larger_than_zero cfg sem (os_sems s)) (\<lambda>positive.
       if positive then bindR (on_sems (os_sem_decrement cfg sem) s) (\<lambda>s. Inr (Goes_on, s))
       else bindR (on_tasks (task_wait_sem_set (self_tid s) sem) s) (OS_YIELD line))"

definition OS_SIGNAL_SEM :: "config \<Rightarrow> nat \<Rightarrow> u16 \<Rightarrow> os \<Rightarrow> (ctl \<times> os) res" where
  "OS_SIGNAL_SEM cfg line sem s =
     bindR (os_task_waiting_this_semaphore sem (os_tasks s)) (\<lambda>waiting.
       if waiting = 0 then bindR (on_sems (os_sem_increment cfg sem) s) (\<lambda>s. Inr (Goes_on, s))
       else bindR (on_tasks (os_task_release_waiting_task cfg sem) s) (OS_YIELD line))"

definition OS_SIGNAL_SEM_NO_SCHEDULE :: "config \<Rightarrow> u16 \<Rightarrow> os \<Rightarrow> os res" where
  "OS_SIGNAL_SEM_NO_SCHEDULE cfg sem s =
     bindR (os_task_waiting_this_semaphore sem (os_tasks s)) (\<lambda>waiting.
       if waiting = 0 then on_sems (os_sem_increment cfg sem) s
       else on_tasks (os_task_release_waiting_task cfg sem) s)"

text \<open>
  Posting. A blocking post returns from the task procedure inside its loop and goes on there when the
  task runs again, so that the macro has two parts: up to the wait, and from the label behind it. The
  local variables are lost in between; the macro reads the two it needs back from the task.
\<close>

definition signal_change :: "config \<Rightarrow> u8 \<Rightarrow> os \<Rightarrow> os res" where
  "signal_change cfg event s = bindR (os_signal_event cfg event s) (\<lambda>s.
     on_events (os_event_set_signaling_tid cfg event (self_tid s)) s)"

text \<open>The rest of a round, with the result of the attempt and the queues as it left them.\<close>

definition after_post :: "config \<Rightarrow> nat \<Rightarrow> bool \<Rightarrow> u8 \<Rightarrow> u8 \<Rightarrow> bytes \<Rightarrow> os \<Rightarrow> (ctl \<times> bytes \<times> os) res" where
  "after_post cfg line async event os_posted msg s =
     (if os_posted = MSG_QUEUE_FULL then
        if async then Inr (Goes_on, msg, s)
        else bindR (on_tasks (os_task_set_msg_result (self_tid s) os_posted) s) (\<lambda>s.
             bindR (OS_WAIT_SINGLE_EVENT cfg line event 0 None s) (\<lambda>r. case r of (c, s) \<Rightarrow> Inr (c, msg, s)))
      else if os_posted = MSG_QUEUE_POSTED then bindR (signal_change cfg event s) (\<lambda>s. Inr (Goes_on, msg, s))
      else Inr (Goes_on, msg, s))"

definition post_round :: "config \<Rightarrow> nat \<Rightarrow> u8 \<Rightarrow> bytes \<Rightarrow> u32 \<Rightarrow> u32 \<Rightarrow> bool \<Rightarrow> u8 \<Rightarrow> os \<Rightarrow> (ctl \<times> bytes \<times> os) res" where
  "post_round cfg line task_id msg delay period async event s =
     bindR (os_msgQ_find cfg task_id (os_msgqs s)) (\<lambda>queue.
     bindR (os_msg_post cfg msg queue delay period (os_msgqs s)) (\<lambda>r. case r of (os_posted, msg, m) \<Rightarrow>
       after_post cfg line async event os_posted msg (s\<lparr>os_msgqs := m\<rparr>)))"

definition queue_prologue :: "config \<Rightarrow> u8 \<Rightarrow> os \<Rightarrow> (u8 \<times> os) res" where
  "queue_prologue cfg task_id s =
     bindR (os_msgQ_find cfg task_id (os_msgqs s)) (\<lambda>queue.
     bindR (on_tasks (os_task_set_wait_queue (self_tid s) queue) s) (\<lambda>s.
     bindR (os_msgQ_event_get cfg queue (os_msgqs s)) (\<lambda>event.
     bindR (on_tasks (os_task_set_change_event (self_tid s) event) s) (\<lambda>s. Inr (event, s)))))"

definition OS_MSG_Q_POST :: "config \<Rightarrow> nat \<Rightarrow> u8 \<Rightarrow> bytes \<Rightarrow> u32 \<Rightarrow> u32 \<Rightarrow> bool \<Rightarrow> os \<Rightarrow> (ctl \<times> bytes \<times> os) res" where
  "OS_MSG_Q_POST cfg line task_id msg delay period async s =
     bindR (queue_prologue cfg task_id s) (\<lambda>r. case r of (event, s) \<Rightarrow>
       post_round cfg line task_id msg delay period async event s)"

definition OS_MSG_Q_POST_resume :: "config \<Rightarrow> nat \<Rightarrow> u8 \<Rightarrow> bytes \<Rightarrow> u32 \<Rightarrow> u32 \<Rightarrow> bool \<Rightarrow> os \<Rightarrow> (ctl \<times> bytes \<times> os) res" where
  "OS_MSG_Q_POST_resume cfg line task_id msg delay period async s =
     bindR (os_task_get_msg_result (self_tid s) (os_tasks s)) (\<lambda>os_posted.
     bindR (os_task_get_change_event (self_tid s) (os_tasks s)) (\<lambda>event.
       if os_posted = MSG_QUEUE_FULL then post_round cfg line task_id msg delay period async event s
       else if os_posted = MSG_QUEUE_POSTED then bindR (signal_change cfg event s) (\<lambda>s. Inr (Goes_on, msg, s))
       else Inr (Goes_on, msg, s)))"

definition after_receive :: "config \<Rightarrow> nat \<Rightarrow> bool \<Rightarrow> proc option \<Rightarrow> u8 \<Rightarrow> u8 \<Rightarrow> bytes \<Rightarrow> os \<Rightarrow> (ctl \<times> bytes \<times> os) res" where
  "after_receive cfg line async cb event os_received msg s =
     (if os_received = MSG_QUEUE_EMPTY then
        if async then bindR (aput msg signal_at NO_MSG_ID) (\<lambda>msg. Inr (Goes_on, msg, s))
        else bindR (on_tasks (os_task_set_msg_result (self_tid s) os_received) s) (\<lambda>s.
             bindR (case cb of Some f \<Rightarrow> f s | None \<Rightarrow> Inr s) (\<lambda>s.
             bindR (OS_WAIT_SINGLE_EVENT cfg line event 0 None s) (\<lambda>r. case r of (c, s) \<Rightarrow> Inr (c, msg, s))))
      else if os_received = MSG_QUEUE_RECEIVED then bindR (signal_change cfg event s) (\<lambda>s. Inr (Goes_on, msg, s))
      else Inr (Goes_on, msg, s))"

definition receive_round :: "config \<Rightarrow> nat \<Rightarrow> u8 \<Rightarrow> bytes \<Rightarrow> bool \<Rightarrow> proc option \<Rightarrow> u8 \<Rightarrow> os \<Rightarrow> (ctl \<times> bytes \<times> os) res" where
  "receive_round cfg line task_id msg async cb event s =
     bindR (os_msgQ_find cfg task_id (os_msgqs s)) (\<lambda>queue.
     bindR (os_msg_receive cfg msg queue (os_msgqs s)) (\<lambda>r. case r of (os_received, msg, m) \<Rightarrow>
       after_receive cfg line async cb event os_received msg (s\<lparr>os_msgqs := m\<rparr>)))"

definition OS_MSG_Q_RECEIVE :: "config \<Rightarrow> nat \<Rightarrow> u8 \<Rightarrow> bytes \<Rightarrow> bool \<Rightarrow> proc option \<Rightarrow> os \<Rightarrow> (ctl \<times> bytes \<times> os) res" where
  "OS_MSG_Q_RECEIVE cfg line task_id msg async cb s =
     bindR (queue_prologue cfg task_id s) (\<lambda>r. case r of (event, s) \<Rightarrow>
       receive_round cfg line task_id msg async cb event s)"

definition OS_MSG_Q_RECEIVE_resume :: "config \<Rightarrow> nat \<Rightarrow> u8 \<Rightarrow> bytes \<Rightarrow> bool \<Rightarrow> proc option \<Rightarrow> os \<Rightarrow> (ctl \<times> bytes \<times> os) res" where
  "OS_MSG_Q_RECEIVE_resume cfg line task_id msg async cb s =
     bindR (os_task_get_msg_result (self_tid s) (os_tasks s)) (\<lambda>os_received.
     bindR (os_task_get_change_event (self_tid s) (os_tasks s)) (\<lambda>event.
       if os_received = MSG_QUEUE_EMPTY then receive_round cfg line task_id msg async cb event s
       else if os_received = MSG_QUEUE_RECEIVED then bindR (signal_change cfg event s) (\<lambda>s. Inr (Goes_on, msg, s))
       else Inr (Goes_on, msg, s)))"

section \<open>Preservation of the invariant\<close>

text \<open>
  What every call of a task keeps: the invariant, the number of tasks, the task scheduled last, the queues of the tasks and the ids of the
  queues, and the running task, unless it gives up the processor.
\<close>

definition os_kept :: "config \<Rightarrow> os \<Rightarrow> os \<Rightarrow> bool" where
  "os_kept cfg s s' \<longleftrightarrow> os_inv cfg s' \<and> nTasks (os_tasks s') = nTasks (os_tasks s) \<and>
     last_running_task (os_tasks s') = last_running_task (os_tasks s) \<and>
     map tcb_msgQ (task_list (os_tasks s')) = map tcb_msgQ (task_list (os_tasks s)) \<and>
     queue_ids (os_msgqs s') = queue_ids (os_msgqs s) \<and> running (os_kern s') = running (os_kern s) \<and>
     (running_tid (os_kern s') = running_tid (os_kern s) \<or> running_tid (os_kern s') = NO_TID)"

text \<open>\<open>pr\<close> finds the new state in the result.\<close>

definition okeeps :: "config \<Rightarrow> ('a \<Rightarrow> os) \<Rightarrow> (os \<Rightarrow> 'a res) \<Rightarrow> bool" where
  "okeeps cfg pr f \<longleftrightarrow> (\<forall>s r. os_inv cfg s \<longrightarrow> f s = Inr r \<longrightarrow> os_kept cfg s (pr r))"

lemma okeepsI: "(\<And>s r. os_inv cfg s \<Longrightarrow> f s = Inr r \<Longrightarrow> os_kept cfg s (pr r)) \<Longrightarrow> okeeps cfg pr f"
  unfolding okeeps_def by blast

lemma okeepsD: "okeeps cfg pr f \<Longrightarrow> os_inv cfg s \<Longrightarrow> f s = Inr r \<Longrightarrow> os_kept cfg s (pr r)"
  unfolding okeeps_def by blast

lemma os_kept_refl: "os_inv cfg s \<Longrightarrow> os_kept cfg s s"
  by (simp add: os_kept_def)

lemma os_kept_trans: "os_kept cfg s s1 \<Longrightarrow> os_kept cfg s1 s2 \<Longrightarrow> os_kept cfg s s2"
  by (auto simp: os_kept_def)

lemma os_keptD: "os_kept cfg s s' \<Longrightarrow> os_inv cfg s'"
  by (simp add: os_kept_def)

lemma okeeps_bind:
  assumes "okeeps cfg pr f" and "\<And>r s. os_inv cfg s \<Longrightarrow> f s = Inr r \<Longrightarrow> os_inv cfg (pr r) \<Longrightarrow> \<forall>r'. g r = Inr r' \<longrightarrow> os_kept cfg (pr r) (pr' r')"
  shows "okeeps cfg pr' (\<lambda>s. bindR (f s) g)"
proof (rule okeepsI)
  fix s r' assume inv: "os_inv cfg s" and r: "bindR (f s) g = Inr r'"
  then obtain r where r1: "f s = Inr r" "g r = Inr r'" by (auto simp: bindR_eq_Inr)
  have k: "os_kept cfg s (pr r)" by (rule okeepsD [OF assms(1) inv r1(1)])
  show "os_kept cfg s (pr' r')"
    using os_kept_trans [OF k] assms(2) [OF inv r1(1) os_keptD [OF k]] r1(2) by blast
qed

lemma okeeps_seq: "okeeps cfg (\<lambda>s. s) f \<Longrightarrow> okeeps cfg pr g \<Longrightarrow> okeeps cfg pr (\<lambda>s. bindR (f s) g)"
  by (erule okeeps_bind) (auto dest: okeepsD)

lemma okeeps_get: "(\<And>x s0. g s0 = Inr x \<Longrightarrow> okeeps cfg pr (f x)) \<Longrightarrow> okeeps cfg pr (\<lambda>s. bindR (g s) (\<lambda>x. f x s))"
  by (rule okeepsI) (auto simp: bindR_eq_Inr dest: okeepsD)

lemma okeeps_if: "okeeps cfg pr f \<Longrightarrow> okeeps cfg pr g \<Longrightarrow> okeeps cfg pr (\<lambda>s. if b s then f s else g s)"
  by (rule okeepsI) (auto dest: okeepsD split: if_split_asm)

lemma okeeps_if_const: "(b \<Longrightarrow> okeeps cfg pr f) \<Longrightarrow> (\<not> b \<Longrightarrow> okeeps cfg pr g) \<Longrightarrow> okeeps cfg pr (\<lambda>s. if b then f s else g s)"
  by (cases b) simp_all

lemma okeeps_Inr: "(\<And>s. os_inv cfg s \<Longrightarrow> os_kept cfg s (pr (h s))) \<Longrightarrow> okeeps cfg pr (\<lambda>s. Inr (h s))"
  by (rule okeepsI) auto

lemma okeeps_assert: "okeeps cfg pr f \<Longrightarrow> okeeps cfg pr (\<lambda>s. os_assert (b s) e (f s))"
  by (rule okeepsI) (auto simp: os_assert_eq_Inr dest: okeepsD)

lemma os_kept_tasks: "os_inv cfg s \<Longrightarrow> task_kept cfg (os_tasks s) t \<Longrightarrow> os_kept cfg s (s\<lparr>os_tasks := t\<rparr>)"
  by (simp add: os_kept_def os_inv_tasks task_keptD)

text \<open>An operation on the tasks, whose arguments may depend on the state.\<close>

lemma okeeps_on_tasks:
  assumes "\<And>s. keeps cfg (f s)"
  shows "okeeps cfg (\<lambda>s. s) (\<lambda>s. on_tasks (f s) s)"
proof (rule okeepsI)
  fix s r assume inv: "os_inv cfg s" and r: "on_tasks (f s) s = Inr r"
  then obtain t where t: "f s (os_tasks s) = Inr t" "r = s\<lparr>os_tasks := t\<rparr>" by (auto simp: on_tasks_eq_Inr)
  show "os_kept cfg s r"
    unfolding t(2) by (rule os_kept_tasks [OF inv keepsD [OF assms os_invD(1) [OF inv] t(1)]])
qed

end
