(* ===== verification/Os_Calls.thy ===== *)
theory Os_Calls
  imports Os_Reentry
begin

text \<open>
  The calls a task makes: every macro keeps the invariant of the kernel, with any arguments, as long as
  it does not fault; and what the macros promise to the tasks.
\<close>

section \<open>The calls keep the invariant\<close>

lemma os_inv_events:
  assumes "os_inv cfg s" and "event_inv cfg e" and "nEvents e = nEvents (os_events s)"
  shows "os_kept cfg s (s\<lparr>os_events := e\<rparr>)"
  using assms by (auto simp: os_kept_def os_inv_def queues_inv_def)

lemma set_signaling_tid_nEvents:
  "os_event_set_signaling_tid cfg e tid s = Inr s' \<Longrightarrow> nEvents s' = nEvents s"
  by (auto simp: os_event_set_signaling_tid_def res_simps split: if_split_asm)

lemma okeeps_set_signaling_tid:
  "okeeps cfg (\<lambda>s. s) (\<lambda>s. on_events (os_event_set_signaling_tid cfg (e s) (tid s)) s)"
  by (rule okeepsI)
    (auto simp: on_events_eq_Inr intro!: os_inv_events dest: os_invD(3) event_inv_set_tid set_signaling_tid_nEvents)

lemma okeeps_signal_event: "okeeps cfg (\<lambda>s. s) (os_signal_event cfg e)"
proof (rule okeepsI)
  fix s r assume inv: "os_inv cfg s" and r: "os_signal_event cfg e s = Inr r"
  let ?s1 = "s\<lparr>os_events := (os_events s)\<lparr>lastSignaledEvent := e\<rparr>\<rparr>"
  have k: "os_kept cfg s ?s1"
    by (rule os_inv_events [OF inv]) (simp_all add: event_inv_last os_invD(3) [OF inv])
  show "os_kept cfg s r"
  proof (cases "0 < N_TOTAL_EVENTS cfg")
    case True
    then have r': "on_tasks (os_task_signal_event cfg e) ?s1 = Inr r" using r by (simp add: os_signal_event_def)
    have ok: "okeeps cfg (\<lambda>s. s) (\<lambda>s. on_tasks (os_task_signal_event cfg e) s)"
      by (rule okeeps_on_tasks [OF keeps_signal_event])
    show ?thesis by (rule os_kept_trans [OF k okeepsD [OF ok os_keptD [OF k] r']])
  next
    case False
    then show ?thesis using r inv by (simp add: os_signal_event_def os_kept_refl)
  qed
qed

lemma okeeps_int_signal: "okeeps cfg (\<lambda>s. s) (OS_INT_SIGNAL_EVENT cfg e)"
  unfolding OS_INT_SIGNAL_EVENT_def [abs_def]
  by (rule okeeps_seq [OF okeeps_signal_event okeeps_set_signaling_tid])

lemma okeeps_free: "okeeps cfg (\<lambda>r. snd r) (\<lambda>s. Inr (Returns, os_free_tid s))"
  by (rule okeeps_Inr) (simp add: os_kept_def os_free_tid_def, simp add: set_running_tid_def)

lemma okeeps_go: "okeeps cfg (\<lambda>r. snd r) (\<lambda>s. Inr (Goes_on, s))"
  by (rule okeeps_Inr) (simp add: os_kept_refl)

lemma okeeps_yield: "okeeps cfg (\<lambda>r. snd r) (OS_YIELD line)"
  unfolding OS_YIELD_def [abs_def]
  by (intro okeeps_seq [OF okeeps_on_tasks okeeps_free] keeps_setters)

lemma okeeps_end: "okeeps cfg (\<lambda>r. snd r) OS_END"
  unfolding OS_END_def [abs_def]
  by (intro okeeps_seq [OF okeeps_on_tasks okeeps_free] keeps_asserted)

lemma okeeps_wait_ticks: "okeeps cfg (\<lambda>r. snd r) (OS_WAIT_TICKS line ticks i)"
  unfolding OS_WAIT_TICKS_def [abs_def]
  by (intro okeeps_seq [OF okeeps_on_tasks okeeps_yield] keeps_wait_time_set)

lemma okeeps_suspend_resume:
  "okeeps cfg (\<lambda>r. snd r) (OS_SUSPEND_TASK line i)" "okeeps cfg (\<lambda>r. snd r) (OS_RESUME_TASK line i)"
  unfolding OS_SUSPEND_TASK_def [abs_def] OS_RESUME_TASK_def [abs_def]
  by (intro okeeps_seq [OF okeeps_on_tasks okeeps_if [OF okeeps_yield okeeps_go]] keeps_suspend keeps_resume)+

text \<open>Callbacks are procedures of the program; here they keep what a call keeps.\<close>

definition cb_ok :: "config \<Rightarrow> proc option \<Rightarrow> bool" where
  "cb_ok cfg cb \<longleftrightarrow> (case cb of Some f \<Rightarrow> okeeps cfg (\<lambda>s. s) f | None \<Rightarrow> True)"

lemma okeeps_cb: "cb_ok cfg cb \<Longrightarrow> okeeps cfg (\<lambda>s. s) (\<lambda>s. case cb of Some f \<Rightarrow> f s | None \<Rightarrow> Inr s)"
  by (cases cb) (auto simp: cb_ok_def intro: okeeps_Inr os_kept_refl)

lemma okeeps_wait_event:
  assumes "cb_ok cfg cb"
  shows "okeeps cfg (\<lambda>s. s) (\<lambda>s. os_wait_event cfg (tid s) e single timeout cb s)"
proof (rule okeepsI)
  fix s r assume inv: "os_inv cfg s" and r: "os_wait_event cfg (tid s) e single timeout cb s = Inr r"
  have "okeeps cfg (\<lambda>s. s) (\<lambda>x. bindR (on_events (os_event_set_signaling_tid cfg e NO_TID) x) (\<lambda>s1.
      bindR (on_tasks (os_task_wait_event (tid s) e single timeout) s1) (\<lambda>s2.
        case cb of Some f \<Rightarrow> f s2 | None \<Rightarrow> Inr s2)))"
    by (intro okeeps_seq [OF okeeps_set_signaling_tid] okeeps_seq [OF okeeps_on_tasks okeeps_cb] keeps_wait_event assms)
  from okeepsD [OF this inv] r show "os_kept cfg s r"
    using os_kept_refl [OF inv] by (auto simp: os_wait_event_def split: if_split_asm)
qed

lemma okeeps_wait_single:
  "cb_ok cfg cb \<Longrightarrow> okeeps cfg (\<lambda>r. snd r) (OS_WAIT_SINGLE_EVENT cfg line x timeout cb)"
  unfolding OS_WAIT_SINGLE_EVENT_def [abs_def] by (intro okeeps_seq [OF okeeps_wait_event okeeps_yield])

lemma keeps_wait_args: "keeps cfg (wait_args tid waitForAll event args)"
proof (induction args arbitrary: event)
  case Nil
  show ?case by (rule keepsI) (auto simp: bindR_eq_Inr)
next
  case (Cons arg args)
  have "keeps cfg (\<lambda>s. bindR (os_task_wait_event tid (word_of_int event) (\<not> waitForAll) 0 s) (\<lambda>s1.
       if arg \<noteq> 255 then wait_args tid waitForAll arg args s1 else Inr s1))"
    by (intro keeps_seq keeps_wait_event keeps_if Cons.IH keeps_Inr)
  moreover have "wait_args tid waitForAll event (arg # args) =
      (\<lambda>s. bindR (os_task_wait_event tid (word_of_int event) (\<not> waitForAll) 0 s) (\<lambda>s1.
       if arg \<noteq> 255 then wait_args tid waitForAll arg args s1 else Inr s1))" by (rule ext) simp
  ultimately show ?case by simp
qed

lemma okeeps_wait_multiple: "okeeps cfg (\<lambda>s. s) (os_wait_multiple cfg waitForAll args)"
proof (rule okeepsI)
  fix s r assume inv: "os_inv cfg s" and r: "os_wait_multiple cfg waitForAll args s = Inr r"
  show "os_kept cfg s r"
  proof (cases "0 < N_TOTAL_EVENTS cfg")
    case True
    define me :: u8 where "me = ucast (running_tid (os_kern s))"
    from True obtain first rest where r': "on_tasks (\<lambda>t. bindR (os_task_clear_wait_queue cfg me t)
        (wait_args me waitForAll first rest)) s = Inr r"
      using r by (auto simp: os_wait_multiple_def res_simps Let_def me_def split: list.splits)
    have "okeeps cfg (\<lambda>s. s) (\<lambda>x. on_tasks (\<lambda>t. bindR (os_task_clear_wait_queue cfg me t)
        (wait_args me waitForAll first rest)) x)"
      by (intro okeeps_on_tasks keeps_seq keeps_clear_wait_queue keeps_wait_args)
    from okeepsD [OF this inv r'] show ?thesis .
  next
    case False
    then show ?thesis using r inv by (simp add: os_wait_multiple_def os_kept_refl)
  qed
qed

lemma okeeps_wait_multiple_events: "okeeps cfg (\<lambda>r. snd r) (OS_WAIT_MULTIPLE_EVENTS cfg line waitAll args)"
  unfolding OS_WAIT_MULTIPLE_EVENTS_def [abs_def] by (rule okeeps_seq [OF okeeps_wait_multiple okeeps_yield])

lemma okeeps_signal: "okeeps cfg (\<lambda>r. snd r) (OS_SIGNAL_EVENT cfg line e)"
  unfolding OS_SIGNAL_EVENT_def [abs_def]
  by (intro okeeps_seq [OF okeeps_signal_event] okeeps_seq [OF okeeps_set_signaling_tid okeeps_yield])

text \<open>Semaphores.\<close>

lemma sem_update_inv:
  assumes "sem_inv cfg s"
  shows "os_sem_increment cfg h s = Inr s' \<Longrightarrow> sem_inv cfg s'" "os_sem_decrement cfg h s = Inr s' \<Longrightarrow> sem_inv cfg s'"
proof -
  have upd: "sem_inv cfg (s\<lparr>semList := (semList s)[i := v]\<rparr>)"
    if "i < length (semList s)" "semValue (semList s ! i) \<le> maxValue (semList s ! i) \<Longrightarrow> semValue v \<le> maxValue v" for i v
    using assms that by (auto simp: sem_inv_def nth_list_update)
  have inc: "v + 1 \<le> m" if "v < m" for v m :: u8 using that by (rule inc_le)
  have dec: "v - 1 \<le> m" if "0 < v" "v \<le> m" for v m :: u8
    using that by (simp add: word_le_nat_alt unat_minus_one_word)
  show "os_sem_increment cfg h s = Inr s' \<Longrightarrow> sem_inv cfg s'"
    using assms upd inc by (auto simp: os_sem_increment_def res_simps split: if_split_asm)
  show "os_sem_decrement cfg h s = Inr s' \<Longrightarrow> sem_inv cfg s'"
    using assms upd dec by (auto simp: os_sem_decrement_def res_simps split: if_split_asm)
qed

lemma okeeps_sems:
  "okeeps cfg (\<lambda>s. s) (\<lambda>s. on_sems (os_sem_increment cfg h) s)" "okeeps cfg (\<lambda>s. s) (\<lambda>s. on_sems (os_sem_decrement cfg h) s)"
  by (rule okeepsI, auto simp: on_sems_eq_Inr os_kept_def os_inv_def queues_inv_def intro: sem_update_inv)+

lemma okeeps_sem_macros:
  "okeeps cfg (\<lambda>r. snd r) (OS_WAIT_SEM cfg line sem)" "okeeps cfg (\<lambda>r. snd r) (OS_SIGNAL_SEM cfg line sem)"
  "okeeps cfg (\<lambda>s. s) (OS_SIGNAL_SEM_NO_SCHEDULE cfg sem)"
proof -
  show "okeeps cfg (\<lambda>r. snd r) (OS_WAIT_SEM cfg line sem)"
    unfolding OS_WAIT_SEM_def [abs_def]
    by (intro okeeps_get okeeps_if okeeps_seq [OF okeeps_sems(2) okeeps_go]
        okeeps_seq [OF okeeps_on_tasks okeeps_yield] keeps_asserted)
  show "okeeps cfg (\<lambda>r. snd r) (OS_SIGNAL_SEM cfg line sem)"
    unfolding OS_SIGNAL_SEM_def [abs_def]
    by (intro okeeps_get okeeps_if okeeps_seq [OF okeeps_sems(1) okeeps_go]
        okeeps_seq [OF okeeps_on_tasks okeeps_yield] keeps_release)
  show "okeeps cfg (\<lambda>s. s) (OS_SIGNAL_SEM_NO_SCHEDULE cfg sem)"
    unfolding OS_SIGNAL_SEM_NO_SCHEDULE_def [abs_def]
    by (intro okeeps_get okeeps_if okeeps_sems okeeps_on_tasks keeps_release)
qed

section \<open>Messages\<close>

lemma copy_bytes_length: "copy_bytes n src i dst j = Inr d \<Longrightarrow> length d = length dst"
  by (induction n arbitrary: i dst j) (fastforce simp: bindR_eq_Inr aput_eq_Inr)+

lemma queue_inv_write:
  assumes "queue_inv q" and "length l = length (q_list q)" and "unat h < qn q"
  shows "queue_inv (q\<lparr>q_list := l, q_head := h\<rparr>)"
  using assms by (simp add: queue_inv_def)

lemma next_slot_less: "unat i < qn q \<Longrightarrow> unat (next_slot q i) < qn q"
  by (simp add: next_slot_nxt nxt_less)

lemma queue_push_inv:
  assumes "queue_inv q" and "queue_push q msg = Inr (r, q')"
  shows "queue_inv q'"
  using assms queue_inv_write [OF assms(1) copy_bytes_length, where h = "next_slot q (q_head q)"]
    next_slot_less [OF queue_invD(2) [OF assms(1)]] head_step_nxt [OF queue_invD(2) [OF assms(1)]]
  by (auto simp: queue_push_def bindR_eq_Inr split: if_split_asm)

lemma receive_slot_inv:
  assumes "queue_inv q" and "receive_slot q tail msg = Inr (found, msg', q')"
  shows "queue_inv q' \<and> q_size q' = q_size q"
  using assms queue_inv_write [OF assms(1) copy_bytes_length, where h = "next_slot q (q_head q)"]
    next_slot_less [OF queue_invD(2) [OF assms(1)]]
  by (auto simp: receive_slot_def bindR_eq_Inr Let_def split: if_split_asm)

lemma receive_loop_inv:
  "queue_inv q \<Longrightarrow> unat tail < qn q \<Longrightarrow> receive_loop fuel q tail msg = Inr (msg', q') \<Longrightarrow> queue_inv q'"
proof (induction fuel arbitrary: q tail msg)
  case (Suc fuel)
  then obtain found m1 q1 where r: "receive_slot q (next_slot q tail) msg = Inr (found, m1, q1)"
    "(if found then Inr (m1, q1\<lparr>q_tail := next_slot q tail\<rparr>) else receive_loop fuel q1 (next_slot q tail) m1) = Inr (msg', q')"
    by (auto simp: bindR_eq_Inr Let_def)
  have q1: "queue_inv q1" "q_size q1 = q_size q" using receive_slot_inv [OF Suc.prems(1) r(1)] by simp_all
  have t: "unat (next_slot q tail) < qn q1" using next_slot_less [OF Suc.prems(2)] q1(2) by simp
  show ?case
  proof (cases found)
    case True
    then have "q' = q1\<lparr>q_tail := next_slot q tail\<rparr>" using r(2) by simp
    then show ?thesis using q1(1) t by (simp add: queue_inv_def)
  next
    case False
    then show ?thesis using Suc.IH [OF q1(1) t] r(2) by simp
  qed
qed simp

lemma queue_receive_inv:
  assumes "queue_inv q" and "queue_receive q msg = Inr (r, msg', q')"
  shows "queue_inv q'"
  using assms receive_loop_inv [OF assms(1) queue_invD(3) [OF assms(1)]]
  by (auto simp: queue_receive_def bindR_eq_Inr split: if_split_asm)

text \<open>Posting and receiving change only a queue, and keep it well formed, whatever the message is.\<close>

definition msgqs_kept :: "config \<Rightarrow> msgq_st \<Rightarrow> msgq_st \<Rightarrow> bool" where
  "msgqs_kept cfg s s' \<longleftrightarrow> (msgq_inv cfg s \<longrightarrow> msgq_inv cfg s') \<and> queue_ids s' = queue_ids s"

lemma msgqs_kept_with_queue: "(msgq_inv cfg s \<Longrightarrow> queue_inv q) \<Longrightarrow> msgqs_kept cfg s (with_queue s queue q)"
  by (simp add: msgqs_kept_def msgq_inv_with_queue)

lemma msgqs_kept_set:
  assumes "set_queue (unat (queue :: u8)) q s = Inr s'" and "msgq_inv cfg s \<Longrightarrow> queue_inv q"
  shows "msgqs_kept cfg s s'"
proof -
  have i: "unat queue < length (msgQList s)" using assms(1) by (auto simp: set_queue_def bindR_eq_Inr aget_eq_Inr)
  then have s': "s' = with_queue s queue q" using assms(1) set_queue_at by simp
  show ?thesis unfolding s' by (rule msgqs_kept_with_queue [OF assms(2)])
qed

lemma msg_post_kept:
  assumes "os_msg_post cfg msg queue d p s = Inr (r, msg', s')"
  shows "msgqs_kept cfg s s'"
proof (cases "0 < N_QUEUES cfg \<and> queue < nQueues s")
  case True
  then obtain m1 m2 q where q: "queue_push (queue_at s queue) m2 = Inr (r, q)" "set_queue (unat queue) q s = Inr s'"
    using assms leD by (auto simp: os_msg_post_def bindR_eq_Inr aget_eq_Inr queue_at_def split: if_split_asm)
  show ?thesis by (rule msgqs_kept_set [OF q(2)]) (rule queue_push_inv [OF msgq_invD(2) q(1)], use True in simp_all)
next
  case False
  then show ?thesis using assms by (auto simp: os_msg_post_def msgqs_kept_def not_less split: if_split_asm)
qed

lemma msg_receive_kept:
  assumes "os_msg_receive cfg msg queue s = Inr (r, msg', s')"
  shows "msgqs_kept cfg s s'"
proof (cases "0 < N_QUEUES cfg \<and> queue < nQueues s")
  case True
  then obtain q where q: "queue_receive (queue_at s queue) msg = Inr (r, msg', q)" "set_queue (unat queue) q s = Inr s'"
    using assms leD by (auto simp: os_msg_receive_def bindR_eq_Inr aget_eq_Inr queue_at_def split: if_split_asm)
  show ?thesis by (rule msgqs_kept_set [OF q(2)]) (rule queue_receive_inv [OF msgq_invD(2) q(1)], use True in simp_all)
next
  case False
  then show ?thesis using assms by (auto simp: os_msg_receive_def msgqs_kept_def not_less split: if_split_asm)
qed

lemma os_kept_msgqs:
  assumes "os_inv cfg s" and "msgqs_kept cfg (os_msgqs s) m"
  shows "os_kept cfg s (s\<lparr>os_msgqs := m\<rparr>)"
proof -
  have "queues_inv cfg (s\<lparr>os_msgqs := m\<rparr>)" if "0 < N_QUEUES cfg"
  proof -
    note q = os_invD(4) [OF assms(1) that]
    have len: "unat (nQueues (os_msgqs s)) \<le> length (msgQList (os_msgqs s))"
      using q by (simp add: queues_inv_def msgq_inv_def)
    have ids: "queue_ids m = queue_ids (os_msgqs s)" using assms(2) by (simp add: msgqs_kept_def)
    have "mq_change (msgQList m ! i) = mq_change (msgQList (os_msgqs s) ! i)" if "i < unat (nQueues (os_msgqs s))" for i
      using queue_idsD(4) [OF ids, of i] that len by simp
    then show ?thesis using q assms(2) queue_idsD(1) [OF ids] by (simp add: queues_inv_def msgqs_kept_def)
  qed
  then show ?thesis using assms by (simp add: os_kept_def os_inv_def msgqs_kept_def)
qed

lemma okeeps_msgq_op:
  assumes "\<And>s a b m. g s = Inr (a, b, m) \<Longrightarrow> msgqs_kept cfg (os_msgqs s) m" and "\<And>a b. okeeps cfg pr (f a b)"
  shows "okeeps cfg pr (\<lambda>s. bindR (g s) (\<lambda>r. case r of (a, b, m) \<Rightarrow> f a b (s\<lparr>os_msgqs := m\<rparr>)))"
proof (rule okeepsI)
  fix s r assume inv: "os_inv cfg s" and r: "bindR (g s) (\<lambda>r. case r of (a, b, m) \<Rightarrow> f a b (s\<lparr>os_msgqs := m\<rparr>)) = Inr r"
  then obtain a b m where g: "g s = Inr (a, b, m)" "f a b (s\<lparr>os_msgqs := m\<rparr>) = Inr r" by (auto simp: bindR_eq_Inr)
  have k: "os_kept cfg s (s\<lparr>os_msgqs := m\<rparr>)" by (rule os_kept_msgqs [OF inv assms(1) [OF g(1)]])
  show "os_kept cfg s (pr r)" by (rule os_kept_trans [OF k okeepsD [OF assms(2) os_keptD [OF k] g(2)]])
qed

lemma okeeps_with_msg:
  "okeeps cfg (\<lambda>r. snd r) f \<Longrightarrow> okeeps cfg (\<lambda>r. snd (snd r)) (\<lambda>s. bindR (f s) (\<lambda>r. case r of (c, s) \<Rightarrow> Inr (c, msg, s)))"
  by (rule okeepsI) (auto simp: bindR_eq_Inr dest: okeepsD)

lemma okeeps_go_msg: "okeeps cfg (\<lambda>r. snd (snd r)) (\<lambda>s. Inr (Goes_on, msg, s))"
  by (rule okeeps_Inr) (simp add: os_kept_refl)

lemma okeeps_signal_change: "okeeps cfg (\<lambda>s. s) (signal_change cfg event)"
  unfolding signal_change_def [abs_def] by (rule okeeps_seq [OF okeeps_signal_event okeeps_set_signaling_tid])

lemma cb_ok_None [simp]: "cb_ok cfg None"
  by (simp add: cb_ok_def)

lemma okeeps_done:
  "okeeps cfg (\<lambda>r. snd (snd r)) (\<lambda>s. if res = ok then bindR (signal_change cfg event s) (\<lambda>s. Inr (Goes_on, msg, s))
     else Inr (Goes_on, msg, s))"
  by (intro okeeps_if okeeps_seq [OF okeeps_signal_change okeeps_go_msg] okeeps_go_msg)

lemma okeeps_post_round: "okeeps cfg (\<lambda>r. snd (snd r)) (post_round cfg line task_id msg delay period async event)"
proof -
  have "okeeps cfg (\<lambda>r. snd (snd r)) (after_post cfg line async event res msg)" for res msg
    unfolding after_post_def [abs_def]
    by (intro okeeps_if_const okeeps_go_msg okeeps_done okeeps_seq [OF okeeps_on_tasks] keeps_setters
        okeeps_with_msg okeeps_wait_single cb_ok_None)
  then show ?thesis
    unfolding post_round_def [abs_def] by (intro okeeps_get okeeps_msgq_op) (rule msg_post_kept)
qed

lemma okeeps_receive_round:
  assumes "cb_ok cfg cb"
  shows "okeeps cfg (\<lambda>r. snd (snd r)) (receive_round cfg line task_id msg async cb event)"
proof -
  have "okeeps cfg (\<lambda>r. snd (snd r)) (after_receive cfg line async cb event res msg)" for res msg
    unfolding after_receive_def [abs_def]
    by (intro okeeps_if_const okeeps_go_msg okeeps_done okeeps_seq [OF okeeps_on_tasks] okeeps_seq [OF okeeps_cb] okeeps_get
        keeps_setters okeeps_with_msg okeeps_wait_single cb_ok_None assms)
  then show ?thesis
    unfolding receive_round_def [abs_def] by (intro okeeps_get okeeps_msgq_op) (rule msg_receive_kept)
qed

lemma okeeps_prologue: "okeeps cfg (\<lambda>r. snd r) (queue_prologue cfg task_id)"
  unfolding queue_prologue_def [abs_def]
  by (intro okeeps_get okeeps_seq [OF okeeps_on_tasks] keeps_setters okeeps_Inr) (simp add: os_kept_refl)

lemma okeeps_after_prologue:
  assumes "\<And>event. okeeps cfg pr (f event)"
  shows "okeeps cfg pr (\<lambda>s. bindR (queue_prologue cfg task_id s) (\<lambda>r. case r of (event, s) \<Rightarrow> f event s))"
  by (rule okeeps_bind [OF okeeps_prologue]) (auto dest: okeepsD [OF assms])

lemma okeeps_msg_macros:
  "okeeps cfg (\<lambda>r. snd (snd r)) (OS_MSG_Q_POST cfg line task_id msg delay period async)"
  "okeeps cfg (\<lambda>r. snd (snd r)) (OS_MSG_Q_POST_resume cfg line task_id msg delay period async)"
  "cb_ok cfg cb \<Longrightarrow> okeeps cfg (\<lambda>r. snd (snd r)) (OS_MSG_Q_RECEIVE cfg line task_id msg async cb)"
  "cb_ok cfg cb \<Longrightarrow> okeeps cfg (\<lambda>r. snd (snd r)) (OS_MSG_Q_RECEIVE_resume cfg line task_id msg async cb)"
  unfolding OS_MSG_Q_POST_def [abs_def] OS_MSG_Q_POST_resume_def [abs_def] OS_MSG_Q_RECEIVE_def [abs_def]
    OS_MSG_Q_RECEIVE_resume_def [abs_def]
  by (intro okeeps_after_prologue okeeps_get okeeps_if_const okeeps_post_round okeeps_receive_round okeeps_done | assumption)+

end
