(* ===== verification/Os_Wakeup.thy ===== *)
theory Os_Wakeup
  imports Os_Calls
begin

text \<open>
  How a wait for an event ends: a single task under any sequence of clock ticks and signals, the wait
  with a timeout and what \<open>event_get_timeout\<close> tells about its end, and the signals that a suspended
  task does not see.
\<close>

section \<open>Clock ticks and signals, seen by one task\<close>

datatype stimulus = Clock | Signals u8

fun stimulate :: "config \<Rightarrow> stimulus \<Rightarrow> os \<Rightarrow> os res" where
  "stimulate cfg Clock s = os_tick cfg s"
| "stimulate cfg (Signals e) s = os_signal_event cfg e s"

fun stimulus_ok :: "config \<Rightarrow> stimulus \<Rightarrow> bool" where
  "stimulus_ok cfg Clock \<longleftrightarrow> True"
| "stimulus_ok cfg (Signals e) \<longleftrightarrow> unat e < event_cap cfg"

fun stim_tcb :: "stimulus \<Rightarrow> tcb \<Rightarrow> tcb" where
  "stim_tcb Clock t = tick_tcb 0 1 t"
| "stim_tcb (Signals e) t = sig_tcb e t"

lemma stimulate_at:
  assumes inv: "os_inv cfg s" and ev: "0 < N_TOTAL_EVENTS cfg" and x: "stimulus_ok cfg x"
    and i: "i < unat (nTasks (os_tasks s))" and d: "deaf (change_events s) (task_list (os_tasks s) ! i)"
  obtains s' where "stimulate cfg x s = Inr s'" "os_inv cfg s'" "nTasks (os_tasks s') = nTasks (os_tasks s)"
    "change_events s' = change_events s" "task_list (os_tasks s') ! i = stim_tcb x (task_list (os_tasks s) ! i)"
proof (cases x)
  case Clock
  obtain s' where s': "task_tick cfg 0 1 s = Inr s'" "os_inv cfg s'" "os_kern s' = os_kern s"
    "task_kept cfg (os_tasks s) (os_tasks s')" "change_events s' = change_events s"
    "\<forall>i < unat (nTasks (os_tasks s)). deaf (change_events s) (task_list (os_tasks s) ! i) \<longrightarrow>
       task_list (os_tasks s') ! i = tick_tcb 0 1 (task_list (os_tasks s) ! i)"
    by (rule task_tick_ok [OF inv])
  show ?thesis
    by (rule that [of s']) (use s' Clock i d task_keptD(2) [OF s'(4)] in \<open>simp_all add: os_tick_def\<close>)
next
  case (Signals e)
  then have e: "unat e < event_cap cfg" using x by simp
  note ti = os_invD(1) [OF inv]
  obtain t where t: "os_task_signal_event cfg e (os_tasks s) = Inr t" "task_kept cfg (os_tasks s) t"
    "\<forall>i < length (task_list (os_tasks s)). task_list t ! i =
       (if i < unat (nTasks (os_tasks s)) then sig_tcb e (task_list (os_tasks s) ! i) else task_list (os_tasks s) ! i)"
    by (rule signal_event_at [OF ti e])
  have r: "stimulate cfg x s = Inr (s\<lparr>os_tasks := t, os_events := (os_events s)\<lparr>lastSignaledEvent := e\<rparr>\<rparr>)"
    using Signals t(1) by (simp add: os_signal_event_eq [OF ev])
  have "i < length (task_list (os_tasks s))" using i task_inv_bounds(1) [OF ti] by simp
  then have "task_list t ! i = stim_tcb x (task_list (os_tasks s) ! i)" using t(3) i Signals by simp
  moreover have "os_kept cfg s (s\<lparr>os_tasks := t, os_events := (os_events s)\<lparr>lastSignaledEvent := e\<rparr>\<rparr>)"
    using okeepsD [OF okeeps_signal_event inv] r Signals by simp
  ultimately show ?thesis
    using that [OF r] task_keptD(2) [OF t(2)] by (simp add: os_kept_def change_events_def)
qed

text \<open>A task that is ready stays as it is.\<close>

lemma stim_tcb_ready: "tcb_state t = READY \<Longrightarrow> stim_tcb x t = t"
  by (cases x) (simp_all add: tick_tcb_idle sig_tcb_not_waiting event_waiting_def)

lemma stimuli_ready:
  "os_inv cfg s \<Longrightarrow> 0 < N_TOTAL_EVENTS cfg \<Longrightarrow> \<forall>x \<in> set xs. stimulus_ok cfg x \<Longrightarrow> i < unat (nTasks (os_tasks s)) \<Longrightarrow>
   tcb_state (task_list (os_tasks s) ! i) = READY \<Longrightarrow>
   \<exists>s'. foldR (stimulate cfg) xs s = Inr s' \<and> os_inv cfg s' \<and> task_list (os_tasks s') ! i = task_list (os_tasks s) ! i"
proof (induction xs arbitrary: s)
  case (Cons x xs)
  have d: "deaf (change_events s) (task_list (os_tasks s) ! i)"
    using Cons.prems(5) by (simp add: deaf_def event_waiting_def)
  have x: "stimulus_ok cfg x" using Cons.prems(3) by simp
  obtain s1 where s1: "stimulate cfg x s = Inr s1" "os_inv cfg s1" "nTasks (os_tasks s1) = nTasks (os_tasks s)"
    "task_list (os_tasks s1) ! i = stim_tcb x (task_list (os_tasks s) ! i)"
    by (rule stimulate_at [OF Cons.prems(1,2) x Cons.prems(4) d])
  then show ?case using Cons.IH [OF s1(2)] Cons.prems by (simp add: stim_tcb_ready)
qed simp

section \<open>Waiting with a timeout\<close>

text \<open>The clock ticks before the first signal of an event.\<close>

fun ticks_until :: "u8 \<Rightarrow> stimulus list \<Rightarrow> nat" where
  "ticks_until e [] = 0"
| "ticks_until e (Clock # xs) = Suc (ticks_until e xs)"
| "ticks_until e (Signals f # xs) = (if f = e then 0 else ticks_until e xs)"

text \<open>How a wait for \<open>e\<close> with a timeout goes on.\<close>

definition timed_wait :: "u8 \<Rightarrow> tcb \<Rightarrow> bool" where
  "timed_wait e t \<longleftrightarrow> tcb_state t = WAITING_EVENT_TIMEOUT \<and> tcb_clockId t = 0 \<and> 0 < tcb_time t \<and> pending t = {unat e}"

definition timed_result :: "u8 \<Rightarrow> stimulus list \<Rightarrow> u32 \<Rightarrow> tcb \<Rightarrow> bool" where
  "timed_result e xs T t \<longleftrightarrow>
     (if unat T \<le> ticks_until e xs then tcb_state t = READY \<and> tcb_time t = 0
      else tcb_state t = (if Signals e \<in> set xs then READY else WAITING_EVENT_TIMEOUT) \<and>
        unat (tcb_time t) = unat T - ticks_until e xs)"

lemma timed_wait_deaf: "timed_wait e t \<Longrightarrow> unat e \<notin> E \<Longrightarrow> deaf E t"
  by (simp add: timed_wait_def deaf_def)

text \<open>The three things that can happen to it.\<close>

lemma timed_tick_last:
  "timed_wait e t \<Longrightarrow> tcb_time t = 1 \<Longrightarrow> tcb_state (tick_tcb 0 1 t) = READY \<and> tcb_time (tick_tcb 0 1 t) = 0"
  by (simp add: timed_wait_def tick_tcb_def)

lemma timed_tick:
  assumes "timed_wait e t" and "tcb_time t \<noteq> 1"
  shows "timed_wait e (tick_tcb 0 1 t)" "unat (tcb_time (tick_tcb 0 1 t)) = unat (tcb_time t) - 1" "1 < unat (tcb_time t)"
proof -
  have t: "0 < unat (tcb_time t)" "unat (tcb_time t) \<noteq> 1"
    using assms by (auto simp: timed_wait_def word_less_nat_alt word_unat_eq_iff)
  then show "1 < unat (tcb_time t)" by simp
  then have n: "\<not> tcb_time t \<le> 1" and u: "unat (tcb_time t - 1) = unat (tcb_time t) - 1"
    by (simp_all add: word_le_nat_alt unat_sub_of_nat [of 1, simplified])
  then show "unat (tcb_time (tick_tcb 0 1 t)) = unat (tcb_time t) - 1"
    using assms(1) by (simp add: timed_wait_def tick_tcb_def)
  show "timed_wait e (tick_tcb 0 1 t)"
    using assms(1) n t u by (simp add: timed_wait_def tick_tcb_def pending_def word_less_nat_alt)
qed

lemma timed_signal:
  assumes "timed_wait e t"
  shows "tcb_state (sig_tcb e t) = READY" "tcb_time (sig_tcb e t) = tcb_time t"
    "f \<noteq> e \<Longrightarrow> sig_tcb f t = t"
  using assms by (auto simp: timed_wait_def sig_tcb_def event_waiting_def word_unat_eq_iff)

lemma timed_wait_run:
  "os_inv cfg s \<Longrightarrow> 0 < N_TOTAL_EVENTS cfg \<Longrightarrow> \<forall>x \<in> set xs. stimulus_ok cfg x \<Longrightarrow> i < unat (nTasks (os_tasks s)) \<Longrightarrow>
   timed_wait e (task_list (os_tasks s) ! i) \<Longrightarrow> unat e \<notin> change_events s \<Longrightarrow>
   \<exists>s'. foldR (stimulate cfg) xs s = Inr s' \<and> os_inv cfg s' \<and>
     timed_result e xs (tcb_time (task_list (os_tasks s) ! i)) (task_list (os_tasks s') ! i)"
proof (induction xs arbitrary: s)
  case Nil
  then show ?case by (simp add: timed_result_def timed_wait_def word_less_nat_alt)
next
  case (Cons x xs)
  let ?t = "task_list (os_tasks s) ! i"
  have d: "deaf (change_events s) ?t" using Cons.prems(5,6) by (rule timed_wait_deaf)
  have x: "stimulus_ok cfg x" "\<forall>x \<in> set xs. stimulus_ok cfg x" using Cons.prems(3) by simp_all
  obtain s1 where s1: "stimulate cfg x s = Inr s1" "os_inv cfg s1" "nTasks (os_tasks s1) = nTasks (os_tasks s)"
    "change_events s1 = change_events s" "task_list (os_tasks s1) ! i = stim_tcb x ?t"
    by (rule stimulate_at [OF Cons.prems(1,2) x(1) Cons.prems(4) d])
  have i: "i < unat (nTasks (os_tasks s1))" using Cons.prems(4) s1(3) by simp
  have woken: ?case if "tcb_state (stim_tcb x ?t) = READY" "timed_result e (x # xs) (tcb_time ?t) (stim_tcb x ?t)"
    using stimuli_ready [OF s1(2) Cons.prems(2) x(2) i] that s1(1,5) by auto
  have asleep: ?case if "timed_wait e (stim_tcb x ?t)"
    "\<And>t'. timed_result e xs (tcb_time (stim_tcb x ?t)) t' \<Longrightarrow> timed_result e (x # xs) (tcb_time ?t) t'"
    using Cons.IH [OF s1(2) Cons.prems(2) x(2) i] that s1(1,4,5) Cons.prems(6) by auto
  show ?case
  proof (cases x)
    case Clock
    show ?thesis
    proof (cases "tcb_time ?t = 1")
      case True
      then show ?thesis using timed_tick_last [OF Cons.prems(5) True] Clock by (intro woken) (simp_all add: timed_result_def)
    next
      case False
      note w = timed_tick [OF Cons.prems(5) False]
      then show ?thesis using Clock by (intro asleep) (auto simp: timed_result_def split: if_split_asm)
    qed
  next
    case (Signals f)
    show ?thesis
    proof (cases "f = e")
      case True
      have "0 < unat (tcb_time ?t)" using Cons.prems(5) by (simp add: timed_wait_def word_less_nat_alt)
      then show ?thesis using timed_signal(1,2) [OF Cons.prems(5)] Signals True
        by (intro woken) (simp_all add: timed_result_def)
    next
      case False
      then show ?thesis using timed_signal(3) [OF Cons.prems(5) False] Signals Cons.prems(5)
        by (intro asleep) (simp_all add: timed_result_def)
    qed
  qed
qed

section \<open>The wait itself\<close>

text \<open>The control block of a task that waits for \<open>e\<close>, with the bitmap \<open>q\<close>, to go on at a line.\<close>

definition waited_tcb :: "u8 list \<Rightarrow> u32 \<Rightarrow> tcb \<Rightarrow> tcb" where
  "waited_tcb q T t = (if T = 0 then t\<lparr>tcb_eventQueue := q, tcb_waitSingleEvent := True, tcb_state := WAITING_EVENT\<rparr>
     else t\<lparr>tcb_eventQueue := q, tcb_waitSingleEvent := True, tcb_clockId := 0, tcb_time := T, tcb_state := WAITING_EVENT_TIMEOUT\<rparr>)"

definition waiting_tcb :: "u8 list \<Rightarrow> u32 \<Rightarrow> nat \<Rightarrow> tcb \<Rightarrow> tcb" where
  "waiting_tcb q T line t = (waited_tcb q T t)\<lparr>tcb_internal_state := of_nat line\<rparr>"

text \<open>It needs the invariant of the kernel, a running task and an event that exists and fits the bitmap.\<close>

definition can_wait :: "config \<Rightarrow> u8 \<Rightarrow> os \<Rightarrow> bool" where
  "can_wait cfg e s \<longleftrightarrow> os_inv cfg s \<and> self_tid s < nTasks (os_tasks s) \<and> e < nEvents (os_events s) \<and> unat e < event_cap cfg"

lemma can_waitD:
  assumes "can_wait cfg e s"
  shows "os_inv cfg s" "self_tid s < nTasks (os_tasks s)" "unat e < event_cap cfg"
    "unat (self_tid s) < length (task_list (os_tasks s))" "unat e < length (eventList (os_events s))" "0 < N_TOTAL_EVENTS cfg"
    "e < nEvents (os_events s)"
proof -
  show a: "os_inv cfg s" "self_tid s < nTasks (os_tasks s)" "unat e < event_cap cfg" "e < nEvents (os_events s)"
    using assms by (simp_all add: can_wait_def)
  show "unat (self_tid s) < length (task_list (os_tasks s))" by (rule task_inv_index [OF os_invD(1) [OF a(1)] a(2)])
  show e: "unat e < length (eventList (os_events s))" "0 < N_TOTAL_EVENTS cfg"
    using os_invD(3) [OF a(1)] a(4) by (auto simp: event_inv_def word_less_nat_alt)
qed

text \<open>The part of the call that sets the task to wait.\<close>

lemma wait_event_stored:
  assumes "can_wait cfg e s"
  obtains q where "wq_elems q = insert (unat e) (pending (task_list (os_tasks s) ! unat (self_tid s)))"
    "os_task_wait_event (self_tid s) e True T (os_tasks s) = Inr ((os_tasks s)\<lparr>task_list := (task_list (os_tasks s))
       [unat (self_tid s) := waited_tcb q T (task_list (os_tasks s) ! unat (self_tid s))]\<rparr>)"
proof -
  note w = can_waitD [OF assms]
  let ?t = "task_list (os_tasks s) ! unat (self_tid s)"
  have wf: "queue_wf cfg (tcb_eventQueue ?t)"
    using task_inv_queue [OF os_invD(1) [OF w(1)] w(4)] by (simp add: queue_wf_def)
  obtain q where q: "wq_add e (tcb_eventQueue ?t) = Inr q" "wq_elems q = insert (unat e) (wq_elems (tcb_eventQueue ?t))"
    using wq.add_ok [OF wf w(3)] by blast
  show ?thesis
    by (rule that [of q])
      (use q w in \<open>cases "T = 0"; simp add: pending_def os_task_wait_event_def os_task_wait_time_set_def
        task_waiting_time_set_def task_waiting_event_timeout_set_def task_waiting_event_set_def waited_tcb_def word_neq_0_conv\<close>)+
qed

lemma wait_single_blocks:
  assumes "can_wait cfg e s"
  obtains s' q where "OS_WAIT_SINGLE_EVENT cfg line e T None s = Inr (Returns, s')" "os_inv cfg s'"
    "wq_elems q = insert (unat e) (pending (task_list (os_tasks s) ! unat (self_tid s)))"
    "os_tasks s' = (os_tasks s)\<lparr>task_list := (task_list (os_tasks s))
       [unat (self_tid s) := waiting_tcb q T line (task_list (os_tasks s) ! unat (self_tid s))]\<rparr>"
    "os_msgqs s' = os_msgqs s" "os_sems s' = os_sems s" "os_get_running_tid s' = NO_TID"
    "nEvents (os_events s') = nEvents (os_events s)"
proof -
  note w = can_waitD [OF assms]
  let ?me = "self_tid s" and ?ts = "os_tasks s"
  let ?t = "task_list ?ts ! unat ?me"
  obtain q where q: "wq_elems q = insert (unat e) (pending ?t)"
    "os_task_wait_event ?me e True T ?ts = Inr (?ts\<lparr>task_list := (task_list ?ts)[unat ?me := waited_tcb q T ?t]\<rparr>)"
    by (rule wait_event_stored [OF assms])
  let ?ev = "(os_events s)\<lparr>eventList := (eventList (os_events s))[unat e := (eventList (os_events s) ! unat e)\<lparr>signaledByTid := NO_TID\<rparr>]\<rparr>"
  let ?l = "(task_list ?ts)[unat ?me := waiting_tcb q T line ?t]"
  let ?s' = "s\<lparr>os_events := ?ev, os_tasks := ?ts\<lparr>task_list := ?l\<rparr>, os_kern := (os_kern s)\<lparr>running_tid := NO_TID\<rparr>\<rparr>"
  have "OS_WAIT_SINGLE_EVENT cfg line e T None s = Inr (Returns, ?s')"
    using q(2) w
    by (simp add: OS_WAIT_SINGLE_EVENT_def os_wait_event_def os_event_set_signaling_tid_def on_events_def on_tasks_def
        OS_YIELD_def os_task_internal_state_set_def self_tid_def os_get_running_tid_def os_free_tid_def set_running_tid_def waiting_tcb_def)
  moreover have "os_inv cfg ?s'"
    using okeepsD [OF okeeps_wait_single [OF cb_ok_None] w(1) calculation] by (simp add: os_kept_def)
  ultimately show ?thesis
    using that [of ?s' q] q(1) by (simp add: os_get_running_tid_def)
qed

lemma waiting_tcb_timed:
  assumes "wq_elems q = {unat e}" and "T \<noteq> 0"
  shows "timed_wait e (waiting_tcb q T line t)" "tcb_time (waiting_tcb q T line t) = T"
  using assms by (auto simp: timed_wait_def waiting_tcb_def waited_tcb_def pending_def word_neq_0_conv)

lemma timed_get:
  assumes "timed_result e xs T (task_list s ! unat me)" and "unat me < length (task_list s)"
  shows "if unat T \<le> ticks_until e xs then tcb_state (task_list s ! unat me) = READY \<and> os_task_timeout_get me s = Inr 0
    else tcb_state (task_list s ! unat me) = (if Signals e \<in> set xs then READY else WAITING_EVENT_TIMEOUT) \<and>
      (\<exists>left. os_task_timeout_get me s = Inr left \<and> unat left = unat T - ticks_until e xs)"
  using assms by (auto simp: timed_result_def os_task_timeout_get_def split: if_split_asm)

section \<open>Properties\<close>

text \<open>C18: a task that waits for an event with a timeout of \<open>T\<close> ticks, while clock ticks and signals of any
  events come in any order, is woken by the first signal of its event if fewer than \<open>T\<close> ticks came
  before it, and then \<open>event_get_timeout\<close> gives the ticks that were left, which is not 0; without such a
  signal it is woken by the \<open>T\<close>th tick, and then \<open>event_get_timeout\<close> gives 0; before either it still
  waits. (The event is not the change event of a message queue, which a tick may signal.)\<close>

theorem timeout_tells_cause:
  assumes "os_inv cfg s" and "self_tid s < nTasks (os_tasks s)" and "e < nEvents (os_events s)" and "unat e < event_cap cfg"
    and "pending (task_list (os_tasks s) ! unat (self_tid s)) = {}" and "unat e \<notin> change_events s" and "T \<noteq> 0"
    and "\<forall>x \<in> set xs. stimulus_ok cfg x"
  shows "\<exists>s0 s1. OS_WAIT_SINGLE_EVENT cfg line e T None s = Inr (Returns, s0) \<and> foldR (stimulate cfg) xs s0 = Inr s1 \<and>
    (if unat T \<le> ticks_until e xs
     then tcb_state (task_list (os_tasks s1) ! unat (self_tid s)) = READY \<and>
       os_task_timeout_get (self_tid s) (os_tasks s1) = Inr 0
     else tcb_state (task_list (os_tasks s1) ! unat (self_tid s)) =
         (if Signals e \<in> set xs then READY else WAITING_EVENT_TIMEOUT) \<and>
       (\<exists>left. os_task_timeout_get (self_tid s) (os_tasks s1) = Inr left \<and> unat left = unat T - ticks_until e xs))"
proof -
  have c: "can_wait cfg e s" using assms(1-4) by (simp add: can_wait_def)
  note w = can_waitD [OF c]
  let ?me = "unat (self_tid s)"
  obtain s0 q where s0: "OS_WAIT_SINGLE_EVENT cfg line e T None s = Inr (Returns, s0)" "os_inv cfg s0"
    "wq_elems q = insert (unat e) (pending (task_list (os_tasks s) ! ?me))"
    "os_tasks s0 = (os_tasks s)\<lparr>task_list := (task_list (os_tasks s))[?me := waiting_tcb q T line (task_list (os_tasks s) ! ?me)]\<rparr>"
    "os_msgqs s0 = os_msgqs s"
    by (rule wait_single_blocks [OF c])
  have t: "task_list (os_tasks s0) ! ?me = waiting_tcb q T line (task_list (os_tasks s) ! ?me)" using s0(4) w(4) by simp
  have "wq_elems q = {unat e}" using s0(3) assms(5) by simp
  note wt = waiting_tcb_timed [OF this assms(7), of line "task_list (os_tasks s) ! ?me", folded t]
  have "?me < unat (nTasks (os_tasks s0))" "unat e \<notin> change_events s0"
    using assms(2,6) s0(4,5) by (simp_all add: word_less_nat_alt change_events_def)
  then obtain s1 where s1: "foldR (stimulate cfg) xs s0 = Inr s1" "os_inv cfg s1"
    "timed_result e xs T (task_list (os_tasks s1) ! ?me)"
    using timed_wait_run [OF s0(2) w(6) assms(8) _ wt(1)] wt(2) by auto
  have "?me < length (task_list (os_tasks s1))"
    using w(4) os_invD(1) [OF s1(2)] os_invD(1) [OF w(1)] by (simp add: task_inv_def)
  from timed_get [OF s1(3) this] show ?thesis using s0(1) s1(1) by blast
qed

theorem timeout_tells_cause_witness:
  "\<exists>s0 s1. OS_WAIT_SINGLE_EVENT demo_cfg 40 0 3 None demo_boot = Inr (Returns, s0) \<and>
    foldR (stimulate demo_cfg) [Clock, Signals 1, Signals 0, Clock, Clock] s0 = Inr s1 \<and>
    tcb_state (task_list (os_tasks s1) ! 0) = READY \<and>
    (\<exists>left. os_task_timeout_get 0 (os_tasks s1) = Inr left \<and> unat left = 2)"
proof -
  have me: "self_tid demo_boot = 0" "nEvents (os_events demo_boot) = 2" "change_events demo_boot = {1}"
    by (simp_all add: self_tid_def os_get_running_tid_def demo_boot_def demo_msg_os_def demo_os_def demo_msgqs_def
      change_events_def lessThan_Suc)
  have p: "pending (task_list (os_tasks demo_boot) ! unat (self_tid demo_boot)) = {}"
    unfolding me by (simp add: demo_boot_def pending_def wq_elems_empty)
  have "self_tid demo_boot < nTasks (os_tasks demo_boot)" "(0 :: u8) < nEvents (os_events demo_boot)"
    "unat (0 :: u8) < event_cap demo_cfg" "unat (0 :: u8) \<notin> change_events demo_boot" "(3 :: u32) \<noteq> 0"
    "\<forall>x \<in> set [Clock, Signals 1, Signals 0, Clock, Clock]. stimulus_ok demo_cfg x"
    by (simp_all add: me demo_boot_inv(2))
  note h = timeout_tells_cause [OF demo_boot_inv(1) this(1-3) p this(4-6), of 40]
  have k: "ticks_until 0 [Clock, Signals 1, Signals 0, Clock, Clock] = 1" by simp
  show ?thesis using h unfolding me k by auto
qed

text \<open>C33: a task that is suspended while it waits for events does not see the signals of that time: it is
  resumed into the same wait for the same events, even though every one of them was signalled and the
  signals would have woken it had it not been suspended. (\<open>os_task_suspend\<close> guards against this for
  semaphores only, so a receiver or a poster on a message queue can wait on with the queue ready.)\<close>

theorem suspended_misses_signals:
  assumes "task_inv cfg s" and "tid < nTasks s" and "event_waiting (task_list s ! unat tid)"
    and "pending (task_list s ! unat tid) \<noteq> {}" and "pending (task_list s ! unat tid) \<subseteq> unat ` set es"
    and "\<forall>e \<in> set es. unat e < event_cap cfg"
  shows "(\<exists>s1 s2 s3. os_task_suspend tid s = Inr s1 \<and> foldR (os_task_signal_event cfg) es s1 = Inr s2 \<and>
      os_task_resume tid s2 = Inr s3 \<and> tcb_state (task_list s3 ! unat tid) = tcb_state (task_list s ! unat tid) \<and>
      pending (task_list s3 ! unat tid) = pending (task_list s ! unat tid)) \<and>
    (\<exists>s'. foldR (os_task_signal_event cfg) es s = Inr s' \<and> tcb_state (task_list s' ! unat tid) = READY)"
proof
  let ?t = "task_list s ! unat tid"
  have i: "unat tid < length (task_list s)" by (rule task_inv_index [OF assms(1,2)])
  have n: "unat tid < unat (nTasks s)" using assms(2) by (simp add: word_less_nat_alt)
  let ?t1 = "?t\<lparr>tcb_savedState := tcb_state ?t, tcb_state := SUSPENDED\<rparr>"
  let ?s1 = "s\<lparr>task_list := (task_list s)[unat tid := ?t1]\<rparr>"
  have r1: "os_task_suspend tid s = Inr ?s1"
    using i assms(2,3) by (auto simp: os_task_suspend_def task_suspended_set_def event_waiting_def)
  have k1: "task_kept cfg s ?s1" by (rule keepsD [OF keeps_suspend assms(1) r1])
  have "\<exists>s'. foldR (os_task_signal_event cfg) es ?s1 = Inr s' \<and> task_kept cfg ?s1 s' \<and> task_list s' ! unat tid = task_list ?s1 ! unat tid"
    using i n task_keptD [OF k1] by (intro signals_not_waiting assms(6)) (simp_all add: event_waiting_def)
  then obtain s2 where s2: "foldR (os_task_signal_event cfg) es ?s1 = Inr s2" "task_kept cfg ?s1 s2" "task_list s2 ! unat tid = ?t1"
    using i by auto
  have "tid < nTasks s2" "unat tid < length (task_list s2)"
    using assms(2) i task_keptD(2) [OF s2(2)] task_kept_length [OF s2(2)] by simp_all
  then have "os_task_resume tid s2 = Inr (s2\<lparr>task_list := (task_list s2)[unat tid := ?t1\<lparr>tcb_state := tcb_state ?t\<rparr>]\<rparr>)"
    using s2(3) by (simp add: os_task_resume_def)
  then show "\<exists>s1 s2 s3. os_task_suspend tid s = Inr s1 \<and> foldR (os_task_signal_event cfg) es s1 = Inr s2 \<and>
      os_task_resume tid s2 = Inr s3 \<and> tcb_state (task_list s3 ! unat tid) = tcb_state ?t \<and>
      pending (task_list s3 ! unat tid) = pending ?t"
    using r1 s2(1) \<open>unat tid < length (task_list s2)\<close> by (simp add: pending_def)
next
  have "woken (tcb_waitSingleEvent (task_list s ! unat tid)) (pending (task_list s ! unat tid)) (unat ` set es)"
    using assms(4,5) by (auto simp: woken_def)
  then show "\<exists>s'. foldR (os_task_signal_event cfg) es s = Inr s' \<and> tcb_state (task_list s' ! unat tid) = READY"
    using signals_run [OF assms(1) _ assms(3,4,6)] assms(2) by (auto simp: word_less_nat_alt)
qed

theorem suspended_misses_signals_witness:
  "\<exists>s1 s2 s3. os_task_suspend 1 demo_waiting = Inr s1 \<and> foldR (os_task_signal_event demo_cfg) [0, 2] s1 = Inr s2 \<and>
     os_task_resume 1 s2 = Inr s3 \<and> tcb_state (task_list s3 ! 1) = WAITING_EVENT"
proof -
  have "unat (1 :: u8) = 1" "(1 :: u8) < nTasks demo_waiting" "\<forall>e \<in> set [0, 2 :: u8]. unat e < event_cap demo_cfg" by simp_all
  moreover have "event_waiting (task_list demo_waiting ! unat (1 :: u8))" by (simp add: event_waiting_def)
  ultimately show ?thesis
    using suspended_misses_signals [OF demo_waiting_inv, of 1 "[0, 2]"] by auto
qed

end
