(* ===== verification/Os_Handoff.thy ===== *)
theory Os_Handoff
  imports Os_Wakeup
begin

text \<open>
  A message on its way from one task to another: the receiver finds its queue empty and gives up the
  processor, a post wakes it, and it goes on with the message. Message queues, events and tasks together.
\<close>

section \<open>The steps of the macros\<close>

text \<open>The queue of a task, and the event that is signalled when it changes.\<close>

definition has_queue :: "config \<Rightarrow> u8 \<Rightarrow> u8 \<Rightarrow> os \<Rightarrow> bool" where
  "has_queue cfg task_id queue s \<longleftrightarrow>
     os_msgQ_find cfg task_id (os_msgqs s) = Inr queue \<and> queue < nQueues (os_msgqs s) \<and> 0 < N_QUEUES cfg"

definition change_of :: "u8 \<Rightarrow> os \<Rightarrow> u8" where
  "change_of queue s = mq_change (msgQList (os_msgqs s) ! unat queue)"

text \<open>A well-formed kernel in which a task runs.\<close>

definition in_task :: "config \<Rightarrow> os \<Rightarrow> bool" where
  "in_task cfg s \<longleftrightarrow> os_inv cfg s \<and> self_tid s < nTasks (os_tasks s)"

lemma in_taskD:
  assumes "in_task cfg s"
  shows "os_inv cfg s" "self_tid s < nTasks (os_tasks s)" "unat (self_tid s) < length (task_list (os_tasks s))"
    "unat (self_tid s) < unat (nTasks (os_tasks s))"
proof -
  show a: "os_inv cfg s" "self_tid s < nTasks (os_tasks s)" using assms by (simp_all add: in_task_def)
  show "unat (self_tid s) < length (task_list (os_tasks s))" by (rule task_inv_index [OF os_invD(1) [OF a(1)] a(2)])
  show "unat (self_tid s) < unat (nTasks (os_tasks s))" using a(2) by (simp add: word_less_nat_alt)
qed

lemma change_of_ok:
  assumes "os_inv cfg s" and "has_queue cfg t queue s"
  shows "change_of queue s < nEvents (os_events s)" "unat (change_of queue s) < event_cap cfg"
    "msgq_inv cfg (os_msgqs s)" "queue < nQueues (os_msgqs s)" "unat queue < length (msgQList (os_msgqs s))"
proof -
  have q: "queues_inv cfg s" and l: "queue < nQueues (os_msgqs s)"
    using assms os_invD(4) [OF assms(1)] by (simp_all add: has_queue_def)
  then show "change_of queue s < nEvents (os_events s)" "unat (change_of queue s) < event_cap cfg"
    "msgq_inv cfg (os_msgqs s)" "queue < nQueues (os_msgqs s)"
    by (simp_all add: queues_inv_def change_of_def word_less_nat_alt)
  then show "unat queue < length (msgQList (os_msgqs s))" using msgq_invD(1) by blast
qed

definition noted :: "u8 \<Rightarrow> u8 \<Rightarrow> tcb \<Rightarrow> tcb" where
  "noted queue event t = t\<lparr>tcb_waitQ := queue, tcb_msgChangeEvent := event\<rparr>"

lemma prologue_at:
  assumes "in_task cfg s" and "has_queue cfg t queue s"
  obtains s' where "queue_prologue cfg t s = Inr (change_of queue s, s')" "in_task cfg s'" "self_tid s' = self_tid s"
    "s' = s\<lparr>os_tasks := (os_tasks s)\<lparr>task_list := (task_list (os_tasks s))
       [unat (self_tid s) := noted queue (change_of queue s) (task_list (os_tasks s) ! unat (self_tid s))]\<rparr>\<rparr>"
proof -
  note i = in_taskD [OF assms(1)]
  note q = change_of_ok [OF i(1) assms(2)]
  let ?s' = "s\<lparr>os_tasks := (os_tasks s)\<lparr>task_list := (task_list (os_tasks s))
       [unat (self_tid s) := noted queue (change_of queue s) (task_list (os_tasks s) ! unat (self_tid s))]\<rparr>\<rparr>"
  have f: "os_msgQ_find cfg t (os_msgqs s) = Inr queue" "0 < N_QUEUES cfg" using assms(2) by (simp_all add: has_queue_def)
  have "\<not> nQueues (os_msgqs s) \<le> queue" using q(4) by simp
  then have e: "os_msgQ_event_get cfg queue (os_msgqs s) = Inr (change_of queue s)"
    using q(5) f(2) by (simp add: os_msgQ_event_get_def change_of_def)
  have r: "queue_prologue cfg t s = Inr (change_of queue s, ?s')"
    unfolding noted_def using i(3) f(1) e
    by (simp add: queue_prologue_def on_tasks_def os_task_set_wait_queue_def os_task_set_change_event_def self_tid_def os_get_running_tid_def)
  have k: "os_kept cfg s ?s'" using okeepsD [OF okeeps_prologue i(1) r] by simp
  have me: "self_tid ?s' = self_tid s" by (simp add: self_tid_def os_get_running_tid_def)
  have "in_task cfg ?s'" using os_keptD [OF k] i(2) me by (simp add: in_task_def)
  then show ?thesis using that [OF r] me by simp
qed

lemma signal_change_at:
  assumes "os_inv cfg s" and "e < nEvents (os_events s)" and "unat e < event_cap cfg"
  obtains s' where "signal_change cfg e s = Inr s'" "os_inv cfg s'" "os_msgqs s' = os_msgqs s" "os_kern s' = os_kern s"
    "nTasks (os_tasks s') = nTasks (os_tasks s)"
    "\<forall>i < unat (nTasks (os_tasks s)). task_list (os_tasks s') ! i = sig_tcb e (task_list (os_tasks s) ! i)"
proof -
  note ti = os_invD(1) [OF assms(1)]
  obtain t where t: "os_task_signal_event cfg e (os_tasks s) = Inr t" "task_kept cfg (os_tasks s) t"
    "\<forall>i < length (task_list (os_tasks s)). task_list t ! i =
       (if i < unat (nTasks (os_tasks s)) then sig_tcb e (task_list (os_tasks s) ! i) else task_list (os_tasks s) ! i)"
    by (rule signal_event_at [OF ti assms(3)])
  have ev: "unat e < length (eventList (os_events s))" "0 < N_TOTAL_EVENTS cfg"
    using os_invD(3) [OF assms(1)] assms(2) by (auto simp: event_inv_def word_less_nat_alt)
  obtain s' where s': "signal_change cfg e s = Inr s'" "os_tasks s' = t" "os_msgqs s' = os_msgqs s" "os_kern s' = os_kern s"
    using ev t(1) by (simp add: signal_change_def os_signal_event_eq on_events_def os_event_set_signaling_tid_def)
  show ?thesis
    by (rule that [OF s'(1)])
      (use s' t task_keptD(2) [OF t(2)] os_keptD [OF okeepsD [OF okeeps_signal_change assms(1) s'(1)]]
        task_inv_bounds(1) [OF ti] in auto)
qed

section \<open>The macros when they wait\<close>

text \<open>The control block of a task that waits at a line for a change of a queue, with the event \<open>e\<close> as the only one awaited.\<close>

definition blocked_on :: "nat \<Rightarrow> u8 \<Rightarrow> u8 \<Rightarrow> tcb \<Rightarrow> bool" where
  "blocked_on line e r t \<longleftrightarrow> tcb_state t = WAITING_EVENT \<and> pending t = {unat e} \<and>
     tcb_msgResult t = r \<and> tcb_msgChangeEvent t = e \<and> tcb_internal_state t = of_nat line"

lemma sig_tcb_blocked:
  assumes "blocked_on line e r t"
  shows "tcb_state (sig_tcb e t) = READY" "tcb_msgResult (sig_tcb e t) = r"
    "tcb_msgChangeEvent (sig_tcb e t) = e" "tcb_internal_state (sig_tcb e t) = of_nat line"
  using assms by (simp_all add: blocked_on_def sig_tcb_def event_waiting_def cleared_def)

text \<open>The wait of both macros: the result is recorded, and the task waits for the change event it has noted.\<close>

lemma notes_and_waits:
  assumes "in_task cfg s" and "can_wait cfg e s"
    and "pending (task_list (os_tasks s) ! unat (self_tid s)) = {}" and "tcb_msgChangeEvent (task_list (os_tasks s) ! unat (self_tid s)) = e"
  obtains s2 s3 where "on_tasks (os_task_set_msg_result (self_tid s) r) s = Inr s2"
    "OS_WAIT_SINGLE_EVENT cfg line e 0 None s2 = Inr (Returns, s3)" "os_inv cfg s3"
    "os_msgqs s3 = os_msgqs s" "nTasks (os_tasks s3) = nTasks (os_tasks s)" "os_get_running_tid s3 = NO_TID"
    "nEvents (os_events s3) = nEvents (os_events s)"
    "blocked_on line e r (task_list (os_tasks s3) ! unat (self_tid s))"
    "\<forall>i. i \<noteq> unat (self_tid s) \<longrightarrow> task_list (os_tasks s3) ! i = task_list (os_tasks s) ! i"
proof -
  let ?me = "unat (self_tid s)"
  note i = in_taskD [OF assms(1)] and q = can_waitD [OF assms(2)]
  let ?t2 = "(task_list (os_tasks s) ! ?me)\<lparr>tcb_msgResult := r\<rparr>"
  let ?s2 = "s\<lparr>os_tasks := (os_tasks s)\<lparr>task_list := (task_list (os_tasks s))[?me := ?t2]\<rparr>\<rparr>"
  have set: "on_tasks (os_task_set_msg_result (self_tid s) r) s = Inr ?s2"
    using i(3) by (simp add: on_tasks_def os_task_set_msg_result_def)
  have inv2: "os_inv cfg ?s2"
    by (rule os_inv_on_tasks [OF i(1) _ set]) (rule keeps_setters)
  have me2: "self_tid ?s2 = self_tid s" by (simp add: self_tid_def os_get_running_tid_def)
  have t2: "task_list (os_tasks ?s2) ! ?me = ?t2" using i(3) by simp
  have c: "can_wait cfg e ?s2" using inv2 me2 q by (simp add: can_wait_def)
  obtain s3 qq where s3: "OS_WAIT_SINGLE_EVENT cfg line e 0 None ?s2 = Inr (Returns, s3)" "os_inv cfg s3"
    "wq_elems qq = insert (unat e) (pending ?t2)"
    "os_tasks s3 = (os_tasks ?s2)\<lparr>task_list := (task_list (os_tasks ?s2))[?me := waiting_tcb qq 0 line ?t2]\<rparr>"
    "os_msgqs s3 = os_msgqs ?s2" "os_get_running_tid s3 = NO_TID" "nEvents (os_events s3) = nEvents (os_events ?s2)"
    by (rule wait_single_blocks [OF c, of line 0, unfolded me2 t2])
  have b: "blocked_on line e r (task_list (os_tasks s3) ! ?me)"
    using s3(3,4) i(3) assms(3,4) by (simp add: blocked_on_def waiting_tcb_def waited_tcb_def pending_def)
  show ?thesis
    by (rule that [OF set s3(1,2)]) (use s3 b in \<open>simp_all add: nth_list_update_neq\<close>)
qed

text \<open>With the prologue before it, and the queues untouched between.\<close>

lemma waits_for_change:
  assumes "in_task cfg s" and "has_queue cfg t queue s" and "pending (task_list (os_tasks s) ! unat (self_tid s)) = {}"
  obtains s1 s2 s3 where "queue_prologue cfg t s = Inr (change_of queue s, s1)" "os_msgqs s1 = os_msgqs s" "self_tid s1 = self_tid s"
    "on_tasks (os_task_set_msg_result (self_tid s) r) s1 = Inr s2"
    "OS_WAIT_SINGLE_EVENT cfg line (change_of queue s) 0 None s2 = Inr (Returns, s3)" "os_inv cfg s3"
    "os_msgqs s3 = os_msgqs s" "nTasks (os_tasks s3) = nTasks (os_tasks s)" "os_get_running_tid s3 = NO_TID"
    "blocked_on line (change_of queue s) r (task_list (os_tasks s3) ! unat (self_tid s))"
    "\<forall>i. i \<noteq> unat (self_tid s) \<longrightarrow> task_list (os_tasks s3) ! i = task_list (os_tasks s) ! i"
proof -
  let ?me = "unat (self_tid s)" and ?e = "change_of queue s"
  obtain s1 where s1: "queue_prologue cfg t s = Inr (?e, s1)" "in_task cfg s1" "self_tid s1 = self_tid s"
    "s1 = s\<lparr>os_tasks := (os_tasks s)\<lparr>task_list := (task_list (os_tasks s))
       [?me := noted queue ?e (task_list (os_tasks s) ! ?me)]\<rparr>\<rparr>"
    by (rule prologue_at [OF assms(1,2)])
  note i = in_taskD [OF s1(2)] and q = change_of_ok [OF in_taskD(1) [OF assms(1)] assms(2)]
  have same: "os_msgqs s1 = os_msgqs s" "os_events s1 = os_events s" "nTasks (os_tasks s1) = nTasks (os_tasks s)"
    "\<forall>i. i \<noteq> ?me \<longrightarrow> task_list (os_tasks s1) ! i = task_list (os_tasks s) ! i" using s1(4) by simp_all
  have c: "can_wait cfg ?e s1" using i(1,2) q(1,2) same(2) by (simp add: can_wait_def)
  have n: "pending (task_list (os_tasks s1) ! unat (self_tid s1)) = {}" "tcb_msgChangeEvent (task_list (os_tasks s1) ! unat (self_tid s1)) = ?e"
    using assms(3) s1(3,4) in_taskD(3) [OF assms(1)] by (simp_all add: noted_def pending_def)
  show ?thesis
    by (rule notes_and_waits [OF s1(2) c n, of r line, unfolded s1(3) same(1,3)], rule that [OF s1(1) same(1) s1(3)])
      (use same(4) in simp_all)
qed

lemma receive_blocks:
  assumes "in_task cfg s" and "has_queue cfg t queue s"
    and "pending (task_list (os_tasks s) ! unat (self_tid s)) = {}"
    and "\<forall>x \<in> set (qmsgs (queue_at (os_msgqs s) queue)). mdelay x \<noteq> 0"
  obtains s' where "OS_MSG_Q_RECEIVE cfg line t buf False None s = Inr (Returns, buf, s')" "os_inv cfg s'"
    "os_msgqs s' = os_msgqs s" "nTasks (os_tasks s') = nTasks (os_tasks s)" "os_get_running_tid s' = NO_TID"
    "blocked_on line (change_of queue s) MSG_QUEUE_EMPTY (task_list (os_tasks s') ! unat (self_tid s))"
    "\<forall>i. i \<noteq> unat (self_tid s) \<longrightarrow> task_list (os_tasks s') ! i = task_list (os_tasks s) ! i"
proof (rule waits_for_change [OF assms(1-3), of MSG_QUEUE_EMPTY line])
  fix s1 s2 s3
  assume s1: "queue_prologue cfg t s = Inr (change_of queue s, s1)" "os_msgqs s1 = os_msgqs s" "self_tid s1 = self_tid s"
    and s2: "on_tasks (os_task_set_msg_result (self_tid s) MSG_QUEUE_EMPTY) s1 = Inr s2"
    and s3: "OS_WAIT_SINGLE_EVENT cfg line (change_of queue s) 0 None s2 = Inr (Returns, s3)" "os_inv cfg s3"
    "os_msgqs s3 = os_msgqs s" "nTasks (os_tasks s3) = nTasks (os_tasks s)" "os_get_running_tid s3 = NO_TID"
    "blocked_on line (change_of queue s) MSG_QUEUE_EMPTY (task_list (os_tasks s3) ! unat (self_tid s))"
    "\<forall>i. i \<noteq> unat (self_tid s) \<longrightarrow> task_list (os_tasks s3) ! i = task_list (os_tasks s) ! i"
  have same: "s1\<lparr>os_msgqs := os_msgqs s\<rparr> = s1" using s1(2) by (cases s1) simp
  have "os_msg_receive cfg buf queue (os_msgqs s) = Inr (MSG_QUEUE_EMPTY, buf, os_msgqs s)"
    using msg_receive_none [OF change_of_ok(3,4) [OF in_taskD(1) [OF assms(1)] assms(2)] assms(4)] by simp
  then have "OS_MSG_Q_RECEIVE cfg line t buf False None s = Inr (Returns, buf, s3)"
    using s1 s2 s3(1) assms(2) by (simp add: same OS_MSG_Q_RECEIVE_def receive_round_def after_receive_def has_queue_def)
  from that [OF this s3(2-7)] show ?thesis .
qed

lemma post_blocks:
  assumes "in_task cfg s" and "has_queue cfg t queue s"
    and "pending (task_list (os_tasks s) ! unat (self_tid s)) = {}"
    and "qm (queue_at (os_msgqs s) queue) \<le> length msg"
    and "length (qmsgs (queue_at (os_msgqs s) queue)) = qn (queue_at (os_msgqs s) queue) - 1"
  obtains s' where "OS_MSG_Q_POST cfg line t msg d p False s = Inr (Returns, stamped d p msg, s')" "os_inv cfg s'"
    "os_msgqs s' = os_msgqs s" "nTasks (os_tasks s') = nTasks (os_tasks s)" "os_get_running_tid s' = NO_TID"
    "blocked_on line (change_of queue s) MSG_QUEUE_FULL (task_list (os_tasks s') ! unat (self_tid s))"
    "\<forall>i. i \<noteq> unat (self_tid s) \<longrightarrow> task_list (os_tasks s') ! i = task_list (os_tasks s) ! i"
proof (rule waits_for_change [OF assms(1-3), of MSG_QUEUE_FULL line])
  fix s1 s2 s3
  assume s1: "queue_prologue cfg t s = Inr (change_of queue s, s1)" "os_msgqs s1 = os_msgqs s" "self_tid s1 = self_tid s"
    and s2: "on_tasks (os_task_set_msg_result (self_tid s) MSG_QUEUE_FULL) s1 = Inr s2"
    and s3: "OS_WAIT_SINGLE_EVENT cfg line (change_of queue s) 0 None s2 = Inr (Returns, s3)" "os_inv cfg s3"
    "os_msgqs s3 = os_msgqs s" "nTasks (os_tasks s3) = nTasks (os_tasks s)" "os_get_running_tid s3 = NO_TID"
    "blocked_on line (change_of queue s) MSG_QUEUE_FULL (task_list (os_tasks s3) ! unat (self_tid s))"
    "\<forall>i. i \<noteq> unat (self_tid s) \<longrightarrow> task_list (os_tasks s3) ! i = task_list (os_tasks s) ! i"
  have same: "s1\<lparr>os_msgqs := os_msgqs s\<rparr> = s1" using s1(2) by (cases s1) simp
  have "os_msg_post cfg msg queue d p (os_msgqs s) = Inr (MSG_QUEUE_FULL, stamped d p msg, os_msgqs s)"
    by (rule msg_post_full [OF change_of_ok(3,4) [OF in_taskD(1) [OF assms(1)] assms(2)] assms(4,5)])
  then have "OS_MSG_Q_POST cfg line t msg d p False s = Inr (Returns, stamped d p msg, s3)"
    using s1 s2 s3(1) assms(2) by (simp add: same OS_MSG_Q_POST_def post_round_def after_post_def has_queue_def)
  from that [OF this s3(2-7)] show ?thesis .
qed

section \<open>The macros when they go on\<close>

text \<open>A round that posts, and one that receives; every other task sees one signal of the change event.\<close>

definition told :: "os \<Rightarrow> u8 \<Rightarrow> os \<Rightarrow> bool" where
  "told s e s' \<longleftrightarrow> os_kern s' = os_kern s \<and> nTasks (os_tasks s') = nTasks (os_tasks s) \<and>
     (\<forall>i < unat (nTasks (os_tasks s)). i \<noteq> unat (self_tid s) \<longrightarrow>
        task_list (os_tasks s') ! i = sig_tcb e (task_list (os_tasks s) ! i))"

text \<open>Storing the queue and telling of the change.\<close>

lemma signal_stored:
  assumes "in_task cfg s" and "has_queue cfg t queue s" and "os_kept cfg s (s\<lparr>os_msgqs := with_queue (os_msgqs s) queue x\<rparr>)"
  obtains s' where "signal_change cfg (change_of queue s) (s\<lparr>os_msgqs := with_queue (os_msgqs s) queue x\<rparr>) = Inr s'" "os_inv cfg s'"
    "os_msgqs s' = with_queue (os_msgqs s) queue x" "told s (change_of queue s) s'"
proof -
  note q = change_of_ok [OF in_taskD(1) [OF assms(1)] assms(2)]
  let ?s2 = "s\<lparr>os_msgqs := with_queue (os_msgqs s) queue x\<rparr>"
  have "os_inv cfg ?s2" "change_of queue s < nEvents (os_events ?s2)" using assms(3) q(1) by (simp_all add: os_kept_def)
  from signal_change_at [OF this q(2)] obtain s3 where s3: "signal_change cfg (change_of queue s) ?s2 = Inr s3" "os_inv cfg s3"
    "os_msgqs s3 = os_msgqs ?s2" "os_kern s3 = os_kern ?s2" "nTasks (os_tasks s3) = nTasks (os_tasks ?s2)"
    "\<forall>i < unat (nTasks (os_tasks ?s2)). task_list (os_tasks s3) ! i = sig_tcb (change_of queue s) (task_list (os_tasks ?s2) ! i)"
    by blast
  show ?thesis by (rule that [OF s3(1,2)]) (use s3(3-6) in \<open>simp_all add: told_def\<close>)
qed

lemma post_round_delivers:
  assumes "in_task cfg s" and "has_queue cfg t queue s" and "qm (queue_at (os_msgqs s) queue) \<le> length msg"
    and "length (qmsgs (queue_at (os_msgqs s) queue)) < qn (queue_at (os_msgqs s) queue) - 1"
  obtains s' q where "post_round cfg line t msg d p async (change_of queue s) s = Inr (Goes_on, stamped d p msg, s')" "os_inv cfg s'"
    "os_msgqs s' = with_queue (os_msgqs s) queue q"
    "qmsgs q = qmsgs (queue_at (os_msgqs s) queue) @ [take (qm (queue_at (os_msgqs s) queue)) (stamped d p msg)]"
    "q_messageSize q = q_messageSize (queue_at (os_msgqs s) queue)" "told s (change_of queue s) s'"
proof -
  note i = in_taskD(1) [OF assms(1)] and q = change_of_ok [OF in_taskD(1) [OF assms(1)] assms(2)]
  obtain x where x: "os_msg_post cfg msg queue d p (os_msgqs s) = Inr (MSG_QUEUE_POSTED, stamped d p msg, with_queue (os_msgqs s) queue x)"
    "qmsgs x = qmsgs (queue_at (os_msgqs s) queue) @ [take (qm (queue_at (os_msgqs s) queue)) (stamped d p msg)]"
    "q_messageSize x = q_messageSize (queue_at (os_msgqs s) queue)"
    using msg_post_room [OF q(3,4) assms(3,4)] by blast
  obtain s3 where s3: "signal_change cfg (change_of queue s) (s\<lparr>os_msgqs := with_queue (os_msgqs s) queue x\<rparr>) = Inr s3" "os_inv cfg s3"
    "os_msgqs s3 = with_queue (os_msgqs s) queue x" "told s (change_of queue s) s3"
    by (rule signal_stored [OF assms(1,2) os_kept_msgqs [OF i msg_post_kept [OF x(1)]]])
  have "post_round cfg line t msg d p async (change_of queue s) s = Inr (Goes_on, stamped d p msg, s3)"
    using assms(2) x(1) s3(1) by (simp add: post_round_def after_post_def has_queue_def)
  from that [OF this s3(2,3) x(2,3) s3(4)] show ?thesis .
qed

lemma receive_round_delivers:
  assumes "in_task cfg s" and "has_queue cfg t queue s" and "qm (queue_at (os_msgqs s) queue) \<le> length buf"
    and "qmsgs (queue_at (os_msgqs s) queue) = ds @ x # rest" and "\<forall>y \<in> set ds. mdelay y \<noteq> 0" and "mdelay x = 0"
  obtains s' q where "receive_round cfg line t buf async None (change_of queue s) s =
      Inr (Goes_on, delivered x @ drop (qm (queue_at (os_msgqs s) queue)) buf, s')" "os_inv cfg s'"
    "os_msgqs s' = with_queue (os_msgqs s) queue q" "qmsgs q = rest @ ds @ (if mreload x = 0 then [] else [delivered x])"
    "q_size q = q_size (queue_at (os_msgqs s) queue)" "q_messageSize q = q_messageSize (queue_at (os_msgqs s) queue)"
    "told s (change_of queue s) s'"
proof -
  note i = in_taskD(1) [OF assms(1)] and q = change_of_ok [OF in_taskD(1) [OF assms(1)] assms(2)]
  obtain y where y: "os_msg_receive cfg buf queue (os_msgqs s) =
      Inr (MSG_QUEUE_RECEIVED, delivered x @ drop (qm (queue_at (os_msgqs s) queue)) buf, with_queue (os_msgqs s) queue y)"
    "qmsgs y = rest @ ds @ (if mreload x = 0 then [] else [delivered x])"
    "q_size y = q_size (queue_at (os_msgqs s) queue)" "q_messageSize y = q_messageSize (queue_at (os_msgqs s) queue)"
    using msg_receive_due [OF q(3,4) assms(3-6)] by blast
  obtain s3 where s3: "signal_change cfg (change_of queue s) (s\<lparr>os_msgqs := with_queue (os_msgqs s) queue y\<rparr>) = Inr s3" "os_inv cfg s3"
    "os_msgqs s3 = with_queue (os_msgqs s) queue y" "told s (change_of queue s) s3"
    by (rule signal_stored [OF assms(1,2) os_kept_msgqs [OF i msg_receive_kept [OF y(1)]]])
  have "receive_round cfg line t buf async None (change_of queue s) s =
      Inr (Goes_on, delivered x @ drop (qm (queue_at (os_msgqs s) queue)) buf, s3)"
    using assms(2) y(1) s3(1) by (simp add: receive_round_def after_receive_def has_queue_def)
  from that [OF this s3(2,3) y(2-4) s3(4)] show ?thesis .
qed

text \<open>The first round starts after the prologue, a later one with what the task has noted.\<close>

lemma prologue_round:
  assumes "in_task cfg s" and "has_queue cfg t queue s"
  obtains s1 where "queue_prologue cfg t s = Inr (change_of queue s, s1)" "in_task cfg s1" "has_queue cfg t queue s1"
    "os_msgqs s1 = os_msgqs s" "change_of queue s1 = change_of queue s" "\<forall>e s'. told s1 e s' \<longrightarrow> told s e s'"
proof -
  obtain s1 where s1: "queue_prologue cfg t s = Inr (change_of queue s, s1)" "in_task cfg s1" "self_tid s1 = self_tid s"
    "s1 = s\<lparr>os_tasks := (os_tasks s)\<lparr>task_list := (task_list (os_tasks s))
       [unat (self_tid s) := noted queue (change_of queue s) (task_list (os_tasks s) ! unat (self_tid s))]\<rparr>\<rparr>"
    by (rule prologue_at [OF assms])
  have same: "os_msgqs s1 = os_msgqs s" "os_kern s1 = os_kern s" "nTasks (os_tasks s1) = nTasks (os_tasks s)"
    "\<And>i. i \<noteq> unat (self_tid s) \<Longrightarrow> task_list (os_tasks s1) ! i = task_list (os_tasks s) ! i"
    using s1(4) by simp_all
  show ?thesis
    by (rule that [OF s1(1,2)]) (use assms(2) same s1(3) in \<open>simp_all add: has_queue_def change_of_def told_def\<close>)
qed

lemma post_delivers:
  assumes "in_task cfg s" and "has_queue cfg t queue s" and "qm (queue_at (os_msgqs s) queue) \<le> length msg"
    and "length (qmsgs (queue_at (os_msgqs s) queue)) < qn (queue_at (os_msgqs s) queue) - 1"
  obtains s' q where "OS_MSG_Q_POST cfg line t msg d p async s = Inr (Goes_on, stamped d p msg, s')" "os_inv cfg s'"
    "os_msgqs s' = with_queue (os_msgqs s) queue q"
    "qmsgs q = qmsgs (queue_at (os_msgqs s) queue) @ [take (qm (queue_at (os_msgqs s) queue)) (stamped d p msg)]"
    "q_messageSize q = q_messageSize (queue_at (os_msgqs s) queue)" "told s (change_of queue s) s'"
proof -
  obtain s1 where s1: "queue_prologue cfg t s = Inr (change_of queue s, s1)" "in_task cfg s1" "has_queue cfg t queue s1"
    "os_msgqs s1 = os_msgqs s" "change_of queue s1 = change_of queue s" "\<forall>e s'. told s1 e s' \<longrightarrow> told s e s'"
    by (rule prologue_round [OF assms(1,2)])
  show ?thesis
    by (rule post_round_delivers [OF s1(2,3), unfolded s1(4,5), OF assms(3,4), of line d p async])
      (rule that, simp add: OS_MSG_Q_POST_def s1(1), assumption+, use s1(6) in blast)
qed

lemma receive_delivers:
  assumes "in_task cfg s" and "has_queue cfg t queue s" and "qm (queue_at (os_msgqs s) queue) \<le> length buf"
    and "qmsgs (queue_at (os_msgqs s) queue) = ds @ x # rest" and "\<forall>y \<in> set ds. mdelay y \<noteq> 0" and "mdelay x = 0"
  obtains s' q where "OS_MSG_Q_RECEIVE cfg line t buf async None s =
      Inr (Goes_on, delivered x @ drop (qm (queue_at (os_msgqs s) queue)) buf, s')" "os_inv cfg s'"
    "os_msgqs s' = with_queue (os_msgqs s) queue q" "qmsgs q = rest @ ds @ (if mreload x = 0 then [] else [delivered x])"
    "q_size q = q_size (queue_at (os_msgqs s) queue)" "q_messageSize q = q_messageSize (queue_at (os_msgqs s) queue)"
    "told s (change_of queue s) s'"
proof -
  obtain s1 where s1: "queue_prologue cfg t s = Inr (change_of queue s, s1)" "in_task cfg s1" "has_queue cfg t queue s1"
    "os_msgqs s1 = os_msgqs s" "change_of queue s1 = change_of queue s" "\<forall>e s'. told s1 e s' \<longrightarrow> told s e s'"
    by (rule prologue_round [OF assms(1,2)])
  show ?thesis
    by (rule receive_round_delivers [OF s1(2,3), unfolded s1(4,5), OF assms(3-6), of line async])
      (rule that, simp add: OS_MSG_Q_RECEIVE_def s1(1), assumption+, use s1(6) in blast)
qed

text \<open>The notes of a task that has been woken.\<close>

definition noted_on :: "u8 \<Rightarrow> u8 \<Rightarrow> os \<Rightarrow> bool" where
  "noted_on e r s \<longleftrightarrow> tcb_msgResult (task_list (os_tasks s) ! unat (self_tid s)) = r \<and>
     tcb_msgChangeEvent (task_list (os_tasks s) ! unat (self_tid s)) = e"

lemma again_rounds:
  assumes "in_task cfg s"
  shows "noted_on e MSG_QUEUE_EMPTY s \<Longrightarrow> OS_MSG_Q_RECEIVE_resume cfg line t buf async cb s = receive_round cfg line t buf async cb e s"
    and "noted_on e MSG_QUEUE_FULL s \<Longrightarrow> OS_MSG_Q_POST_resume cfg line t msg d p async s = post_round cfg line t msg d p async e s"
  using in_taskD(3) [OF assms]
  by (simp_all add: OS_MSG_Q_RECEIVE_resume_def OS_MSG_Q_POST_resume_def os_task_get_msg_result_def os_task_get_change_event_def noted_on_def)

end
