(* ===== verification/Os_Resume.thy ===== *)
theory Os_Resume
  imports Os_Calls
begin

text \<open>
  What the operations on the task table do to every single task, as a relation between its control block
  before and after: the contract a relation has to meet, and what it then holds for. Two relations meet
  it: a task keeps its procedure, data, priority, id, queue and the line where it goes on (but for the
  recording of a resume point and the reset of a task that is suspended while it waits for a semaphore);
  and only \<open>OS_WAIT_SEM\<close> makes a task wait for a semaphore.
\<close>

section \<open>Relations between control blocks\<close>

definition table_rel :: "(nat \<Rightarrow> tcb \<Rightarrow> tcb \<Rightarrow> bool) \<Rightarrow> task_st \<Rightarrow> task_st \<Rightarrow> bool" where
  "table_rel R s s' \<longleftrightarrow> length (task_list s') = length (task_list s) \<and>
     (\<forall>j < length (task_list s). R j (task_list s ! j) (task_list s' ! j))"

definition leaves :: "(nat \<Rightarrow> tcb \<Rightarrow> tcb \<Rightarrow> bool) \<Rightarrow> (task_st \<Rightarrow> task_st res) \<Rightarrow> bool" where
  "leaves R f \<longleftrightarrow> (\<forall>s s'. f s = Inr s' \<longrightarrow> table_rel R s s')"

lemma leavesI: "(\<And>s s'. f s = Inr s' \<Longrightarrow> table_rel R s s') \<Longrightarrow> leaves R f"
  unfolding leaves_def by blast

lemma leavesD: "leaves R f \<Longrightarrow> f s = Inr s' \<Longrightarrow> table_rel R s s'"
  unfolding leaves_def by blast

lemma table_rel_mono: "table_rel R s s' \<Longrightarrow> (\<And>j t t'. R j t t' \<Longrightarrow> Q j t t') \<Longrightarrow> table_rel Q s s'"
  by (simp add: table_rel_def)

lemma leaves_assert: "leaves R f \<Longrightarrow> leaves R (\<lambda>s. os_assert (b s) e (f s))"
  by (rule leavesI) (auto simp: os_assert_eq_Inr dest: leavesD)

lemma leaves_if: "leaves R f \<Longrightarrow> leaves R g \<Longrightarrow> leaves R (\<lambda>s. if b s then f s else g s)"
  by (rule leavesI) (auto dest: leavesD split: if_splits)

lemma leaves_if_const: "(b \<Longrightarrow> leaves R f) \<Longrightarrow> (\<not> b \<Longrightarrow> leaves R g) \<Longrightarrow> leaves R (\<lambda>s. if b then f s else g s)"
  by (cases b) simp_all

lemma leaves_get: "(\<And>x s0. g s0 = Inr x \<Longrightarrow> leaves R (f x)) \<Longrightarrow> leaves R (\<lambda>s. bindR (g s) (\<lambda>x. f x s))"
  by (rule leavesI) (auto simp: bindR_eq_Inr dest: leavesD)

text \<open>Any reflexive and transitive relation goes through sequences and loops.\<close>

locale table_preorder =
  fixes R :: "nat \<Rightarrow> tcb \<Rightarrow> tcb \<Rightarrow> bool"
  assumes refl: "R j t t"
    and trans: "R j t t1 \<Longrightarrow> R j t1 t2 \<Longrightarrow> R j t t2"
begin

lemma table_refl: "table_rel R s s"
  by (simp add: table_rel_def refl)

lemma table_trans: "table_rel R s s1 \<Longrightarrow> table_rel R s1 s2 \<Longrightarrow> table_rel R s s2"
  by (auto simp: table_rel_def intro: trans)

lemma leaves_Inr: "leaves R Inr"
  by (rule leavesI) (simp add: table_refl)

lemma leaves_seq: "leaves R f \<Longrightarrow> leaves R g \<Longrightarrow> leaves R (\<lambda>s. bindR (f s) g)"
  by (rule leavesI) (auto simp: bindR_eq_Inr intro: table_trans dest: leavesD)

lemma leaves_mod: "(\<And>t. R i t (f t)) \<Longrightarrow> leaves R (mod_tcb i f)"
  by (rule leavesI) (auto simp: mod_tcb_eq_Inr table_rel_def nth_list_update refl)

lemma leaves_foldR: "(\<And>i. leaves R (f i)) \<Longrightarrow> leaves R (foldR f is)"
proof (induction "is")
  case Nil
  have "foldR f [] = Inr" by (rule ext) simp
  then show ?case by (simp add: leaves_Inr)
next
  case (Cons i js)
  have "leaves R (\<lambda>s. bindR (f i s) (foldR f js))" using Cons by (intro leaves_seq) auto
  moreover have "foldR f (i # js) = (\<lambda>s. bindR (f i s) (foldR f js))" by (rule ext) simp
  ultimately show ?case by simp
qed

lemma leaves_for_ne: "(\<And>i. leaves R (f i)) \<Longrightarrow> leaves R (\<lambda>s. for_ne 0 (n s) f s)"
  using leavesD [OF leaves_foldR [of "\<lambda>j. f (of_nat j)"]] by (intro leavesI) (auto simp: for_ne_fold)

lemmas leaves_rules = leaves_Inr leaves_assert leaves_if leaves_seq leaves_get leaves_mod leaves_for_ne

text \<open>Waiting for several events is waiting for each.\<close>

lemma leaves_wait_args:
  assumes "\<And>e. leaves R (os_task_wait_event tid e (\<not> waitForAll) 0)"
  shows "leaves R (wait_args tid waitForAll event args)"
proof (induction args arbitrary: event)
  case Nil
  show ?case by (rule leavesI) (auto simp: bindR_eq_Inr)
next
  case (Cons arg args)
  have "leaves R (\<lambda>s. bindR (os_task_wait_event tid (word_of_int event) (\<not> waitForAll) 0 s) (\<lambda>s1.
       if arg \<noteq> 255 then wait_args tid waitForAll arg args s1 else Inr s1))"
    by (intro leaves_rules assms Cons.IH)
  then show ?case by (simp cong: if_cong)
qed

end

text \<open>
  The contract: in addition met by every update of a field. A task gets another state
  than \<open>WAITING_SEM\<close>, or the one saved when it was suspended, which is never \<open>WAITING_SEM\<close>.
\<close>

locale task_relation = table_preorder +
  assumes upd_state: "x \<noteq> WAITING_SEM \<Longrightarrow> R j t (t\<lparr>tcb_state := x\<rparr>)"
    and upd_saved: "x \<noteq> WAITING_SEM \<Longrightarrow> R j t (t\<lparr>tcb_savedState := x\<rparr>)"
    and upd_resume: "R j t (t\<lparr>tcb_state := tcb_savedState t\<rparr>)"
    and upd_time: "R j t (t\<lparr>tcb_time := y\<rparr>)"
    and upd_wait: "R j t (t\<lparr>tcb_waitQ := d\<rparr>)" "R j t (t\<lparr>tcb_msgChangeEvent := d\<rparr>)" "R j t (t\<lparr>tcb_msgResult := d\<rparr>)"
      "R j t (t\<lparr>tcb_waitSingleEvent := b\<rparr>)" "R j t (t\<lparr>tcb_clockId := d\<rparr>)" "R j t (t\<lparr>tcb_eventQueue := q\<rparr>)"
begin

lemmas updates = upd_state upd_saved upd_resume upd_time upd_wait

text \<open>The operations.\<close>

lemma leaves_setters:
  "leaves R (task_suspended_set tid)" "leaves R (task_waiting_time_set tid)"
  "leaves R (task_waiting_event_set tid)" "leaves R (task_waiting_event_timeout_set tid)"
  "leaves R (os_task_set_wait_queue tid q)" "leaves R (os_task_set_change_event tid e)" "leaves R (os_task_set_msg_result tid r)"
  "leaves R (os_task_kill tid)" "leaves R (task_ready_set tid)"
  unfolding task_suspended_set_def [abs_def] task_waiting_time_set_def [abs_def]
    task_waiting_event_set_def [abs_def] task_waiting_event_timeout_set_def [abs_def]
    os_task_set_wait_queue_def [abs_def] os_task_set_change_event_def [abs_def] os_task_set_msg_result_def [abs_def]
    os_task_kill_def [abs_def] task_ready_set_def [abs_def]
  by (intro leaves_rules updates | simp)+

lemma two_updates:
  "R j t (t\<lparr>tcb_clockId := d, tcb_time := y\<rparr>)" "R j t (t\<lparr>tcb_eventQueue := q, tcb_waitSingleEvent := b\<rparr>)"
proof -
  show "R j t (t\<lparr>tcb_clockId := d, tcb_time := y\<rparr>)" by (rule trans [OF upd_wait(5) [of j t d]]) (simp add: upd_time)
  show "R j t (t\<lparr>tcb_eventQueue := q, tcb_waitSingleEvent := b\<rparr>)"
    by (rule trans [OF upd_wait(6) [of j t q]]) (simp add: upd_wait(4))
qed

lemma leaves_wait_time_set: "leaves R (os_task_wait_time_set tid cid time)"
  unfolding os_task_wait_time_set_def [abs_def] by (intro leaves_rules leaves_setters two_updates)

lemma leaves_resume: "leaves R (os_task_resume tid)"
proof (rule leavesI)
  fix s s' assume "os_task_resume tid s = Inr s'"
  then have "s' = s \<or> unat tid < length (task_list s) \<and>
      s' = s\<lparr>task_list := (task_list s)[unat tid := (task_list s ! unat tid)\<lparr>tcb_state := tcb_savedState (task_list s ! unat tid)\<rparr>]\<rparr>"
    by (auto simp: os_task_resume_def res_simps split: if_split_asm)
  then show "table_rel R s s'" by (auto simp: table_rel_def refl nth_list_update upd_resume)
qed

text \<open>A task that is suspended while it waits for a semaphore starts again from the beginning.\<close>

lemma leaves_suspend:
  assumes "\<And>t. R (unat tid) t (t\<lparr>tcb_internal_state := 0\<rparr>)"
  shows "leaves R (os_task_suspend tid)"
proof -
  have reset: "R (unat tid) t (t\<lparr>tcb_savedState := READY, tcb_internal_state := 0\<rparr>)" for t
    using trans [OF upd_saved assms, of READY t] by simp
  show ?thesis
    unfolding os_task_suspend_def [abs_def] Let_def
    by (intro leaves_assert leaves_get leaves_seq leaves_if leaves_if_const leaves_mod leaves_Inr leaves_setters updates reset) auto
qed

lemma leaves_clear_wait_queue: "leaves R (os_task_clear_wait_queue cfg tid)"
  unfolding os_task_clear_wait_queue_def [abs_def] by (intro leaves_rules updates)

lemma leaves_wait_event: "leaves R (os_task_wait_event tid e single timeout)"
  unfolding os_task_wait_event_def [abs_def] by (intro leaves_rules leaves_wait_time_set leaves_setters two_updates)

lemma leaves_signal_event: "leaves R (os_task_signal_event cfg e)"
  unfolding os_task_signal_event_def [abs_def] signal_event_body_def [abs_def] Let_def
  by (intro leaves_rules leaves_clear_wait_queue leaves_setters updates)

lemma leaves_release: "leaves R (os_task_release_waiting_task cfg sem)"
  unfolding os_task_release_waiting_task_def [abs_def] by (intro leaves_rules updates) simp

lemma leaves_tick_time: "leaves R (tick_time cfg c n i)"
  unfolding tick_time_def [abs_def] Let_def
  by (intro leaves_rules leaves_clear_wait_queue leaves_setters updates)

lemmas leaves_ops = leaves_setters leaves_wait_time_set leaves_resume leaves_clear_wait_queue
  leaves_wait_event leaves_signal_event leaves_release leaves_wait_args [OF leaves_wait_event] leaves_tick_time

end

section \<open>What a task is, and where it goes on\<close>

definition tcb_core :: "tcb \<Rightarrow> nat \<times> nat \<times> u8 \<times> u8 \<times> u8" where
  "tcb_core t = (tcb_taskproc t, tcb_data t, tcb_prio t, tcb_tid t, tcb_msgQ t)"

text \<open>The resume points of the tasks in \<open>X\<close> may change.\<close>

definition core_rel :: "nat set \<Rightarrow> nat \<Rightarrow> tcb \<Rightarrow> tcb \<Rightarrow> bool" where
  "core_rel X j t t' \<longleftrightarrow> tcb_core t' = tcb_core t \<and> (j \<notin> X \<longrightarrow> tcb_internal_state t' = tcb_internal_state t)"

interpretation core: task_relation "core_rel X" for X
  by unfold_locales (auto simp: core_rel_def tcb_core_def)

lemma core_rel_line: "j \<in> X \<Longrightarrow> core_rel X j t (t\<lparr>tcb_internal_state := l\<rparr>)"
  by (simp add: core_rel_def tcb_core_def)

lemma core_internal_state_set: "unat tid \<in> X \<Longrightarrow> leaves (core_rel X) (os_task_internal_state_set tid st)"
  unfolding os_task_internal_state_set_def [abs_def] by (intro core.leaves_rules core_rel_line)

lemma core_suspend: "unat tid \<in> X \<Longrightarrow> leaves (core_rel X) (os_task_suspend tid)"
  by (intro core.leaves_suspend core_rel_line)

lemma core_wait_sem: "leaves (core_rel X) (task_wait_sem_set tid sem)"
  unfolding task_wait_sem_set_def [abs_def]
  by (intro core.leaves_rules) (simp_all add: core_rel_def tcb_core_def)

lemma core_rel_mono: "core_rel X j t t' \<Longrightarrow> X \<subseteq> Y \<Longrightarrow> core_rel Y j t t'"
  by (auto simp: core_rel_def)

lemma table_core_mono: "table_rel (core_rel X) s s' \<Longrightarrow> X \<subseteq> Y \<Longrightarrow> table_rel (core_rel Y) s s'"
  by (erule table_rel_mono) (erule core_rel_mono)

section \<open>Who waits for a semaphore\<close>

text \<open>Where no saved state is \<open>WAITING_SEM\<close> none becomes so, and nobody begins to wait for a semaphore.\<close>

definition sem_rel :: "nat \<Rightarrow> tcb \<Rightarrow> tcb \<Rightarrow> bool" where
  "sem_rel j t t' \<longleftrightarrow> (tcb_savedState t \<noteq> WAITING_SEM \<longrightarrow> tcb_savedState t' \<noteq> WAITING_SEM \<and>
     (tcb_state t' = WAITING_SEM \<longrightarrow> tcb_state t = WAITING_SEM \<and> tcb_semaphore t' = tcb_semaphore t))"

interpretation semw: task_relation sem_rel
  by unfold_locales (auto simp: sem_rel_def)

lemma sem_internal_state_set: "leaves sem_rel (os_task_internal_state_set tid st)"
  unfolding os_task_internal_state_set_def [abs_def] by (intro semw.leaves_rules) (simp add: sem_rel_def)

lemma sem_suspend: "leaves sem_rel (os_task_suspend tid)"
  by (intro semw.leaves_suspend) (simp add: sem_rel_def)

end
