(* ===== verification/Os_Effects.thy ===== *)
theory Os_Effects
  imports Os_Resume
begin

text \<open>
  What a call does to the tasks and to the processor, for any relation between control blocks that the
  operations on the task table meet, for other tasks and for the running one: a call that goes on leaves
  the processor alone, one that returns from the task procedure has given it up and left its line as the
  resume point, and every task is related to what it was. Interrupts leave the processor alone.
\<close>

section \<open>Effects\<close>

definition kern_after :: "ctl \<Rightarrow> kernel_st \<Rightarrow> kernel_st" where
  "kern_after c k = (if c = Returns then k\<lparr>running_tid := NO_TID\<rparr> else k)"

text \<open>With \<open>b\<close> the semaphores are unchanged, too.\<close>

definition undisturbed :: "(nat \<Rightarrow> tcb \<Rightarrow> tcb \<Rightarrow> bool) \<Rightarrow> bool \<Rightarrow> os \<Rightarrow> os \<Rightarrow> bool" where
  "undisturbed R b s s' \<longleftrightarrow> os_kern s' = os_kern s \<and> table_rel R (os_tasks s) (os_tasks s') \<and> (b \<longrightarrow> os_sems s' = os_sems s)"

definition ended :: "nat option \<Rightarrow> (nat \<Rightarrow> tcb \<Rightarrow> tcb \<Rightarrow> bool) \<Rightarrow> bool \<Rightarrow> os \<Rightarrow> ctl \<times> os \<Rightarrow> bool" where
  "ended L R b s r \<longleftrightarrow> os_kern (snd r) = kern_after (fst r) (os_kern s) \<and>
     table_rel R (os_tasks s) (os_tasks (snd r)) \<and> (b \<longrightarrow> os_sems (snd r) = os_sems s) \<and>
     (fst r = Returns \<longrightarrow> (\<forall>line. L = Some line \<longrightarrow>
        task_internal_state_get (self_tid s) (os_tasks (snd r)) = Inr (of_nat line)))"

lemma undisturbed_self: "undisturbed R b s s1 \<Longrightarrow> self_tid s1 = self_tid s"
  by (simp add: undisturbed_def self_tid_def os_get_running_tid_def)

text \<open>\<open>R me\<close> relates the tasks before and after when \<open>me\<close> is running.\<close>

definition quiet :: "(nat \<Rightarrow> nat \<Rightarrow> tcb \<Rightarrow> tcb \<Rightarrow> bool) \<Rightarrow> bool \<Rightarrow> (os \<Rightarrow> os res) \<Rightarrow> bool" where
  "quiet R b f \<longleftrightarrow> (\<forall>s s'. f s = Inr s' \<longrightarrow> undisturbed (R (unat (self_tid s))) b s s')"

text \<open>\<open>pr\<close> finds the control and the state in the result of a call that stands on line \<open>L\<close>.\<close>

definition gives_up :: "nat option \<Rightarrow> (nat \<Rightarrow> nat \<Rightarrow> tcb \<Rightarrow> tcb \<Rightarrow> bool) \<Rightarrow> bool \<Rightarrow> ('a \<Rightarrow> ctl \<times> os) \<Rightarrow> (os \<Rightarrow> 'a res) \<Rightarrow> bool" where
  "gives_up L R b pr f \<longleftrightarrow> (\<forall>s r. f s = Inr r \<longrightarrow> ended L (R (unat (self_tid s))) b s (pr r))"

lemma gives_upI: "(\<And>s r. f s = Inr r \<Longrightarrow> ended L (R (unat (self_tid s))) b s (pr r)) \<Longrightarrow> gives_up L R b pr f"
  unfolding gives_up_def by blast

lemma gives_upD: "gives_up L R b pr f \<Longrightarrow> f s = Inr r \<Longrightarrow> ended L (R (unat (self_tid s))) b s (pr r)"
  unfolding gives_up_def by blast

lemma quietI: "(\<And>s s'. f s = Inr s' \<Longrightarrow> undisturbed (R (unat (self_tid s))) b s s') \<Longrightarrow> quiet R b f"
  unfolding quiet_def by blast

lemma quietD: "quiet R b f \<Longrightarrow> f s = Inr s' \<Longrightarrow> undisturbed (R (unat (self_tid s))) b s s'"
  unfolding quiet_def by blast

abbreviation msg_res :: "ctl \<times> bytes \<times> os \<Rightarrow> ctl \<times> os" where
  "msg_res r \<equiv> (fst r, snd (snd r))"

section \<open>Operations that leave the processor alone\<close>

text \<open>What happens to any task: notes about a queue, signals, and the release from a semaphore.\<close>

locale quiet_relation =
  fixes R :: "nat \<Rightarrow> nat \<Rightarrow> tcb \<Rightarrow> tcb \<Rightarrow> bool"
  assumes pre: "table_preorder (R me)"
    and notes_queue: "leaves (R me) (os_task_set_wait_queue tid q)" "leaves (R me) (os_task_set_change_event tid e)"
      "leaves (R me) (os_task_set_msg_result tid r)"
    and signals: "leaves (R me) (os_task_signal_event cfg e)"
    and releases: "leaves (R me) (os_task_release_waiting_task cfg sem)"
begin

lemma undisturbed_trans: "undisturbed (R me) b s s1 \<Longrightarrow> undisturbed (R me) b s1 s2 \<Longrightarrow> undisturbed (R me) b s s2"
  by (auto simp: undisturbed_def intro: table_preorder.table_trans [OF pre])

lemma undisturbed_other [simp]:
  "undisturbed (R me) b s (s\<lparr>os_events := e\<rparr>)" "undisturbed (R me) b s (s\<lparr>os_msgqs := m\<rparr>)" "undisturbed (R me) b s s"
  "undisturbed (R me) False s (s\<lparr>os_sems := sm\<rparr>)"
  by (simp_all add: undisturbed_def table_preorder.table_refl [OF pre])

lemma quiet_seq: "quiet R b f \<Longrightarrow> quiet R b g \<Longrightarrow> quiet R b (\<lambda>s. bindR (f s) g)"
proof (rule quietI)
  fix s s' assume fg: "quiet R b f" "quiet R b g" and r: "bindR (f s) g = Inr s'"
  then obtain s1 where s1: "f s = Inr s1" "g s1 = Inr s'" by (auto simp: bindR_eq_Inr)
  show "undisturbed (R (unat (self_tid s))) b s s'"
    using undisturbed_trans [OF quietD [OF fg(1) s1(1)]] quietD [OF fg(2) s1(2)]
      undisturbed_self [OF quietD [OF fg(1) s1(1)]] by simp
qed

lemma quiet_on_tasks:
  assumes "\<And>s. leaves (R (unat (self_tid s))) (f s)"
  shows "quiet R b (\<lambda>s. on_tasks (f s) s)"
  by (rule quietI) (auto simp: on_tasks_eq_Inr undisturbed_def dest: leavesD [OF assms])

lemma quiet_get: "(\<And>x. quiet R b (f x)) \<Longrightarrow> quiet R b (\<lambda>s. bindR (g s) (\<lambda>x. f x s))"
  by (rule quietI) (auto simp: bindR_eq_Inr dest: quietD)

lemma quiet_if: "quiet R b f \<Longrightarrow> quiet R b g \<Longrightarrow> quiet R b (\<lambda>s. if c s then f s else g s)"
  by (rule quietI) (auto split: if_split_asm dest: quietD)

lemma quiet_on: "quiet R b (\<lambda>s. on_events (g s) s)" "quiet R False (\<lambda>s. on_sems (h s) s)"
  by (auto simp: quiet_def on_events_eq_Inr on_sems_eq_Inr)

lemma quiet_Inr: "quiet R b Inr"
  by (simp add: quiet_def)

lemma quiet_signal: "quiet R b (os_signal_event cfg e)"
  by (rule quietI) (auto simp: os_signal_event_def on_tasks_eq_Inr undisturbed_def
      dest: leavesD [OF signals] intro: table_preorder.table_refl [OF pre] split: if_split_asm)

lemma quiet_signal_change: "quiet R b (signal_change cfg e)"
  unfolding signal_change_def [abs_def] by (intro quiet_seq quiet_signal quiet_on)

lemmas quiet_ops = quiet_on quiet_signal quiet_signal_change quiet_Inr

text \<open>Interrupts.\<close>

lemma quiet_int_signal: "quiet R b (OS_INT_SIGNAL_EVENT cfg e)"
  unfolding OS_INT_SIGNAL_EVENT_def [abs_def] by (intro quiet_seq quiet_signal quiet_on)

text \<open>The notes a queue operation makes on the running task.\<close>

lemma prologue_undisturbed:
  assumes "queue_prologue cfg t s = Inr (e, s1)"
  shows "undisturbed (R me) b s s1"
proof -
  from assms obtain q t1 t2 where "os_task_set_wait_queue (self_tid s) q (os_tasks s) = Inr t1"
    "os_task_set_change_event (self_tid (s\<lparr>os_tasks := t1\<rparr>)) e t1 = Inr t2" "s1 = s\<lparr>os_tasks := t2\<rparr>"
    by (auto simp: queue_prologue_def res_simps)
  then show ?thesis
    using table_preorder.table_trans [OF pre leavesD [OF notes_queue(1)] leavesD [OF notes_queue(2)]] by (simp add: undisturbed_def)
qed

text \<open>Repetition of quiet operations.\<close>

lemma quiet_foldR: "(\<And>i. i \<in> set is \<Longrightarrow> quiet R b (f i)) \<Longrightarrow> quiet R b (foldR f is)"
proof (induction "is")
  case Nil
  have "foldR f [] = Inr" by (rule ext) simp
  then show ?case by (simp add: quiet_Inr)
next
  case (Cons i js)
  have "quiet R b (\<lambda>s. bindR (f i s) (foldR f js))" using Cons by (intro quiet_seq) auto
  moreover have "foldR f (i # js) = (\<lambda>s. bindR (f i s) (foldR f js))" by (rule ext) simp
  ultimately show ?case by simp
qed

lemma quiet_tick_slot: "quiet R b (tick_slot cfg queue msgSz i)"
proof (rule quietI)
  fix s s' assume "tick_slot cfg queue msgSz i s = Inr s'"
  then obtain m e where "s' = s \<or> s' = s\<lparr>os_msgqs := m\<rparr> \<or> OS_INT_SIGNAL_EVENT cfg e (s\<lparr>os_msgqs := m\<rparr>) = Inr s'"
    by (auto simp: tick_slot_def bindR_eq_Inr Let_def split: if_split_asm)
  moreover have "undisturbed (R (unat (self_tid s))) b s s'" if "OS_INT_SIGNAL_EVENT cfg e (s\<lparr>os_msgqs := m\<rparr>) = Inr s'"
    using undisturbed_trans [OF undisturbed_other(2) [of _ b s m]] quietD [OF quiet_int_signal that]
    by (simp add: self_tid_def os_get_running_tid_def)
  ultimately show "undisturbed (R (unat (self_tid s))) b s s'" by auto
qed

lemma quiet_tick_loop: "quiet R b (tick_loop cfg queue head msgSz fuel i)"
proof (induction fuel arbitrary: i)
  case 0
  show ?case by (rule quietI) simp
next
  case (Suc fuel)
  have "quiet R b (\<lambda>s. if i = head then Inr s else bindR (tick_slot cfg queue msgSz i s) (\<lambda>s.
      bindR (aget (msgQList (os_msgqs s)) (unat queue)) (\<lambda>mq. tick_loop cfg queue head msgSz fuel (next_slot (mq_q mq) i) s)))"
    by (intro quiet_if quiet_Inr quiet_seq [OF quiet_tick_slot] quiet_get Suc.IH)
  then show ?case by (simp only: tick_loop.simps [abs_def])
qed

lemma quiet_msgQ_tick: "quiet R b (os_msgQ_tick cfg queue)"
  by (rule quietI) (auto simp: os_msgQ_tick_def bindR_eq_Inr split: if_split_asm dest: quietD [OF quiet_tick_loop])

lemma quiet_tick_task: "(\<And>me. leaves (R me) (tick_time cfg c n i)) \<Longrightarrow> quiet R b (tick_task cfg c n i)"
  unfolding tick_task_def [abs_def] by (intro quiet_seq quiet_on_tasks quiet_if quiet_get quiet_Inr quiet_msgQ_tick)

lemma quiet_isr_sem: "quiet R False (OS_SIGNAL_SEM_NO_SCHEDULE cfg sem)"
  unfolding OS_SIGNAL_SEM_NO_SCHEDULE_def [abs_def] by (intro quiet_get quiet_if quiet_on quiet_on_tasks releases)

end

text \<open>What the clocks do to any task, in addition.\<close>

locale tick_relation = quiet_relation +
  assumes ticks: "leaves (R me) (tick_time cfg c n i)"
begin

lemma quiet_task_tick: "quiet R b (task_tick cfg c n)"
proof (rule quietI)
  fix s s' assume r: "task_tick cfg c n s = Inr s'"
  have "quiet R b (tick_task cfg c n i)" for i by (rule quiet_tick_task [OF ticks])
  then have "quiet R b (foldR (\<lambda>j. tick_task cfg c n (of_nat j)) [0..<unat (nTasks (os_tasks s))])" by (rule quiet_foldR)
  from quietD [OF this] show "undisturbed (R (unat (self_tid s))) b s s'" using r by (simp add: task_tick_def for_ne_fold)
qed

lemma quiet_ticks: "quiet R b (os_tick cfg)" "quiet R b (os_sub_tick cfg i)" "quiet R b (os_sub_nTick cfg i n)"
  unfolding os_tick_def [abs_def] os_sub_tick_def [abs_def] os_sub_nTick_def [abs_def]
  by (intro quiet_if quiet_task_tick quiet_Inr)+

end

section \<open>Calls\<close>

text \<open>What the running task does to itself: it records where it goes on, and waits.\<close>

locale call_relation = quiet_relation +
  assumes line: "R me me t (t\<lparr>tcb_internal_state := l\<rparr>)"
    and waits: "leaves (R (unat tid)) (os_task_wait_time_set tid c time)" "leaves (R (unat tid)) (os_task_wait_event tid e single timeout)"
      "leaves (R (unat tid)) (os_task_clear_wait_queue cfg tid)" "leaves (R (unat tid)) (wait_args tid waitForAll event args)"
begin

lemma quiet_wait: "quiet R b (\<lambda>s. os_wait_event cfg (self_tid s) e single timeout None s)"
  by (rule quietI) (auto simp: os_wait_event_def on_tasks_eq_Inr on_events_eq_Inr bindR_eq_Inr undisturbed_def
      dest: leavesD [OF waits(2)] intro: table_preorder.table_refl [OF pre] split: if_split_asm)

lemma quiet_wait_multiple: "quiet R b (os_wait_multiple cfg waitForAll args)"
  by (rule quietI) (auto simp: os_wait_multiple_def res_simps Let_def undisturbed_def self_tid_def os_get_running_tid_def
      split: list.splits if_split_asm dest!: leavesD [OF waits(3)] leavesD [OF waits(4)]
      intro: table_preorder.table_trans [OF pre] table_preorder.table_refl [OF pre])

lemma ended_after:
  assumes "undisturbed (R me) b s s1" and "ended L (R me) b s1 r"
  shows "ended L (R me) b s r"
  using assms undisturbed_self [OF assms(1)]
  by (auto simp: ended_def undisturbed_def intro: table_preorder.table_trans [OF pre])

lemma gives_up_seq: "quiet R b f \<Longrightarrow> gives_up L R b pr g \<Longrightarrow> gives_up L R b pr (\<lambda>s. bindR (f s) g)"
proof (rule gives_upI)
  fix s r assume fg: "quiet R b f" "gives_up L R b pr g" and r: "bindR (f s) g = Inr r"
  then obtain s1 where s1: "f s = Inr s1" "g s1 = Inr r" by (auto simp: bindR_eq_Inr)
  show "ended L (R (unat (self_tid s))) b s (pr r)"
    using ended_after [OF quietD [OF fg(1) s1(1)]] gives_upD [OF fg(2) s1(2)]
      undisturbed_self [OF quietD [OF fg(1) s1(1)]] by simp
qed

lemma gives_up_get: "(\<And>x. gives_up L R b pr (f x)) \<Longrightarrow> gives_up L R b pr (\<lambda>s. bindR (g s) (\<lambda>x. f x s))"
  by (rule gives_upI) (auto simp: bindR_eq_Inr dest: gives_upD)

lemma gives_up_if: "gives_up L R b pr f \<Longrightarrow> gives_up L R b pr g \<Longrightarrow> gives_up L R b pr (\<lambda>s. if c s then f s else g s)"
  by (rule gives_upI) (auto split: if_split_asm dest: gives_upD)

text \<open>What a call ends with.\<close>

lemma gives_up_go: "gives_up L R b (\<lambda>r. r) (\<lambda>s. Inr (Goes_on, s))"
  by (rule gives_upI) (auto simp: ended_def kern_after_def table_preorder.table_refl [OF pre])

lemma gives_up_go_msg: "gives_up L R b msg_res (\<lambda>s. Inr (Goes_on, msg, s))"
  by (rule gives_upI) (auto simp: ended_def kern_after_def table_preorder.table_refl [OF pre])

lemma gives_up_with_msg:
  "gives_up L R b (\<lambda>r. r) f \<Longrightarrow> gives_up L R b msg_res (\<lambda>s. bindR (f s) (\<lambda>r. case r of (c, s) \<Rightarrow> Inr (c, msg, s)))"
  by (rule gives_upI) (auto simp: bindR_eq_Inr dest: gives_upD)

lemma gives_up_yield: "gives_up (Some n) R b (\<lambda>r. r) (OS_YIELD n)"
proof (rule gives_upI)
  fix s r assume r: "OS_YIELD n s = Inr r"
  then obtain t where t: "os_task_internal_state_set (self_tid s) (of_nat n) (os_tasks s) = Inr t"
    "r = (Returns, os_free_tid (s\<lparr>os_tasks := t\<rparr>))" by (auto simp: OS_YIELD_def res_simps)
  have "leaves (R (unat (self_tid s))) (os_task_internal_state_set (self_tid s) (of_nat n))"
    unfolding os_task_internal_state_set_def [abs_def] by (intro table_preorder.leaves_mod [OF pre] line)
  from leavesD [OF this t(1)] have "table_rel (R (unat (self_tid s))) (os_tasks s) t" .
  moreover have "task_internal_state_get (self_tid s) t = Inr (of_nat n)"
    using t(1) by (auto simp: os_task_internal_state_set_def task_internal_state_get_def res_simps)
  ultimately show "ended (Some n) (R (unat (self_tid s))) b s r"
    by (simp add: ended_def kern_after_def t(2) os_free_tid_def set_running_tid_def)
qed

lemma gives_up_end:
  assumes "\<And>tid. leaves (R (unat tid)) (os_task_kill tid)"
  shows "gives_up None R b (\<lambda>r. r) OS_END"
proof (rule gives_upI)
  fix s r assume "OS_END s = Inr r"
  then obtain t where t: "os_task_kill (self_tid s) (os_tasks s) = Inr t"
    "r = (Returns, os_free_tid (s\<lparr>os_tasks := t\<rparr>))" by (auto simp: OS_END_def res_simps)
  then show "ended None (R (unat (self_tid s))) b s r"
    using leavesD [OF assms t(1)] by (simp add: ended_def kern_after_def os_free_tid_def set_running_tid_def)
qed

lemma gives_up_wait_single: "gives_up (Some n) R b (\<lambda>r. r) (OS_WAIT_SINGLE_EVENT cfg n e timeout None)"
  unfolding OS_WAIT_SINGLE_EVENT_def [abs_def] by (intro gives_up_seq quiet_wait gives_up_yield)

lemma gives_up_plain:
  "gives_up (Some n) R b (\<lambda>r. r) (OS_WAIT_TICKS n ticks i)"
  "gives_up (Some n) R b (\<lambda>r. r) (OS_WAIT_MULTIPLE_EVENTS cfg n waitAll args)"
  "gives_up (Some n) R b (\<lambda>r. r) (OS_SIGNAL_EVENT cfg n e)"
  unfolding OS_WAIT_TICKS_def [abs_def] OS_WAIT_MULTIPLE_EVENTS_def [abs_def] OS_SIGNAL_EVENT_def [abs_def]
  by (intro gives_up_seq quiet_ops quiet_wait_multiple quiet_on_tasks waits gives_up_yield)+

text \<open>Suspending and resuming a task, waiting for a semaphore and ending are up to the relation.\<close>

lemma gives_up_suspend:
  assumes "\<And>me. leaves (R me) (os_task_suspend i)"
  shows "gives_up (Some n) R b (\<lambda>r. r) (OS_SUSPEND_TASK n i)"
  unfolding OS_SUSPEND_TASK_def [abs_def]
  by (intro gives_up_seq gives_up_if quiet_on_tasks assms gives_up_yield gives_up_go)

lemma gives_up_resume:
  assumes "\<And>me. leaves (R me) (os_task_resume i)"
  shows "gives_up (Some n) R b (\<lambda>r. r) (OS_RESUME_TASK n i)"
  unfolding OS_RESUME_TASK_def [abs_def]
  by (intro gives_up_seq gives_up_if quiet_on_tasks assms gives_up_yield gives_up_go)

text \<open>The semaphore calls change the semaphores.\<close>

lemma gives_up_signal_sem: "gives_up (Some n) R False (\<lambda>r. r) (OS_SIGNAL_SEM cfg n sem)"
  unfolding OS_SIGNAL_SEM_def [abs_def]
  by (intro gives_up_seq gives_up_get gives_up_if quiet_ops quiet_on_tasks releases gives_up_yield gives_up_go)

lemma gives_up_wait_sem:
  assumes "\<And>tid. leaves (R (unat tid)) (task_wait_sem_set tid sem)"
  shows "gives_up (Some n) R False (\<lambda>r. r) (OS_WAIT_SEM cfg n sem)"
  unfolding OS_WAIT_SEM_def [abs_def]
  by (intro gives_up_seq gives_up_get gives_up_if quiet_ops quiet_on_tasks assms gives_up_yield gives_up_go)

text \<open>Messages.\<close>

lemma gives_up_msgq_op:
  assumes "\<And>a a'. gives_up L R b pr (f a a')"
  shows "gives_up L R b pr (\<lambda>s. bindR (g s) (\<lambda>r. case r of (a, a', m) \<Rightarrow> f a a' (s\<lparr>os_msgqs := m\<rparr>)))"
proof (rule gives_upI)
  fix s r assume "bindR (g s) (\<lambda>r. case r of (a, a', m) \<Rightarrow> f a a' (s\<lparr>os_msgqs := m\<rparr>)) = Inr r"
  then obtain a a' m where r: "f a a' (s\<lparr>os_msgqs := m\<rparr>) = Inr r" by (auto simp: bindR_eq_Inr)
  show "ended L (R (unat (self_tid s))) b s (pr r)"
    using ended_after [OF undisturbed_other(2)] gives_upD [OF assms r] by (simp add: self_tid_def os_get_running_tid_def)
qed

lemma gives_up_rounds:
  "gives_up (Some n) R b msg_res (post_round cfg n t msg d p async e)"
  "gives_up (Some n) R b msg_res (receive_round cfg n t msg async None e)"
  unfolding post_round_def [abs_def] after_post_def [abs_def] receive_round_def [abs_def] after_receive_def [abs_def] option.case
  by (intro gives_up_get gives_up_msgq_op gives_up_if gives_up_seq quiet_ops quiet_on_tasks notes_queue gives_up_with_msg
      gives_up_wait_single gives_up_go_msg)+

lemma gives_up_after_prologue:
  assumes "\<And>e. gives_up L R b pr (f e)"
  shows "gives_up L R b pr (\<lambda>s. bindR (queue_prologue cfg t s) (\<lambda>r. case r of (e, s) \<Rightarrow> f e s))"
proof (rule gives_upI)
  fix s r assume "bindR (queue_prologue cfg t s) (\<lambda>r. case r of (e, s) \<Rightarrow> f e s) = Inr r"
  then obtain e s1 where r: "queue_prologue cfg t s = Inr (e, s1)" "f e s1 = Inr r" by (auto simp: bindR_eq_Inr)
  have u: "undisturbed (R (unat (self_tid s))) b s s1" by (rule prologue_undisturbed [OF r(1)])
  show "ended L (R (unat (self_tid s))) b s (pr r)"
    using ended_after [OF u] gives_upD [OF assms r(2)] undisturbed_self [OF u] by simp
qed

lemma gives_up_msg:
  "gives_up (Some n) R b msg_res (OS_MSG_Q_POST cfg n t msg d p async)"
  "gives_up (Some n) R b msg_res (OS_MSG_Q_POST_resume cfg n t msg d p async)"
  "gives_up (Some n) R b msg_res (OS_MSG_Q_RECEIVE cfg n t msg async None)"
  "gives_up (Some n) R b msg_res (OS_MSG_Q_RECEIVE_resume cfg n t msg async None)"
  unfolding OS_MSG_Q_POST_def [abs_def] OS_MSG_Q_POST_resume_def [abs_def] OS_MSG_Q_RECEIVE_def [abs_def]
    OS_MSG_Q_RECEIVE_resume_def [abs_def]
  by (intro gives_up_after_prologue gives_up_get gives_up_if gives_up_rounds gives_up_seq quiet_ops gives_up_go_msg)+

end

section \<open>The instances\<close>

text \<open>A relation that every update of a field meets.\<close>

lemma task_relation_quiet: "(\<And>me. task_relation (R me)) \<Longrightarrow> quiet_relation R"
  by (rule quiet_relation.intro)
    (auto intro: task_relation.axioms(1) task_relation.leaves_setters task_relation.leaves_signal_event
      task_relation.leaves_release)

lemma task_relation_ticks: "(\<And>me. task_relation (R me)) \<Longrightarrow> tick_relation R"
  by (intro tick_relation.intro task_relation_quiet tick_relation_axioms.intro task_relation.leaves_tick_time)

lemma task_relation_call:
  assumes "\<And>me. task_relation (R me)" and "\<And>me t l. R me me t (t\<lparr>tcb_internal_state := l\<rparr>)"
  shows "call_relation R"
  by (rule call_relation.intro [OF task_relation_quiet [OF assms(1)]], rule call_relation_axioms.intro)
    (auto intro: assms task_relation.leaves_setters [OF assms(1)] task_relation.leaves_wait_time_set [OF assms(1)]
      task_relation.leaves_wait_event [OF assms(1)] task_relation.leaves_clear_wait_queue [OF assms(1)]
      table_preorder.leaves_wait_args [OF task_relation.axioms(1) [OF assms(1)]])

text \<open>The running task may change its own resume point, and those of \<open>X\<close> may be reset.\<close>

interpretation core_quiet: tick_relation "\<lambda>me. core_rel X" for X
  by (rule task_relation_ticks) (rule core.task_relation_axioms)

interpretation core_call: call_relation "\<lambda>me. core_rel (insert me X)" for X
  by (rule task_relation_call) (rule core.task_relation_axioms, simp add: core_rel_line)

interpretation sem_ticks: tick_relation "\<lambda>me. sem_rel"
  by (rule task_relation_ticks) (rule semw.task_relation_axioms)

interpretation sem_call: call_relation "\<lambda>me. sem_rel"
  by (rule task_relation_call) (rule semw.task_relation_axioms, simp add: sem_rel_def)

end
