(* ===== verification/Os_Waking.thy ===== *)
theory Os_Waking
  imports Os_Effects
begin

text \<open>
  Who is made ready: the operations that end waits - signals and releases - shown once against a contract
  that says which tasks they may wake. A relation that meets the contract holds between every task before
  and after them.
\<close>

section \<open>Who is released from a semaphore\<close>

text \<open>The search for a task to release ends with one that waits for the semaphore, or with none.\<close>

lemma found_waits:
  assumes "found_waiting_task cfg sem s = Inr i" and "i \<noteq> NO_TID"
  shows "tcb_state (task_list s ! unat i) = WAITING_SEM"
proof -
  let ?ok = "\<lambda>i. i = NO_TID \<or> tcb_state (task_list s ! unat i) = WAITING_SEM"
  have w: "waiting_this_sem sem t \<Longrightarrow> tcb_state t = WAITING_SEM" for t by (simp add: waiting_this_sem_def)
  show ?thesis
  proof (cases "ROUND_ROBIN cfg")
    case True
    then obtain longest lastChecked found where r: "for_ne 0 (nTasks s) (release_rr_body sem s) (NO_TID, 0, NO_TID) = Inr (found, longest, lastChecked)"
      "i = (if longest = 0 \<and> lastChecked \<noteq> NO_TID then lastChecked else found)"
      using assms(1) by (auto simp: found_waiting_task_def bindR_eq_Inr)
    have "(\<lambda>(f, l, c). ?ok f \<and> ?ok c) (found, longest, lastChecked)"
      by (rule foldR_inv [OF _ _ r(1) [unfolded for_ne_fold]])
        (auto simp: release_rr_body_def bindR_eq_Inr tcb_get_def aget_eq_Inr dest: w split: if_split_asm)
    then show ?thesis using r(2) assms(2) by (auto split: if_split_asm)
  next
    case False
    then obtain p where r: "for_ne 0 (nTasks s) (release_prio_body sem s) (NO_TID, 255) = Inr (i, p)"
      using assms(1) by (auto simp: found_waiting_task_def bindR_eq_Inr)
    have "?ok (fst (i, p))"
      by (rule foldR_inv [OF _ _ r [unfolded for_ne_fold]])
        (auto simp: release_prio_body_def bindR_eq_Inr tcb_get_def aget_eq_Inr dest: w split: if_split_asm)
    then show ?thesis using assms(2) by simp
  qed
qed

section \<open>The contract\<close>

text \<open>A task that \<open>W\<close> holds for at the start may be made ready at the end; all who wait for an event or a semaphore may.\<close>

locale waking = table_preorder R for R +
  fixes W :: "tcb \<Rightarrow> bool"
  assumes wakes: "W t \<Longrightarrow> R j t t1 \<Longrightarrow> R j t (t1\<lparr>tcb_state := READY\<rparr>)"
    and waiters: "event_waiting t \<or> tcb_state t = WAITING_SEM \<Longrightarrow> W t"
    and fields: "R j t (t\<lparr>tcb_waitQ := d\<rparr>)" "R j t (t\<lparr>tcb_msgChangeEvent := d\<rparr>)" "R j t (t\<lparr>tcb_msgResult := d\<rparr>)"
      "R j t (t\<lparr>tcb_waitSingleEvent := b\<rparr>)" "R j t (tcb_eventQueue_update f t)"
begin

lemma leaves_notes:
  "leaves R (os_task_set_wait_queue tid x)" "leaves R (os_task_set_change_event tid e)" "leaves R (os_task_set_msg_result tid r)"
  unfolding os_task_set_wait_queue_def [abs_def] os_task_set_change_event_def [abs_def] os_task_set_msg_result_def [abs_def]
  by (intro leaves_mod, simp add: fields)+

lemma leaves_queue: "leaves R (mod_tcb i (tcb_eventQueue_update f))"
  by (intro leaves_mod fields)

lemma leaves_clear: "leaves R (os_task_clear_wait_queue cfg tid)"
  unfolding os_task_clear_wait_queue_def [abs_def] by (intro leaves_rules) (simp_all add: fields)

text \<open>A wait that is known at the start of an operation is still there when the task is made ready.\<close>

lemma ready_after:
  assumes "table_rel R s s1" and "W (task_list s ! unat i)" and "mod_tcb (unat i) (tcb_state_update (\<lambda>_. READY)) s1 = Inr s'"
  shows "table_rel R s s'"
proof -
  have l: "length (task_list s1) = length (task_list s)" using assms(1) by (simp add: table_rel_def)
  have s': "s' = s1\<lparr>task_list := (task_list s1)[unat i := (task_list s1 ! unat i)\<lparr>tcb_state := READY\<rparr>]\<rparr>"
    using assms(3) by (auto simp: mod_tcb_eq_Inr)
  have "R j (task_list s ! j) (task_list s' ! j)" if "j < length (task_list s)" for j
  proof -
    have "R j (task_list s ! j) (task_list s1 ! j)" using assms(1) that by (simp add: table_rel_def)
    then show ?thesis using wakes [of "task_list s ! j"] assms(2) that l by (cases "unat i = j") (simp_all add: s')
  qed
  then show ?thesis using l by (simp add: table_rel_def s')
qed

lemma leaves_signal_body: "leaves R (signal_event_body cfg e i)"
proof (rule leavesI)
  fix s s' assume r: "signal_event_body cfg e i s = Inr s'"
  let ?t = "task_list s ! unat i"
  show "table_rel R s s'"
  proof (cases "s' = s")
    case True
    then show ?thesis by (simp add: table_refl)
  next
    case False
    from r False obtain q s1 where i: "event_waiting ?t"
      and s1: "mod_tcb (unat i) (tcb_eventQueue_update (\<lambda>_. q)) s = Inr s1"
      and d: "(\<exists>s2. os_task_clear_wait_queue cfg i s1 = Inr s2 \<and> mod_tcb (unat i) (tcb_state_update (\<lambda>_. READY)) s2 = Inr s') \<or> s1 = s'"
      by (fastforce simp: signal_event_body_def task_ready_set_def os_assert_eq_Inr Let_def bindR_eq_Inr tcb_get_def aget_eq_Inr event_waiting_def split: if_split_asm)
    have a: "table_rel R s s1" by (rule leavesD [OF leaves_queue s1])
    have "W ?t" using i waiters by blast
    then show ?thesis
      using d a ready_after [OF table_trans [OF a leavesD [OF leaves_clear]]] by blast
  qed
qed

lemma leaves_signal: "leaves R (os_task_signal_event cfg e)"
  unfolding os_task_signal_event_def [abs_def] by (intro leaves_for_ne leaves_signal_body)

lemma leaves_release: "leaves R (os_task_release_waiting_task cfg sem)"
proof (rule leavesI)
  fix s s' assume "os_task_release_waiting_task cfg sem s = Inr s'"
  then obtain i where i: "found_waiting_task cfg sem s = Inr i"
    "if i \<noteq> NO_TID then mod_tcb (unat i) (tcb_state_update (\<lambda>_. READY)) s = Inr s' else s' = s"
    by (auto simp: os_task_release_waiting_task_def bindR_eq_Inr split: if_split_asm)
  then show "table_rel R s s'"
    using ready_after [OF table_refl] waiters found_waits [OF i(1)] by (auto simp: table_refl split: if_split_asm)
qed

end

text \<open>Such a relation is one that the operations of a call meet, too.\<close>

lemma waking_quiet: "(\<And>me. waking (R me) W) \<Longrightarrow> quiet_relation R"
  by (intro quiet_relation.intro)
    (auto intro: waking.axioms(1) waking.leaves_notes waking.leaves_signal waking.leaves_release)

end
