(* ===== verification/Os_System.thy ===== *)
theory Os_System
  imports Os_Waking
begin

text \<open>
  The kernel as a transition system: the setup before the start, scheduling decisions, any calls of the
  running task with any arguments, and clock ticks and interrupts between them. What holds in every
  state such a system reaches, and that the kernel is never stuck there. An interrupt is atomic here: it
  comes between two calls, not within one.
\<close>

section \<open>Calls, interrupts and setup\<close>

text \<open>The calls a task can make, with the line they stand on; \<open>_again\<close> is the part of a queue operation behind its wait.\<close>

datatype kcall =
    Yield nat
  | Close
  | Wait_ticks nat u32 u8
  | Suspend nat u8
  | Resume nat u8
  | Wait_single nat u8 u32
  | Wait_multiple nat bool "int list"
  | Signal nat u8
  | Wait_sem nat u16
  | Signal_sem nat u16
  | Post nat u8 bytes u32 u32 bool
  | Post_again nat u8 bytes u32 u32 bool
  | Receive nat u8 bytes bool
  | Receive_again nat u8 bytes bool

definition drop_msg :: "(ctl \<times> bytes \<times> os) res \<Rightarrow> (ctl \<times> os) res" where
  "drop_msg m = bindR m (\<lambda>r. case r of (c, msg, s) \<Rightarrow> Inr (c, s))"

fun task_call :: "config \<Rightarrow> kcall \<Rightarrow> os \<Rightarrow> (ctl \<times> os) res" where
  "task_call cfg (Yield line) s = OS_YIELD line s"
| "task_call cfg Close s = OS_END s"
| "task_call cfg (Wait_ticks line ticks i) s = OS_WAIT_TICKS line ticks i s"
| "task_call cfg (Suspend line i) s = OS_SUSPEND_TASK line i s"
| "task_call cfg (Resume line i) s = OS_RESUME_TASK line i s"
| "task_call cfg (Wait_single line e timeout) s = OS_WAIT_SINGLE_EVENT cfg line e timeout None s"
| "task_call cfg (Wait_multiple line waitAll args) s = OS_WAIT_MULTIPLE_EVENTS cfg line waitAll args s"
| "task_call cfg (Signal line e) s = OS_SIGNAL_EVENT cfg line e s"
| "task_call cfg (Wait_sem line sem) s = OS_WAIT_SEM cfg line sem s"
| "task_call cfg (Signal_sem line sem) s = OS_SIGNAL_SEM cfg line sem s"
| "task_call cfg (Post line t msg d p async) s = drop_msg (OS_MSG_Q_POST cfg line t msg d p async s)"
| "task_call cfg (Post_again line t msg d p async) s = drop_msg (OS_MSG_Q_POST_resume cfg line t msg d p async s)"
| "task_call cfg (Receive line t msg async) s = drop_msg (OS_MSG_Q_RECEIVE cfg line t msg async None s)"
| "task_call cfg (Receive_again line t msg async) s = drop_msg (OS_MSG_Q_RECEIVE_resume cfg line t msg async None s)"

datatype irq =
    Tick
  | Sub_tick u8
  | Sub_ticks u8 u32
  | Isr_event u8
  | Isr_sem u16

fun irq_call :: "config \<Rightarrow> irq \<Rightarrow> os \<Rightarrow> os res" where
  "irq_call cfg Tick s = os_tick cfg s"
| "irq_call cfg (Sub_tick i) s = os_sub_tick cfg i s"
| "irq_call cfg (Sub_ticks i n) s = os_sub_nTick cfg i n s"
| "irq_call cfg (Isr_event e) s = OS_INT_SIGNAL_EVENT cfg e s"
| "irq_call cfg (Isr_sem sem) s = OS_SIGNAL_SEM_NO_SCHEDULE cfg sem s"

datatype creation =
    Create_task nat nat u8 bytes u8 u16
  | Create_sem u8 u8
  | Create_event

fun create_call :: "config \<Rightarrow> creation \<Rightarrow> os \<Rightarrow> os res" where
  "create_call cfg (Create_task f d p pool n m) s = bindR (os_task_create cfg f d p pool n m s) (\<lambda>r. Inr (snd r))"
| "create_call cfg (Create_sem m v) s = on_sems (\<lambda>x. bindR (sem_counting_create cfg m v x) (\<lambda>r. Inr (snd r))) s"
| "create_call cfg Create_event s = on_events (\<lambda>x. bindR (event_create cfg x) (\<lambda>r. Inr (snd r))) s"

text \<open>The code does not check these: the message pool fits, a semaphore starts within its range.\<close>

fun creation_ok :: "config \<Rightarrow> creation \<Rightarrow> os \<Rightarrow> bool" where
  "creation_ok cfg (Create_task f d p pool n m) s \<longleftrightarrow> n = 0 \<or> pool_ok cfg pool n m s"
| "creation_ok cfg (Create_sem m v) s \<longleftrightarrow> v \<le> m"
| "creation_ok cfg Create_event s \<longleftrightarrow> True"

section \<open>The transitions\<close>

text \<open>
  A state of the system says whether a task procedure is being executed. It starts from a scheduling
  decision, makes calls until one of them returns from it, or returns by itself. Round robin needs a
  task to choose from. The plain function \<open>os_task_kill\<close> gives no processor up: a task that kills another
  goes on, and one that kills itself has to return behind it.
\<close>

datatype action =
    Create creation
  | Start
  | Schedule
  | Call kcall
  | Kill u8
  | Return
  | Irq irq

inductive step :: "config \<Rightarrow> action \<Rightarrow> bool \<times> os \<Rightarrow> bool \<times> os \<Rightarrow> bool" for cfg where
  creates: "os_running s = 0 \<Longrightarrow> creation_ok cfg c s \<Longrightarrow> create_call cfg c s = Inr s' \<Longrightarrow> step cfg (Create c) (False, s) (False, s')"
| start: "os_running s = 0 \<Longrightarrow> step cfg Start (False, s) (False, s\<lparr>os_kern := (os_kern s)\<lparr>running := 1\<rparr>\<rparr>)"
| schedule: "os_running s \<noteq> 0 \<Longrightarrow> (ROUND_ROBIN cfg \<longrightarrow> 0 < nTasks (os_tasks s)) \<Longrightarrow>
    os_schedule cfg (\<lambda>f s. Inr s) s = Inr s' \<Longrightarrow> step cfg Schedule (False, s) (os_get_running_tid s' \<noteq> NO_TID, s')"
| call: "task_call cfg c s = Inr (ctl, s') \<Longrightarrow> step cfg (Call c) (True, s) (ctl = Goes_on, s')"
| kill: "on_tasks (os_task_kill i) s = Inr s' \<Longrightarrow> step cfg (Kill i) (True, s) (i \<noteq> self_tid s, s')"
| return: "step cfg Return (True, s) (False, s)"
| irq: "irq_call cfg i s = Inr s' \<Longrightarrow> step cfg (Irq i) (b, s) (b, s')"

text \<open>Static storage as it is declared, before \<open>os_init\<close>, and a configuration whose ids fit in 8 bits.\<close>

definition storage_ok :: "config \<Rightarrow> os \<Rightarrow> bool" where
  "storage_ok cfg s \<longleftrightarrow> length (task_list (os_tasks s)) = N_TASKS cfg \<and>
     (\<forall>t \<in> set (task_list (os_tasks s)). length (tcb_eventQueue t) = EVENT_QUEUE_SIZE cfg) \<and>
     length (semList (os_sems s)) = N_TOTAL_SEMAPHORES cfg \<and> (N_TOTAL_SEMAPHORES cfg = 0 \<longrightarrow> nSemaphores (os_sems s) = 0) \<and>
     length (eventList (os_events s)) = N_TOTAL_EVENTS cfg \<and> (N_TOTAL_EVENTS cfg = 0 \<longrightarrow> nEvents (os_events s) = 0) \<and>
     length (msgQList (os_msgqs s)) = N_QUEUES cfg"

definition limits_ok :: "config \<Rightarrow> bool" where
  "limits_ok cfg \<longleftrightarrow> config_ok cfg \<and> N_TOTAL_SEMAPHORES cfg \<le> 255 \<and> N_TOTAL_EVENTS cfg \<le> 255"

inductive reachable :: "config \<Rightarrow> bool \<times> os \<Rightarrow> bool" for cfg where
  init: "storage_ok cfg s \<Longrightarrow> reachable cfg (False, os_init cfg s)"
| step: "reachable cfg x \<Longrightarrow> step cfg a x y \<Longrightarrow> reachable cfg y"

section \<open>Every call keeps the invariant\<close>

lemma okeeps_drop_msg: "okeeps cfg (\<lambda>r. snd (snd r)) f \<Longrightarrow> okeeps cfg (\<lambda>r. snd r) (\<lambda>s. drop_msg (f s))"
  unfolding drop_msg_def by (rule okeepsI) (auto simp: bindR_eq_Inr dest: okeepsD)

lemmas okeeps_calls = okeeps_yield okeeps_end okeeps_wait_ticks okeeps_suspend_resume okeeps_wait_single [OF cb_ok_None]
  okeeps_wait_multiple_events okeeps_signal okeeps_sem_macros

lemma okeeps_task_call: "okeeps cfg (\<lambda>r. snd r) (task_call cfg c)"
  by (cases c) (simp_all only: task_call.simps [abs_def] okeeps_calls okeeps_drop_msg okeeps_msg_macros cb_ok_None)

lemma os_kept_tick: "os_inv cfg s \<Longrightarrow> task_tick cfg c n s = Inr s' \<Longrightarrow> os_kept cfg s s'"
  by (erule task_tick_ok [of cfg s c n]) (simp add: os_kept_def task_keptD)

lemma okeeps_irq: "okeeps cfg (\<lambda>s. s) (irq_call cfg i)"
proof (cases i)
  case (Isr_event e)
  show ?thesis unfolding Isr_event irq_call.simps [abs_def] by (rule okeeps_int_signal)
next
  case (Isr_sem sem)
  show ?thesis unfolding Isr_sem irq_call.simps [abs_def] by (rule okeeps_sem_macros(3))
qed (auto simp: os_tick_def os_sub_tick_def os_sub_nTick_def intro!: okeepsI intro: os_kept_tick os_kept_refl split: if_split_asm)

lemma create_call_inv:
  assumes "os_inv cfg s" and "limits_ok cfg" and "creation_ok cfg c s" and r: "create_call cfg c s = Inr s'"
  shows "os_inv cfg s' \<and> os_kern s' = os_kern s \<and> unat (nTasks (os_tasks s)) \<le> unat (nTasks (os_tasks s'))"
proof (cases c)
  case (Create_sem m v)
  show ?thesis
  proof (cases "0 < N_TOTAL_SEMAPHORES cfg")
    case True
    then show ?thesis
      using Create_sem assms os_sem_create_inv [OF os_invD(2) [OF assms(1)], of v m]
      by (auto simp: on_sems_eq_Inr bindR_eq_Inr sem_counting_create_def limits_ok_def os_inv_def queues_inv_def)
  next
    case False
    then show ?thesis
      using Create_sem assms by (auto simp: on_sems_eq_Inr bindR_eq_Inr sem_counting_create_def os_sem_create_def)
  qed
next
  case Create_event
  then obtain e ev where ev: "event_create cfg (os_events s) = Inr (e, ev)" "s' = s\<lparr>os_events := ev\<rparr>"
    using r by (auto simp: on_events_eq_Inr bindR_eq_Inr)
  have "nEvents (os_events s) \<le> nEvents ev"
    using event_create_grows [OF os_invD(3) [OF assms(1)] _ ev(1)] assms(2) by (simp add: limits_ok_def)
  then show ?thesis
    using ev assms(1,2) event_create_inv [OF os_invD(3) [OF assms(1)] _ ev(1)]
    by (auto simp: limits_ok_def os_inv_def queues_inv_def)
next
  case (Create_task f d p pool n m)
  then obtain tid where c: "os_task_create cfg f d p pool n m s = Inr (tid, s')" using r by (auto simp: bindR_eq_Inr)
  have pl: "n = 0 \<or> pool_ok cfg pool n m s" using assms(3) Create_task by simp
  obtain queue where "os_tasks s' = add_task (new_tcb f d p queue (os_tasks s)) (os_tasks s)"
    "unat (nTasks (os_tasks s')) = Suc (unat (nTasks (os_tasks s)))" "os_inv cfg s'"
    by (rule created_task [OF assms(1) pl c])
  then show ?thesis using task_create_kern [OF c] by simp
qed

lemma kill_result:
  assumes "on_tasks (os_task_kill i) s = Inr s'"
  obtains "i < nTasks (os_tasks s)" and "unat i < length (task_list (os_tasks s))"
    and "s' = s\<lparr>os_tasks := (os_tasks s)\<lparr>task_list := (task_list (os_tasks s))
      [unat i := (task_list (os_tasks s) ! unat i)\<lparr>tcb_state := KILLED\<rparr>]\<rparr>\<rparr>"
  using assms by (auto simp: os_task_kill_def res_simps)

lemma kill_others:
  "on_tasks (os_task_kill i) s = Inr s' \<Longrightarrow> unat i \<noteq> j \<Longrightarrow> task_list (os_tasks s') ! j = task_list (os_tasks s) ! j"
  by (erule kill_result) simp

lemma kill_kept:
  assumes "os_inv cfg s" and "on_tasks (os_task_kill i) s = Inr s'"
  shows "os_kept cfg s s' \<and> os_kern s' = os_kern s \<and> nTasks (os_tasks s') = nTasks (os_tasks s)"
proof -
  have "okeeps cfg (\<lambda>s. s) (on_tasks (os_task_kill i))" by (intro okeeps_on_tasks keeps_asserted)
  from okeepsD [OF this assms] show ?thesis by (auto intro: kill_result [OF assms(2)])
qed

section \<open>Reachable states\<close>

text \<open>The invariant of the system.\<close>

definition sys_inv :: "config \<Rightarrow> bool \<times> os \<Rightarrow> bool" where
  "sys_inv cfg x \<longleftrightarrow> (case x of (b, s) \<Rightarrow> os_inv cfg s \<and> running_ok s \<and> (b \<longrightarrow> os_get_running_tid s \<noteq> NO_TID))"

lemma running_ok_kept: "os_kept cfg s s' \<Longrightarrow> running_ok s \<Longrightarrow> running_ok s'"
  by (auto simp: os_kept_def running_ok_def)

text \<open>The line of a call, and the tasks whose resume point it may reset.\<close>

fun call_line :: "kcall \<Rightarrow> nat option" where
  "call_line (Yield line) = Some line"
| "call_line Close = None"
| "call_line (Wait_ticks line ticks i) = Some line"
| "call_line (Suspend line i) = Some line"
| "call_line (Resume line i) = Some line"
| "call_line (Wait_single line e timeout) = Some line"
| "call_line (Wait_multiple line waitAll args) = Some line"
| "call_line (Signal line e) = Some line"
| "call_line (Wait_sem line sem) = Some line"
| "call_line (Signal_sem line sem) = Some line"
| "call_line (Post line t msg d p async) = Some line"
| "call_line (Post_again line t msg d p async) = Some line"
| "call_line (Receive line t msg async) = Some line"
| "call_line (Receive_again line t msg async) = Some line"

fun call_resets :: "kcall \<Rightarrow> nat set" where
  "call_resets (Suspend line i) = {unat i}"
| "call_resets _ = {}"

lemma gives_up_drop_msg: "gives_up L R b msg_res f \<Longrightarrow> gives_up L R b (\<lambda>r. r) (\<lambda>s. drop_msg (f s))"
  by (rule gives_upI) (auto simp: drop_msg_def bindR_eq_Inr dest: gives_upD)

lemma gives_up_task_call: "gives_up (call_line c) (\<lambda>me. core_rel (insert me (call_resets c))) False (\<lambda>r. r) (task_call cfg c)"
proof (cases c)
  case (Suspend n i)
  then show ?thesis
    by (simp only: task_call.simps [abs_def] call_line.simps call_resets.simps)
      (rule core_call.gives_up_suspend, simp add: core_suspend)
qed (simp_all only: task_call.simps [abs_def] call_line.simps core_call.gives_up_yield core_call.gives_up_end [OF core.leaves_setters(8)]
      core_call.gives_up_wait_single core_call.gives_up_plain core_call.gives_up_resume [OF core.leaves_resume] gives_up_drop_msg core_call.gives_up_msg
      core_call.gives_up_signal_sem core_call.gives_up_wait_sem [OF core_wait_sem])

lemma task_call_kern: "task_call cfg c s = Inr (ctl, s') \<Longrightarrow> os_kern s' = kern_after ctl (os_kern s)"
  using gives_upD [OF gives_up_task_call] by (fastforce simp: ended_def)

lemma quiet_irq: "quiet (\<lambda>me. core_rel {}) False (irq_call cfg i)"
  by (cases i) (simp_all only: irq_call.simps [abs_def] core_quiet.quiet_ticks core_quiet.quiet_int_signal core_quiet.quiet_isr_sem)

lemma irq_same_kern: "irq_call cfg i s = Inr s' \<Longrightarrow> os_kern s' = os_kern s"
  using quietD [OF quiet_irq] by (auto simp: undisturbed_def)

section \<open>The invariant of the system\<close>

text \<open>A scheduling decision changes the running task and what the policy keeps, and no task.\<close>

lemma schedule_result:
  assumes "os_inv cfg s" and "ROUND_ROBIN cfg \<longrightarrow> 0 < nTasks (os_tasks s)" and "os_schedule cfg (\<lambda>f s. Inr s) s = Inr s'"
  obtains tid t where "s' = set_running_tid tid (s\<lparr>os_tasks := t\<rparr>)" "task_list t = task_list (os_tasks s)" "nTasks t = nTasks (os_tasks s)"
proof -
  have "ROUND_ROBIN cfg \<longrightarrow> 0 < unat (nTasks (os_tasks s))" using assms(2) by (simp add: word_less_nat_alt)
  then show ?thesis
    by (rule os_schedule_ok [OF assms(1), where procs = "\<lambda>f s. Inr s"]) (use that assms(3) in auto)
qed

lemma schedule_sys_inv:
  assumes "os_inv cfg s" and n: "ROUND_ROBIN cfg \<longrightarrow> 0 < nTasks (os_tasks s)"
  obtains s' where "os_schedule cfg (\<lambda>f s. Inr s) s = Inr s'" "os_inv cfg s'" "running_ok s'"
proof -
  have "ROUND_ROBIN cfg \<longrightarrow> 0 < unat (nTasks (os_tasks s))" using n by (simp add: word_less_nat_alt)
  from os_schedule_ok [OF assms(1) this, of "\<lambda>f s. Inr s"] obtain tid t where t:
    "os_inv cfg (set_running_tid (ucast tid) (s\<lparr>os_tasks := t\<rparr>))" "nTasks t = nTasks (os_tasks s)"
    "tid = NO_TID \<and> os_schedule cfg (\<lambda>f s. Inr s) s = Inr (set_running_tid NO_TID (s\<lparr>os_tasks := t\<rparr>)) \<or>
     tid < nTasks (os_tasks s) \<and> os_schedule cfg (\<lambda>f s. Inr s) s = Inr (set_running_tid (ucast tid) (s\<lparr>os_tasks := t\<rparr>))"
    by metis
  from t(3) show ?thesis
  proof
    assume a: "tid = NO_TID \<and> os_schedule cfg (\<lambda>f s. Inr s) s = Inr (set_running_tid NO_TID (s\<lparr>os_tasks := t\<rparr>))"
    show ?thesis by (rule that [OF a [THEN conjunct2]]) (use a t(1) in \<open>simp_all add: running_ok_def set_running_tid_def\<close>)
  next
    assume a: "tid < nTasks (os_tasks s) \<and> os_schedule cfg (\<lambda>f s. Inr s) s = Inr (set_running_tid (ucast tid) (s\<lparr>os_tasks := t\<rparr>))"
    show ?thesis
      by (rule that [OF a [THEN conjunct2]]) (use a t(1,2) in \<open>simp_all add: running_ok_def set_running_tid_def word_less_nat_alt\<close>)
  qed
qed

lemma step_sys_inv:
  assumes "step cfg a x y" and "sys_inv cfg x" and "limits_ok cfg"
  shows "sys_inv cfg y"
  using assms(1)
proof cases
  case (creates s c s')
  then have inv: "os_inv cfg s" "running_ok s" using assms(2) by (simp_all add: sys_inv_def)
  have k: "os_inv cfg s' \<and> os_kern s' = os_kern s \<and> unat (nTasks (os_tasks s)) \<le> unat (nTasks (os_tasks s'))"
    by (rule create_call_inv [OF inv(1) assms(3) creates(5,6)])
  then show ?thesis using creates inv k by (auto simp: sys_inv_def running_ok_def)
next
  case (start s)
  then show ?thesis using assms(2) by (simp add: sys_inv_def running_ok_def)
next
  case (schedule s s')
  then have inv: "os_inv cfg s" using assms(2) by (simp add: sys_inv_def)
  obtain s1 where "os_schedule cfg (\<lambda>f s. Inr s) s = Inr s1" "os_inv cfg s1" "running_ok s1"
    by (rule schedule_sys_inv [OF inv schedule(5)])
  then show ?thesis using schedule by (simp add: sys_inv_def)
next
  case (call c s ctl s')
  then have inv: "os_inv cfg s" "running_ok s" "os_get_running_tid s \<noteq> NO_TID" using assms(2) by (simp_all add: sys_inv_def)
  have k: "os_kept cfg s s'" using okeepsD [OF okeeps_task_call inv(1) call(4)] by simp
  have "os_kern s' = kern_after ctl (os_kern s)" by (rule task_call_kern [OF call(4)])
  then show ?thesis
    using call inv(3) os_keptD [OF k] running_ok_kept [OF k inv(2)]
    by (auto simp: sys_inv_def kern_after_def os_get_running_tid_def split: if_split_asm)
next
  case (kill i s s')
  then have inv: "os_inv cfg s" "running_ok s" "os_get_running_tid s \<noteq> NO_TID" using assms(2) by (simp_all add: sys_inv_def)
  have k: "os_kept cfg s s'" "os_kern s' = os_kern s" using kill_kept [OF inv(1) kill(4)] by simp_all
  show ?thesis
    using kill inv os_keptD [OF k(1)] running_ok_kept [OF k(1) inv(2)] k(2) by (simp add: sys_inv_def os_get_running_tid_def)
next
  case (return s)
  then show ?thesis using assms(2) by (simp add: sys_inv_def)
next
  case (irq i s s' b)
  then have inv: "os_inv cfg s" "running_ok s" "b \<longrightarrow> os_get_running_tid s \<noteq> NO_TID" using assms(2) by (simp_all add: sys_inv_def)
  have k: "os_kept cfg s s'" by (rule okeepsD [OF okeeps_irq inv(1) irq(4)])
  show ?thesis
    using irq inv os_keptD [OF k] running_ok_kept [OF k inv(2)] irq_same_kern [OF irq(4)]
    by (simp add: sys_inv_def os_get_running_tid_def)
qed

end
