(* ===== verification/Os_Sem_System.thy ===== *)
theory Os_Sem_System
  imports Os_System
begin

text \<open>
  Semaphores and tasks together: no task waits for a semaphore that is available. This holds in every
  reachable state, because a signal goes to a waiter when there is one and a task that is suspended
  while it waits is reset.
\<close>

section \<open>Who waits, waits for nothing that is there\<close>

definition unavailable :: "config \<Rightarrow> sem_st \<Rightarrow> u16 \<Rightarrow> bool" where
  "unavailable cfg sm sem \<longleftrightarrow> (0 < N_TOTAL_SEMAPHORES cfg \<longrightarrow> 0 \<le> sint sem \<and> semValue (semList sm ! sem_no sem) = 0)"

definition sem_wait_ok :: "config \<Rightarrow> os \<Rightarrow> bool" where
  "sem_wait_ok cfg s \<longleftrightarrow> (\<forall>i < unat (nTasks (os_tasks s)). let t = task_list (os_tasks s) ! i in
     tcb_savedState t \<noteq> WAITING_SEM \<and>
     (tcb_state t = WAITING_SEM \<longrightarrow> os_running s \<noteq> 0 \<and> unavailable cfg (os_sems s) (tcb_semaphore t)))"

lemma sem_wait_okI:
  "(\<And>i. i < unat (nTasks (os_tasks s)) \<Longrightarrow> tcb_savedState (task_list (os_tasks s) ! i) \<noteq> WAITING_SEM) \<Longrightarrow>
   (\<And>i. i < unat (nTasks (os_tasks s)) \<Longrightarrow> tcb_state (task_list (os_tasks s) ! i) = WAITING_SEM \<Longrightarrow>
      os_running s \<noteq> 0 \<and> unavailable cfg (os_sems s) (tcb_semaphore (task_list (os_tasks s) ! i))) \<Longrightarrow> sem_wait_ok cfg s"
  by (simp add: sem_wait_ok_def Let_def)

lemma sem_wait_okD:
  assumes "sem_wait_ok cfg s" and "i < unat (nTasks (os_tasks s))"
  shows "tcb_savedState (task_list (os_tasks s) ! i) \<noteq> WAITING_SEM"
    and "tcb_state (task_list (os_tasks s) ! i) = WAITING_SEM \<Longrightarrow> os_running s \<noteq> 0"
    and "tcb_state (task_list (os_tasks s) ! i) = WAITING_SEM \<Longrightarrow> unavailable cfg (os_sems s) (tcb_semaphore (task_list (os_tasks s) ! i))"
  using assms by (simp_all add: sem_wait_ok_def Let_def)

lemma sem_no_inj: "sem_no a = sem_no b \<Longrightarrow> 0 \<le> sint a \<Longrightarrow> 0 \<le> sint b \<Longrightarrow> a = b"
  by (simp add: sem_no_def eq_nat_nat_iff signed_word_eqI)

text \<open>Calls that leave the semaphores alone and make nobody wait for one.\<close>

lemma sem_wait_kept:
  assumes "sem_wait_ok cfg s" and "table_rel sem_rel (os_tasks s) (os_tasks s')"
    and "unat (nTasks (os_tasks s)) \<le> length (task_list (os_tasks s))"
    and "nTasks (os_tasks s') = nTasks (os_tasks s)" and "os_running s' = os_running s" and "os_sems s' = os_sems s"
  shows "sem_wait_ok cfg s'"
proof -
  have r: "sem_rel i (task_list (os_tasks s) ! i) (task_list (os_tasks s') ! i)" if "i < unat (nTasks (os_tasks s))" for i
    using assms(2,3) that by (simp add: table_rel_def)
  show ?thesis
  proof (rule sem_wait_okI)
    fix i assume "i < unat (nTasks (os_tasks s'))"
    then have i: "i < unat (nTasks (os_tasks s))" using assms(4) by simp
    note o = sem_wait_okD [OF assms(1) i]
    show "tcb_savedState (task_list (os_tasks s') ! i) \<noteq> WAITING_SEM" using r [OF i] o(1) by (simp add: sem_rel_def)
    assume "tcb_state (task_list (os_tasks s') ! i) = WAITING_SEM"
    then have "tcb_state (task_list (os_tasks s) ! i) = WAITING_SEM"
      "tcb_semaphore (task_list (os_tasks s') ! i) = tcb_semaphore (task_list (os_tasks s) ! i)"
      using r [OF i] o(1) by (simp_all add: sem_rel_def)
    then show "os_running s' \<noteq> 0 \<and> unavailable cfg (os_sems s') (tcb_semaphore (task_list (os_tasks s') ! i))"
      using o(2,3) assms(5,6) by simp
  qed
qed

text \<open>The semaphore a call changes is one nobody waits for.\<close>

lemma sem_wait_change:
  assumes "sem_wait_ok cfg s" and "sem_index sem = Inr k" and "k < length (semList (os_sems s))"
    and "\<forall>i. \<not> waiter sem (os_tasks s) i" and "semList sm = (semList (os_sems s))[k := v]"
  shows "sem_wait_ok cfg (s\<lparr>os_sems := sm\<rparr>)"
proof -
  have k: "k = sem_no sem" "0 \<le> sint sem" using assms(2) by (auto simp: sem_index_def sem_no_def split: if_split_asm)
  show ?thesis
  proof (rule sem_wait_okI)
    fix i assume "i < unat (nTasks (os_tasks (s\<lparr>os_sems := sm\<rparr>)))"
    then have i: "i < unat (nTasks (os_tasks s))" by simp
    note o = sem_wait_okD [OF assms(1) i]
    show "tcb_savedState (task_list (os_tasks (s\<lparr>os_sems := sm\<rparr>)) ! i) \<noteq> WAITING_SEM" using o(1) by simp
    assume "tcb_state (task_list (os_tasks (s\<lparr>os_sems := sm\<rparr>)) ! i) = WAITING_SEM"
    then have w: "tcb_state (task_list (os_tasks s) ! i) = WAITING_SEM" by simp
    then have "tcb_semaphore (task_list (os_tasks s) ! i) \<noteq> sem"
      using assms(4) i by (auto simp: waiter_def waiting_this_sem_def)
    then have "0 \<le> sint (tcb_semaphore (task_list (os_tasks s) ! i)) \<Longrightarrow> k \<noteq> sem_no (tcb_semaphore (task_list (os_tasks s) ! i))"
      using sem_no_inj k by blast
    then show "os_running (s\<lparr>os_sems := sm\<rparr>) \<noteq> 0 \<and>
        unavailable cfg (os_sems (s\<lparr>os_sems := sm\<rparr>)) (tcb_semaphore (task_list (os_tasks (s\<lparr>os_sems := sm\<rparr>)) ! i))"
      using o(2,3) [OF w] assms(5) by (simp add: unavailable_def os_running_def)
  qed
qed

lemma sem_wait_available:
  assumes "sem_wait_ok cfg s" and "os_sem_larger_than_zero cfg sem (os_sems s) = Inr True"
  shows "\<not> waiter sem (os_tasks s) i"
proof
  assume "waiter sem (os_tasks s) i"
  then have i: "i < unat (nTasks (os_tasks s))" "tcb_state (task_list (os_tasks s) ! i) = WAITING_SEM"
    "tcb_semaphore (task_list (os_tasks s) ! i) = sem" by (simp_all add: waiter_def waiting_this_sem_def)
  have "unavailable cfg (os_sems s) sem" using sem_wait_okD(3) [OF assms(1) i(1,2)] i(3) by simp
  then show False
    using assms(2) by (simp add: unavailable_def os_sem_larger_than_zero_def sem_index_def sem_no_def bindR_eq_Inr aget_eq_Inr
        split: if_split_asm)
qed

lemma sem_update_cases:
  "os_sem_increment cfg sem s = Inr s' \<Longrightarrow> s' = s \<or> (\<exists>k v. sem_index sem = Inr k \<and> k < length (semList s) \<and> semList s' = (semList s)[k := v])"
  "os_sem_decrement cfg sem s = Inr s' \<Longrightarrow> s' = s \<or> (\<exists>k v. sem_index sem = Inr k \<and> k < length (semList s) \<and> semList s' = (semList s)[k := v])"
  by (auto simp: os_sem_increment_def os_sem_decrement_def res_simps split: if_split_asm)

lemma sem_wait_update:
  assumes "sem_wait_ok cfg s" and "\<forall>i. \<not> waiter sem (os_tasks s) i"
    and "on_sems (os_sem_increment cfg sem) s = Inr s' \<or> on_sems (os_sem_decrement cfg sem) s = Inr s'"
  shows "sem_wait_ok cfg s'"
proof -
  obtain sm where s': "s' = s\<lparr>os_sems := sm\<rparr>"
    and "sm = os_sems s \<or> (\<exists>k v. sem_index sem = Inr k \<and> k < length (semList (os_sems s)) \<and> semList sm = (semList (os_sems s))[k := v])"
    using assms(3) sem_update_cases by (auto simp: on_sems_eq_Inr)
  then show ?thesis using assms(1) sem_wait_change [OF assms(1) _ _ assms(2)] by auto
qed

section \<open>The calls\<close>

text \<open>Whatever neither changes a semaphore nor makes a task wait for one.\<close>

lemma sem_wait_ended:
  assumes "sem_wait_ok cfg s" and "os_inv cfg s" and "ended L sem_rel True s r" and "os_kept cfg s (snd r)"
  shows "sem_wait_ok cfg (snd r)"
  by (rule sem_wait_kept [OF assms(1)])
    (use assms(3,4) task_inv_bounds(1) [OF os_invD(1) [OF assms(2)]]
     in \<open>simp_all add: ended_def kern_after_def os_running_def os_kept_def\<close>)

lemma sem_wait_undisturbed:
  assumes "sem_wait_ok cfg s" and "os_inv cfg s" and "undisturbed sem_rel True s s'" and "os_kept cfg s s'"
  shows "sem_wait_ok cfg s'"
  using sem_wait_ended [OF assms(1,2), of None "(Goes_on, s')"] assms(3,4)
  by (simp add: undisturbed_def ended_def kern_after_def)

lemma sem_wait_release:
  assumes "sem_wait_ok cfg s" and "os_inv cfg s" and "on_tasks (os_task_release_waiting_task cfg sem) s = Inr s'"
  shows "sem_wait_ok cfg s' \<and> os_inv cfg s'"
proof -
  have k: "os_kept cfg s s'" using okeepsD [OF okeeps_on_tasks [OF keeps_release] assms(2,3)] by simp
  have "quiet (\<lambda>me. sem_rel) True (\<lambda>s. on_tasks (os_task_release_waiting_task cfg sem) s)"
    by (intro sem_ticks.quiet_on_tasks semw.leaves_release)
  from quietD [OF this assms(3)] show ?thesis
    using sem_wait_undisturbed [OF assms(1,2) _ k] os_keptD [OF k] by simp
qed

lemma sem_wait_yield:
  assumes "sem_wait_ok cfg s" and "os_inv cfg s" and "OS_YIELD n s = Inr r"
  shows "sem_wait_ok cfg (snd r)"
  by (rule sem_wait_ended [OF assms(1,2) gives_upD [OF sem_call.gives_up_yield assms(3)] okeepsD [OF okeeps_yield assms(2,3)]])

lemma sem_wait_wait:
  assumes "sem_wait_ok cfg s" and "os_inv cfg s" and "os_running s \<noteq> 0" and "OS_WAIT_SEM cfg n sem s = Inr r"
  shows "sem_wait_ok cfg (snd r)"
proof -
  from assms(4) obtain positive where p: "os_sem_larger_than_zero cfg sem (os_sems s) = Inr positive"
    "(if positive then bindR (on_sems (os_sem_decrement cfg sem) s) (\<lambda>s. Inr (Goes_on, s))
      else bindR (on_tasks (task_wait_sem_set (self_tid s) sem) s) (OS_YIELD n)) = Inr r"
    by (auto simp: OS_WAIT_SEM_def bindR_eq_Inr)
  show ?thesis
  proof (cases positive)
    case True
    then obtain s1 where "on_sems (os_sem_decrement cfg sem) s = Inr s1" "r = (Goes_on, s1)" using p(2) by (auto simp: bindR_eq_Inr)
    then show ?thesis using sem_wait_update [OF assms(1)] sem_wait_available [OF assms(1)] p(1) True by auto
  next
    case False
    then obtain s1 where s1: "on_tasks (task_wait_sem_set (self_tid s) sem) s = Inr s1" "OS_YIELD n s1 = Inr r"
      using p(2) by (auto simp: bindR_eq_Inr)
    have un: "unavailable cfg (os_sems s) sem"
      using p(1) False by (auto simp: unavailable_def os_sem_larger_than_zero_def sem_index_def sem_no_def bindR_eq_Inr aget_eq_Inr
          word_gt_0 split: if_split_asm)
    have inv1: "os_inv cfg s1"
      using os_keptD [OF okeepsD [OF okeeps_on_tasks [where f = "\<lambda>s. task_wait_sem_set (self_tid s) sem", OF keeps_asserted(3)] assms(2) s1(1)]] by simp
    let ?me = "unat (self_tid s)"
    have s1': "s1 = s\<lparr>os_tasks := (os_tasks s)\<lparr>task_list := (task_list (os_tasks s))
        [?me := (task_list (os_tasks s) ! ?me)\<lparr>tcb_time := 0, tcb_state := WAITING_SEM, tcb_semaphore := sem\<rparr>]\<rparr>\<rparr>"
      "?me < length (task_list (os_tasks s))"
      using s1(1) by (auto simp: on_tasks_eq_Inr task_wait_sem_set_def res_simps)
    have "sem_wait_ok cfg s1"
    proof (rule sem_wait_okI)
      fix i assume "i < unat (nTasks (os_tasks s1))"
      then have i: "i < unat (nTasks (os_tasks s))" by (simp add: s1')
      note o = sem_wait_okD [OF assms(1) i]
      show "tcb_savedState (task_list (os_tasks s1) ! i) \<noteq> WAITING_SEM" using o(1) s1'(2) by (cases "i = ?me") (simp_all add: s1'(1))
      assume "tcb_state (task_list (os_tasks s1) ! i) = WAITING_SEM"
      then show "os_running s1 \<noteq> 0 \<and> unavailable cfg (os_sems s1) (tcb_semaphore (task_list (os_tasks s1) ! i))"
        using o(2,3) un assms(3) s1'(2) by (cases "i = ?me") (simp_all add: s1'(1) os_running_def)
    qed
    then show ?thesis by (rule sem_wait_yield [OF _ inv1 s1(2)])
  qed
qed

text \<open>A signal raises the counter only when nobody waits for it.\<close>

lemma sem_wait_signal:
  assumes "sem_wait_ok cfg s" and "os_inv cfg s" and "os_task_waiting_this_semaphore sem (os_tasks s) = Inr waiting"
  shows "waiting = 0 \<Longrightarrow> on_sems (os_sem_increment cfg sem) s = Inr s' \<Longrightarrow> sem_wait_ok cfg s'"
proof -
  assume w: "waiting = 0" and r: "on_sems (os_sem_increment cfg sem) s = Inr s'"
  have "\<forall>i. \<not> waiter sem (os_tasks s) i"
    using waiting_this_semaphore_iff [OF os_invD(1) [OF assms(2)], of sem] assms(3) w by (auto split: if_split_asm)
  then show "sem_wait_ok cfg s'" using sem_wait_update [OF assms(1)] r by blast
qed

lemma sem_wait_signal_sem:
  assumes "sem_wait_ok cfg s" and "os_inv cfg s" and "OS_SIGNAL_SEM cfg n sem s = Inr r"
  shows "sem_wait_ok cfg (snd r)"
proof -
  from assms(3) obtain waiting where w: "os_task_waiting_this_semaphore sem (os_tasks s) = Inr waiting"
    "(if waiting = 0 then bindR (on_sems (os_sem_increment cfg sem) s) (\<lambda>s. Inr (Goes_on, s))
      else bindR (on_tasks (os_task_release_waiting_task cfg sem) s) (OS_YIELD n)) = Inr r"
    by (auto simp: OS_SIGNAL_SEM_def bindR_eq_Inr)
  show ?thesis
  proof (cases "waiting = 0")
    case True
    then show ?thesis using w(2) sem_wait_signal [OF assms(1,2) w(1)] by (auto simp: bindR_eq_Inr)
  next
    case False
    then obtain s1 where s1: "on_tasks (os_task_release_waiting_task cfg sem) s = Inr s1" "OS_YIELD n s1 = Inr r"
      using w(2) by (auto simp: bindR_eq_Inr)
    then show ?thesis using sem_wait_release [OF assms(1,2) s1(1)] sem_wait_yield by blast
  qed
qed

lemma sem_wait_isr_sem:
  assumes "sem_wait_ok cfg s" and "os_inv cfg s" and "OS_SIGNAL_SEM_NO_SCHEDULE cfg sem s = Inr s'"
  shows "sem_wait_ok cfg s'"
  using assms(3) sem_wait_signal [OF assms(1,2)] sem_wait_release [OF assms(1,2)]
  by (auto simp: OS_SIGNAL_SEM_NO_SCHEDULE_def bindR_eq_Inr split: if_split_asm)

text \<open>Only the semaphore calls are different.\<close>

lemma sem_rel_task_call:
  "(\<exists>n sem. c = Wait_sem n sem \<or> c = Signal_sem n sem) \<or> gives_up (call_line c) (\<lambda>me. sem_rel) True (\<lambda>r. r) (task_call cfg c)"
proof (cases c)
  case (Suspend n i)
  have "gives_up (call_line c) (\<lambda>me. sem_rel) True (\<lambda>r. r) (task_call cfg c)"
    unfolding Suspend by (simp only: task_call.simps [abs_def] call_line.simps)
      (rule sem_call.gives_up_suspend, rule sem_suspend)
  then show ?thesis ..
next
  case (Wait_sem n sem)
  then show ?thesis by blast
next
  case (Signal_sem n sem)
  then show ?thesis by blast
qed (simp_all only: task_call.simps [abs_def] call_line.simps sem_call.gives_up_yield sem_call.gives_up_end [OF semw.leaves_setters(8)]
      sem_call.gives_up_wait_single sem_call.gives_up_plain sem_call.gives_up_resume [OF semw.leaves_resume] gives_up_drop_msg sem_call.gives_up_msg simp_thms)

lemma sem_rel_irq: "(\<exists>sem. i = Isr_sem sem) \<or> quiet (\<lambda>me. sem_rel) True (irq_call cfg i)"
proof (cases i)
  case (Isr_sem sem)
  then show ?thesis by blast
qed (simp_all only: irq_call.simps [abs_def] sem_ticks.quiet_ticks sem_ticks.quiet_int_signal simp_thms)

lemma sem_wait_task_call:
  assumes "sem_wait_ok cfg s" and "os_inv cfg s" and "os_running s \<noteq> 0" and r: "task_call cfg c s = Inr r"
  shows "sem_wait_ok cfg (snd r)"
proof -
  from sem_rel_task_call [of c cfg] consider n sem where "c = Wait_sem n sem" | n sem where "c = Signal_sem n sem"
    | "gives_up (call_line c) (\<lambda>me. sem_rel) True (\<lambda>r. r) (task_call cfg c)" by blast
  then show ?thesis
  proof cases
    case 1
    then show ?thesis using sem_wait_wait [OF assms(1-3)] r by simp
  next
    case 2
    then show ?thesis using sem_wait_signal_sem [OF assms(1,2)] r by simp
  next
    case 3
    show ?thesis
      by (rule sem_wait_ended [OF assms(1,2) gives_upD [OF 3 r] okeepsD [OF okeeps_task_call assms(2) r]])
  qed
qed

lemma sem_wait_irq:
  assumes "sem_wait_ok cfg s" and "os_inv cfg s" and r: "irq_call cfg i s = Inr s'"
  shows "sem_wait_ok cfg s'"
proof -
  have k: "os_kept cfg s s'" using okeepsD [OF okeeps_irq assms(2) r] by simp
  from sem_rel_irq [of i cfg] consider sem where "i = Isr_sem sem" | "quiet (\<lambda>me. sem_rel) True (irq_call cfg i)" by blast
  then show ?thesis
  proof cases
    case 1
    then show ?thesis using sem_wait_isr_sem [OF assms(1,2)] r by simp
  next
    case 2
    show ?thesis by (rule sem_wait_undisturbed [OF assms(1,2) quietD [OF 2 r] k])
  qed
qed

end
