(* ===== verification/Os_Runs.thy ===== *)
theory Os_Runs
  imports Os_Sem_System
begin

text \<open>
  The states a system of tasks reaches: the invariants that hold there, the operations that never get
  stuck there, and where a task goes on after it has given up the processor.
\<close>

section \<open>The invariants of all reachable states\<close>

definition run_inv :: "config \<Rightarrow> bool \<times> os \<Rightarrow> bool" where
  "run_inv cfg x \<longleftrightarrow> sys_inv cfg x \<and> sem_wait_ok cfg (snd x) \<and> (fst x \<longrightarrow> os_running (snd x) \<noteq> 0)"

lemma run_invD:
  assumes "run_inv cfg (b, s)"
  shows "os_inv cfg s" "running_ok s" "b \<Longrightarrow> os_get_running_tid s \<noteq> NO_TID" "sem_wait_ok cfg s" "b \<Longrightarrow> os_running s \<noteq> 0"
  using assms by (simp_all add: run_inv_def sys_inv_def)

lemma sem_wait_create:
  assumes "sem_wait_ok cfg s" and inv: "os_inv cfg s" and "os_running s = 0" and "creation_ok cfg c s"
    and r: "create_call cfg c s = Inr s'"
  shows "sem_wait_ok cfg s'"
proof -
  have none: "tcb_state (task_list (os_tasks s) ! i) \<noteq> WAITING_SEM" "tcb_savedState (task_list (os_tasks s) ! i) \<noteq> WAITING_SEM"
    if "i < unat (nTasks (os_tasks s))" for i
    using sem_wait_okD [OF assms(1) that] assms(3) by blast+
  show ?thesis
  proof (cases c)
    case (Create_task f d p pool n m)
    then obtain tid where t: "os_task_create cfg f d p pool n m s = Inr (tid, s')" using r by (auto simp: bindR_eq_Inr)
    have pl: "n = 0 \<or> pool_ok cfg pool n m s" using assms(4) Create_task by simp
    obtain queue where q: "os_tasks s' = add_task (new_tcb f d p queue (os_tasks s)) (os_tasks s)"
      "unat (nTasks (os_tasks s')) = Suc (unat (nTasks (os_tasks s)))"
      by (rule created_task [OF inv pl t])
    have len: "unat (nTasks (os_tasks s)) < length (task_list (os_tasks s))" by (rule created_room [OF inv t])
    show ?thesis
    proof (rule sem_wait_okI)
      fix i assume "i < unat (nTasks (os_tasks s'))"
      then have i: "i = unat (nTasks (os_tasks s)) \<or> i < unat (nTasks (os_tasks s))" using q(2) by auto
      then show "tcb_savedState (task_list (os_tasks s') ! i) \<noteq> WAITING_SEM"
        using none(2) len by (auto simp: q(1) add_task_def new_tcb_saved)
      assume "tcb_state (task_list (os_tasks s') ! i) = WAITING_SEM"
      then show "os_running s' \<noteq> 0 \<and> unavailable cfg (os_sems s') (tcb_semaphore (task_list (os_tasks s') ! i))"
        using i none(1) len by (auto simp: q(1) add_task_def)
    qed
  next
    case (Create_sem m v)
    then have "os_tasks s' = os_tasks s" using r by (auto simp: on_sems_eq_Inr)
    then show ?thesis using none by (intro sem_wait_okI) auto
  next
    case Create_event
    then have "os_tasks s' = os_tasks s" using r by (auto simp: on_events_eq_Inr)
    then show ?thesis using none by (intro sem_wait_okI) auto
  qed
qed

lemma sem_wait_schedule:
  assumes "sem_wait_ok cfg s" and inv: "os_inv cfg s" and n: "ROUND_ROBIN cfg \<longrightarrow> 0 < nTasks (os_tasks s)"
    and r: "os_schedule cfg (\<lambda>f s. Inr s) s = Inr s'"
  shows "sem_wait_ok cfg s'" "os_running s' = os_running s"
proof -
  obtain tid t where t: "s' = set_running_tid tid (s\<lparr>os_tasks := t\<rparr>)" "task_list t = task_list (os_tasks s)" "nTasks t = nTasks (os_tasks s)"
    by (rule schedule_result [OF inv n r])
  then show "os_running s' = os_running s" by (simp add: os_running_def set_running_tid_def)
  then show "sem_wait_ok cfg s'"
    using t assms(1) by (simp add: sem_wait_ok_def set_running_tid_def os_running_def Let_def)
qed

text \<open>A kill leaves everything of a task but its state.\<close>

lemma kill_leaves:
  assumes "leaves R (os_task_kill i)" and "on_tasks (os_task_kill i) s = Inr s'"
  shows "table_rel R (os_tasks s) (os_tasks s')"
  using leavesD [OF assms(1)] assms(2) by (auto simp: on_tasks_eq_Inr)

lemma sem_wait_kill:
  assumes "sem_wait_ok cfg s" and inv: "os_inv cfg s" and r: "on_tasks (os_task_kill i) s = Inr s'"
  shows "sem_wait_ok cfg s'"
proof (rule sem_wait_kept [OF assms(1) kill_leaves [OF semw.leaves_setters(8) r]])
  show "unat (nTasks (os_tasks s)) \<le> length (task_list (os_tasks s))" by (rule task_inv_bounds(1) [OF os_invD(1) [OF inv]])
qed (rule kill_result [OF r], simp add: os_running_def)+

lemma step_run_inv:
  assumes "step cfg a x y" and "run_inv cfg x" and "limits_ok cfg"
  shows "run_inv cfg y"
proof -
  have sys: "sys_inv cfg y" using step_sys_inv [OF assms(1) _ assms(3)] assms(2) by (simp add: run_inv_def)
  have "sem_wait_ok cfg (snd y) \<and> (fst y \<longrightarrow> os_running (snd y) \<noteq> 0)"
    using assms(1)
  proof cases
    case (creates s c s')
    then have "os_inv cfg s" "sem_wait_ok cfg s" using assms(2) by (simp_all add: run_inv_def sys_inv_def)
    from sem_wait_create [OF this(2,1) creates(4-6)] show ?thesis using creates by simp
  next
    case (start s)
    then have "sem_wait_ok cfg s" "os_running s = 0" using assms(2) by (simp_all add: run_inv_def)
    then have "sem_wait_ok cfg (s\<lparr>os_kern := (os_kern s)\<lparr>running := 1\<rparr>\<rparr>)"
      by (auto simp: sem_wait_ok_def Let_def os_running_def)
    then show ?thesis using start by simp
  next
    case (schedule s s')
    then have "os_inv cfg s" "sem_wait_ok cfg s" using assms(2) by (simp_all add: run_inv_def sys_inv_def)
    from sem_wait_schedule [OF this(2,1) schedule(5,6)] show ?thesis using schedule by simp
  next
    case (call c s ctl s')
    then have "os_inv cfg s" "sem_wait_ok cfg s" "os_running s \<noteq> 0" using assms(2) by (simp_all add: run_inv_def sys_inv_def)
    from sem_wait_task_call [OF this(2,1,3) call(4)] show ?thesis
      using call assms(2) task_call_kern [OF call(4)] by (auto simp: run_inv_def os_running_def kern_after_def)
  next
    case (kill i s s')
    then have "os_inv cfg s" "sem_wait_ok cfg s" "os_running s \<noteq> 0" using assms(2) by (simp_all add: run_inv_def sys_inv_def)
    from sem_wait_kill [OF this(2,1) kill(4)] kill_kept [OF this(1) kill(4)] this(3) show ?thesis
      using kill by (simp add: os_running_def)
  next
    case (return s)
    then show ?thesis using assms(2) by (simp add: run_inv_def)
  next
    case (irq i s s' b)
    then have "os_inv cfg s" "sem_wait_ok cfg s" "b \<longrightarrow> os_running s \<noteq> 0" using assms(2) by (simp_all add: run_inv_def sys_inv_def)
    from sem_wait_irq [OF this(2,1) irq(4)] this(3) show ?thesis
      using irq irq_same_kern [OF irq(4)] by (simp add: os_running_def)
  qed
  with sys show ?thesis by (simp add: run_inv_def)
qed

lemma init_run_inv:
  assumes "storage_ok cfg s" and "limits_ok cfg"
  shows "run_inv cfg (False, os_init cfg s)"
proof -
  have "os_inv cfg (os_init cfg s) \<and> nTasks (os_tasks (os_init cfg s)) = 0 \<and> os_running (os_init cfg s) = 0 \<and>
    os_get_running_tid (os_init cfg s) = NO_TID"
    by (rule os_init_ok) (use assms in \<open>simp_all add: storage_ok_def limits_ok_def\<close>)
  then show ?thesis by (simp add: run_inv_def sys_inv_def running_ok_def sem_wait_ok_def os_get_running_tid_def)
qed

lemma reachable_run_inv:
  assumes "reachable cfg x" and "limits_ok cfg"
  shows "run_inv cfg x"
  using assms(1) by induction (auto intro: init_run_inv step_run_inv assms(2))

section \<open>The operations of the kernel are never stuck\<close>

lemma yield_never_stuck:
  assumes "os_inv cfg s" and "running_ok s" and "os_get_running_tid s \<noteq> NO_TID"
  shows "\<exists>s'. OS_YIELD n s = Inr (Returns, s')" "\<exists>s'. OS_END s = Inr (Returns, s')"
proof -
  have u: "unat (running_tid (os_kern s)) < unat (nTasks (os_tasks s))"
    using assms(2,3) by (simp add: running_ok_def os_get_running_tid_def)
  note b = task_inv_bounds [OF os_invD(1) [OF assms(1)]]
  have i: "unat (self_tid s) = unat (running_tid (os_kern s))"
    using u b(2) by (simp add: self_tid_def os_get_running_tid_def unsigned_ucast_eq take_bit_nat_eq_self)
  then have l: "unat (self_tid s) < length (task_list (os_tasks s))" "self_tid s < nTasks (os_tasks s)"
    using u b(1) by (simp_all add: word_less_nat_alt)
  then show "\<exists>s'. OS_YIELD n s = Inr (Returns, s')" "\<exists>s'. OS_END s = Inr (Returns, s')"
    by (simp_all add: OS_YIELD_def OS_END_def on_tasks_def os_task_internal_state_set_def os_task_kill_def)
qed

section \<open>Where a task goes on\<close>

text \<open>A creation leaves the tasks that exist as they are.\<close>

lemma create_same_tcb:
  assumes inv: "os_inv cfg s" and "creation_ok cfg c s" and r: "create_call cfg c s = Inr s'" and "j < unat (nTasks (os_tasks s))"
  shows "j < unat (nTasks (os_tasks s')) \<and> task_list (os_tasks s') ! j = task_list (os_tasks s) ! j"
proof (cases c)
  case (Create_task f d p pool n m)
  then obtain tid where t: "os_task_create cfg f d p pool n m s = Inr (tid, s')" using r by (auto simp: bindR_eq_Inr)
  have pl: "n = 0 \<or> pool_ok cfg pool n m s" using assms(2) Create_task by simp
  obtain queue where q: "os_tasks s' = add_task (new_tcb f d p queue (os_tasks s)) (os_tasks s)"
    "unat (nTasks (os_tasks s')) = Suc (unat (nTasks (os_tasks s)))"
    by (rule created_task [OF inv pl t])
  then show ?thesis using assms(4) by (simp add: add_task_def)
qed (use r assms(4) in \<open>auto simp: on_sems_eq_Inr on_events_eq_Inr\<close>)

text \<open>Actions that are no call of task \<open>me\<close>, and those that reset it: a task that is suspended while it waits for
  a semaphore starts again from the top of its procedure.\<close>

definition apart :: "nat \<Rightarrow> action \<Rightarrow> bool \<times> os \<Rightarrow> bool" where
  "apart me a x \<longleftrightarrow> (case a of Call c \<Rightarrow> unat (self_tid (snd x)) \<noteq> me | _ \<Rightarrow> True)"

fun restarts :: "nat \<Rightarrow> action \<Rightarrow> bool \<times> os \<Rightarrow> bool" where
  "restarts me (Call (Suspend line i)) x \<longleftrightarrow> unat i = me \<and> tcb_state (task_list (os_tasks (snd x)) ! me) = WAITING_SEM"
| "restarts me a x \<longleftrightarrow> False"

lemma restarts_suspends: "me \<notin> call_resets c \<Longrightarrow> \<not> restarts me (Call c) x"
  by (cases c) simp_all

lemma suspend_resume_point:
  assumes "OS_SUSPEND_TASK n i s = Inr r" and "i \<noteq> self_tid s"
  shows "tcb_internal_state (task_list (os_tasks (snd r)) ! unat i) =
    (if tcb_state (task_list (os_tasks s) ! unat i) = WAITING_SEM then 0 else tcb_internal_state (task_list (os_tasks s) ! unat i))"
proof -
  have "ucast (ucast i :: u16) = i" by simp
  then have "ucast i \<noteq> os_get_running_tid s" using assms(2) by (metis self_tid_def)
  then have "on_tasks (os_task_suspend i) s = Inr (snd r)"
    using assms(1) by (auto simp: OS_SUSPEND_TASK_def on_tasks_eq_Inr bindR_eq_Inr os_get_running_tid_def)
  then show ?thesis
    by (auto simp: on_tasks_eq_Inr os_task_suspend_def task_suspended_set_def os_assert_eq_Inr bindR_eq_Inr tcb_get_def aget_eq_Inr
        mod_tcb_eq_Inr Let_def split: if_split_asm)
qed

lemma table_resume_point:
  "table_rel (core_rel X) (os_tasks s) (os_tasks s') \<Longrightarrow> me \<notin> X \<Longrightarrow> me < unat (nTasks (os_tasks s)) \<Longrightarrow> os_inv cfg s \<Longrightarrow>
    tcb_internal_state (task_list (os_tasks s') ! me) = tcb_internal_state (task_list (os_tasks s) ! me)"
  using task_inv_bounds(1) [OF os_invD(1), of cfg s] by (auto simp: table_rel_def core_rel_def)

lemma call_resume_point:
  assumes "task_call cfg c s = Inr r" and "unat (self_tid s) \<noteq> me" and "me < unat (nTasks (os_tasks s))" and "os_inv cfg s"
  shows "tcb_internal_state (task_list (os_tasks (snd r)) ! me) =
    (if restarts me (Call c) (b, s) then 0 else tcb_internal_state (task_list (os_tasks s) ! me))"
proof (cases "me \<in> call_resets c")
  case True
  then obtain n i where c: "c = Suspend n i" "unat i = me" by (cases c) auto
  then have "i \<noteq> self_tid s" using assms(2) by auto
  then show ?thesis using suspend_resume_point [of n i s r] assms(1) c by auto
next
  case False
  have "table_rel (core_rel (insert (unat (self_tid s)) (call_resets c))) (os_tasks s) (os_tasks (snd r))"
    using gives_upD [OF gives_up_task_call assms(1)] by (simp add: ended_def)
  from table_resume_point [OF this _ assms(3,4)] show ?thesis using False assms(2) restarts_suspends by simp
qed

lemma step_resume_point:
  assumes "step cfg a x y" and "apart me a x" and "run_inv cfg x" and "me < unat (nTasks (os_tasks (snd x)))"
  shows "me < unat (nTasks (os_tasks (snd y))) \<and> tcb_internal_state (task_list (os_tasks (snd y)) ! me) =
    (if restarts me a x then 0 else tcb_internal_state (task_list (os_tasks (snd x)) ! me))"
  using assms(1)
proof cases
  case (creates s c s')
  then have "os_inv cfg s" "me < unat (nTasks (os_tasks s))" using assms(3,4) by (simp_all add: run_inv_def sys_inv_def)
  from create_same_tcb [OF this(1) creates(5,6) this(2)] show ?thesis using creates by simp
next
  case (schedule s s')
  then have inv: "os_inv cfg s" using assms(3) by (simp add: run_inv_def sys_inv_def)
  obtain tid t where "s' = set_running_tid tid (s\<lparr>os_tasks := t\<rparr>)" "task_list t = task_list (os_tasks s)" "nTasks t = nTasks (os_tasks s)"
    by (rule schedule_result [OF inv schedule(5,6)])
  then show ?thesis using schedule assms(4) by (simp add: set_running_tid_def)
next
  case (call c s ctl s')
  then have inv: "os_inv cfg s" using assms(3) by (simp add: run_inv_def sys_inv_def)
  have "nTasks (os_tasks s') = nTasks (os_tasks s)"
    using okeepsD [OF okeeps_task_call inv call(4)] by (simp add: os_kept_def)
  then show ?thesis using call_resume_point [OF call(4) _ _ inv, of me True] call assms(2,4) by (simp add: apart_def)
next
  case (kill i s s')
  then have inv: "os_inv cfg s" using assms(3) by (simp add: run_inv_def sys_inv_def)
  from table_resume_point [OF kill_leaves [OF core.leaves_setters(8) kill(4)], of me "{}", OF _ _ inv] kill_kept [OF inv kill(4)]
  show ?thesis using kill assms(4) by simp
next
  case (irq i s s' b)
  then have inv: "os_inv cfg s" using assms(3) by (simp add: run_inv_def sys_inv_def)
  have e: "table_rel (core_rel {}) (os_tasks s) (os_tasks s')"
    using quietD [OF quiet_irq irq(4)] by (simp add: undisturbed_def)
  have "nTasks (os_tasks s') = nTasks (os_tasks s)"
    using okeepsD [OF okeeps_irq inv irq(4)] by (simp add: os_kept_def)
  then show ?thesis using table_resume_point [OF e _ _ inv, of me] irq assms(4) by simp
qed (use assms(4) in simp_all)

section \<open>Executable runs\<close>

text \<open>The step relation as a function, and runs of given actions.\<close>

fun act :: "config \<Rightarrow> action \<Rightarrow> bool \<times> os \<Rightarrow> (bool \<times> os) option" where
  "act cfg (Create c) (b, s) = (if \<not> b \<and> os_running s = 0 \<and> creation_ok cfg c s
     then (case create_call cfg c s of Inr s' \<Rightarrow> Some (False, s') | Inl e \<Rightarrow> None) else None)"
| "act cfg Start (b, s) = (if \<not> b \<and> os_running s = 0 then Some (False, s\<lparr>os_kern := (os_kern s)\<lparr>running := 1\<rparr>\<rparr>) else None)"
| "act cfg Schedule (b, s) = (if \<not> b \<and> os_running s \<noteq> 0 \<and> (ROUND_ROBIN cfg \<longrightarrow> 0 < nTasks (os_tasks s))
     then (case os_schedule cfg (\<lambda>f s. Inr s) s of Inr s' \<Rightarrow> Some (os_get_running_tid s' \<noteq> NO_TID, s') | Inl e \<Rightarrow> None) else None)"
| "act cfg (Call c) (b, s) = (if b
     then (case task_call cfg c s of Inr r \<Rightarrow> Some (fst r = Goes_on, snd r) | Inl e \<Rightarrow> None) else None)"
| "act cfg (Kill i) (b, s) = (if b
     then (case on_tasks (os_task_kill i) s of Inr s' \<Rightarrow> Some (i \<noteq> self_tid s, s') | Inl e \<Rightarrow> None) else None)"
| "act cfg Return (b, s) = (if b then Some (False, s) else None)"
| "act cfg (Irq i) (b, s) = (case irq_call cfg i s of Inr s' \<Rightarrow> Some (b, s') | Inl e \<Rightarrow> None)"

lemma step_act: "step cfg a x y \<longleftrightarrow> act cfg a x = Some y"
proof
  show "step cfg a x y \<Longrightarrow> act cfg a x = Some y" by (induction rule: step.induct) simp_all
  show "act cfg a x = Some y \<Longrightarrow> step cfg a x y"
    by (cases "(cfg, a, x)" rule: act.cases) (auto intro: step.intros split: if_split_asm sum.splits)
qed

fun acts :: "config \<Rightarrow> action list \<Rightarrow> bool \<times> os \<Rightarrow> (bool \<times> os) option" where
  "acts cfg [] x = Some x"
| "acts cfg (a # as) x = (case act cfg a x of Some y \<Rightarrow> acts cfg as y | None \<Rightarrow> None)"

lemma acts_append: "acts cfg (as @ bs) x = (case acts cfg as x of Some y \<Rightarrow> acts cfg bs y | None \<Rightarrow> None)"
  by (induction "as" arbitrary: x) (auto split: option.splits)

lemma reachable_acts: "reachable cfg x \<Longrightarrow> acts cfg as x = Some y \<Longrightarrow> reachable cfg y"
  by (induction "as" arbitrary: x) (auto split: option.splits intro: reachable.step [OF _ step_act [THEN iffD2]])

text \<open>Runs in which a task makes no calls, whether it is reset in one, and what becomes of its resume point.\<close>

fun acts_apart :: "config \<Rightarrow> nat \<Rightarrow> action list \<Rightarrow> bool \<times> os \<Rightarrow> (bool \<times> os) option" where
  "acts_apart cfg me [] x = Some x"
| "acts_apart cfg me (a # as) x =
     (if apart me a x then (case act cfg a x of Some y \<Rightarrow> acts_apart cfg me as y | None \<Rightarrow> None) else None)"

fun restarted :: "config \<Rightarrow> nat \<Rightarrow> action list \<Rightarrow> bool \<times> os \<Rightarrow> bool" where
  "restarted cfg me [] x \<longleftrightarrow> False"
| "restarted cfg me (a # as) x \<longleftrightarrow> restarts me a x \<or> (case act cfg a x of Some y \<Rightarrow> restarted cfg me as y | None \<Rightarrow> False)"

lemma apart_acts: "acts_apart cfg me as x = Some y \<Longrightarrow> acts cfg as x = Some y"
  by (induction "as" arbitrary: x) (auto split: option.splits if_split_asm)

lemma apart_resume_point:
  assumes "acts_apart cfg me as x = Some y" and "run_inv cfg x" and "limits_ok cfg" and "me < unat (nTasks (os_tasks (snd x)))"
  shows "run_inv cfg y \<and> me < unat (nTasks (os_tasks (snd y))) \<and> tcb_internal_state (task_list (os_tasks (snd y)) ! me) =
    (if restarted cfg me as x then 0 else tcb_internal_state (task_list (os_tasks (snd x)) ! me))"
  using assms(1,2,4)
proof (induction "as" arbitrary: x)
  case (Cons a as)
  then obtain x1 where x1: "apart me a x" "act cfg a x = Some x1" "acts_apart cfg me as x1 = Some y"
    by (auto split: option.splits if_split_asm)
  note st = x1(2) [folded step_act]
  show ?case
    using Cons.IH [OF x1(3) step_run_inv [OF st Cons.prems(2) assms(3)]] step_resume_point [OF st x1(1) Cons.prems(2,3)] x1(2) by auto
qed simp

text \<open>Actions that neither task \<open>me\<close> takes nor suspend or kill it, and runs of them.\<close>

definition spares :: "nat \<Rightarrow> action \<Rightarrow> bool \<times> os \<Rightarrow> bool" where
  "spares me a x \<longleftrightarrow> (case a of Call c \<Rightarrow> unat (self_tid (snd x)) \<noteq> me \<and> me \<notin> call_resets c | Kill i \<Rightarrow> unat i \<noteq> me | _ \<Rightarrow> True)"

fun acts_sparing :: "config \<Rightarrow> nat \<Rightarrow> action list \<Rightarrow> bool \<times> os \<Rightarrow> (bool \<times> os) option" where
  "acts_sparing cfg me [] x = Some x"
| "acts_sparing cfg me (a # as) x =
     (if spares me a x then (case act cfg a x of Some y \<Rightarrow> acts_sparing cfg me as y | None \<Rightarrow> None) else None)"

lemma sparing_acts: "acts_sparing cfg me as x = Some y \<Longrightarrow> acts cfg as x = Some y"
  by (induction "as" arbitrary: x) (auto split: option.splits if_split_asm)

text \<open>Results of concrete runs.\<close>

lemma some_case: "(case m of Some (b, s) \<Rightarrow> P b s | None \<Rightarrow> False) \<Longrightarrow> \<exists>b s. m = Some (b, s) \<and> P b s"
  by (auto split: option.splits)

lemma inr_case: "(case m of Inr (c, s) \<Rightarrow> P c s | Inl e \<Rightarrow> False) \<Longrightarrow> \<exists>c s. m = Inr (c, s) \<and> P c s"
  by (auto split: sum.splits)

text \<open>Two tasks are created and the kernel started on the small configuration.\<close>

definition demo_init :: "bool \<times> os" where
  "demo_init = (False, os_init demo_cfg demo_boot)"

definition demo_boot_acts :: "action list" where
  "demo_boot_acts = [Create (Create_task 1 0 3 [] 0 0), Create (Create_task 1 0 5 [] 0 0), Create (Create_sem 1 0), Start, Schedule]"

lemma demo_limits: "limits_ok demo_cfg"
  by (simp add: limits_ok_def config_ok_def)

lemma demo_init_reachable: "reachable demo_cfg demo_init"
  unfolding demo_init_def
  by (rule reachable.init) (simp add: storage_ok_def demo_boot_def demo_msg_os_def demo_os_def demo_msgqs_def)

lemma demo_reach: "acts demo_cfg as demo_init = Some y \<Longrightarrow> reachable demo_cfg y"
  by (rule reachable_acts [OF demo_init_reachable])

section \<open>Properties\<close>

text \<open>C1: in every state that tasks, interrupts and the scheduler reach after \<open>os_init\<close>, whatever the
  tasks call with whatever arguments, the invariant of every component holds, and no task is running or
  one that exists; while a task procedure is executed, a task is running and the kernel is started.\<close>

theorem reachable_inv:
  assumes "reachable cfg (b, s)" and "limits_ok cfg"
  shows "os_inv cfg s \<and> (os_get_running_tid s = NO_TID \<or> unat (os_get_running_tid s) < unat (nTasks (os_tasks s))) \<and>
    (b \<longrightarrow> os_get_running_tid s \<noteq> NO_TID \<and> os_running s \<noteq> 0)"
  using run_invD [OF reachable_run_inv [OF assms]] by (auto simp: running_ok_def os_get_running_tid_def)

theorem reachable_inv_witness:
  "\<exists>s. acts demo_cfg demo_boot_acts demo_init = Some (True, s) \<and> os_inv demo_cfg s \<and> os_get_running_tid s = 0"
proof -
  have "case acts demo_cfg demo_boot_acts demo_init of Some (b, s) \<Rightarrow> b \<and> os_get_running_tid s = 0 | None \<Rightarrow> False"
    by code_simp
  then obtain s where s: "acts demo_cfg demo_boot_acts demo_init = Some (True, s)" "os_get_running_tid s = 0"
    by (auto split: option.splits)
  then show ?thesis using reachable_inv [OF demo_reach [OF s(1)] demo_limits] by blast
qed

text \<open>C2: no task ever waits for a semaphore that is available: in every reachable state the value of
  the semaphore a waiting task waits for is 0.\<close>

theorem no_waiting_for_available:
  assumes "reachable cfg (b, s)" and "limits_ok cfg" and "0 < N_TOTAL_SEMAPHORES cfg"
    and "i < unat (nTasks (os_tasks s))" and "tcb_state (task_list (os_tasks s) ! i) = WAITING_SEM"
  shows "0 \<le> sint (tcb_semaphore (task_list (os_tasks s) ! i)) \<and>
    semValue (semList (os_sems s) ! nat (sint (tcb_semaphore (task_list (os_tasks s) ! i)))) = 0"
  using sem_wait_okD(3) [OF run_invD(4) [OF reachable_run_inv [OF assms(1,2)]] assms(4,5)] assms(3)
  by (simp add: unavailable_def sem_no_def)

theorem no_waiting_for_available_witness:
  "\<exists>b s. acts demo_cfg (demo_boot_acts @ [Call (Wait_sem 10 0)]) demo_init = Some (b, s) \<and>
    semValue (semList (os_sems s) ! 0) = 0"
proof -
  have "case acts demo_cfg (demo_boot_acts @ [Call (Wait_sem 10 0)]) demo_init of Some (b, s) \<Rightarrow>
      tcb_state (task_list (os_tasks s) ! 0) = WAITING_SEM \<and> tcb_semaphore (task_list (os_tasks s) ! 0) = 0 \<and> nTasks (os_tasks s) = 2
    | None \<Rightarrow> False"
    by code_simp
  then obtain b s where s: "acts demo_cfg (demo_boot_acts @ [Call (Wait_sem 10 0)]) demo_init = Some (b, s)"
    "tcb_state (task_list (os_tasks s) ! 0) = WAITING_SEM" "tcb_semaphore (task_list (os_tasks s) ! 0) = 0" "nTasks (os_tasks s) = 2"
    by (auto split: option.splits)
  have "0 < unat (nTasks (os_tasks s))" "0 < N_TOTAL_SEMAPHORES demo_cfg" using s(4) by simp_all
  from no_waiting_for_available [OF demo_reach [OF s(1)] demo_limits this(2,1) s(2)] s show ?thesis by auto
qed

text \<open>C4: in every reachable state a tick of any clock returns, a scheduling decision returns (with
  round robin, when there is a task), and a running task can give up the processor and can end: none of
  these faults and every loop in them ends.\<close>

theorem kernel_never_stuck:
  assumes "reachable cfg (b, s)" and "limits_ok cfg"
  shows "(\<exists>s'. os_tick cfg s = Inr s') \<and> (\<exists>s'. os_sub_tick cfg i s = Inr s') \<and> (\<exists>s'. os_sub_nTick cfg i n s = Inr s') \<and>
    ((ROUND_ROBIN cfg \<longrightarrow> 0 < nTasks (os_tasks s)) \<longrightarrow> (\<exists>s'. os_schedule cfg (\<lambda>f s. Inr s) s = Inr s')) \<and>
    (b \<longrightarrow> (\<exists>s'. OS_YIELD line s = Inr (Returns, s')) \<and> (\<exists>s'. OS_END s = Inr (Returns, s')))"
proof -
  note r = run_invD [OF reachable_run_inv [OF assms]]
  have t: "\<exists>s'. task_tick cfg c n s = Inr s'" for c n by (rule task_tick_ok [OF r(1), of c n]) blast
  have "\<exists>s'. os_schedule cfg (\<lambda>f s. Inr s) s = Inr s'" if "ROUND_ROBIN cfg \<longrightarrow> 0 < nTasks (os_tasks s)"
    by (rule schedule_sys_inv [OF r(1) that]) blast
  then show ?thesis
    using t yield_never_stuck [OF r(1,2)] r(3) by (simp add: os_tick_def os_sub_tick_def os_sub_nTick_def)
qed

theorem kernel_never_stuck_witness:
  "\<exists>s s'. acts demo_cfg demo_boot_acts demo_init = Some (True, s) \<and> os_tick demo_cfg s = Inr s'"
proof -
  have "case acts demo_cfg demo_boot_acts demo_init of Some (b, s) \<Rightarrow> b | None \<Rightarrow> False" by code_simp
  then obtain s where s: "acts demo_cfg demo_boot_acts demo_init = Some (True, s)" by (auto split: option.splits)
  then show ?thesis using kernel_never_stuck [OF demo_reach [OF s] demo_limits] by blast
qed

text \<open>A call of the running task either goes on with the task still running, or returns from the
  task procedure with no task running and, unless the task has ended, the line of the call recorded as
  its resume point. It changes the procedure, data, priority, id and queue of no task, and the resume
  point of no other task but one it suspends.\<close>

theorem call_effect:
  assumes "task_call cfg c s = Inr (ctl, s')"
  shows "os_get_running_tid s' = (if ctl = Returns then NO_TID else os_get_running_tid s) \<and>
    (\<forall>line. ctl = Returns \<and> call_line c = Some line \<longrightarrow> task_internal_state_get (self_tid s) (os_tasks s') = Inr (of_nat line)) \<and>
    (\<forall>j < length (task_list (os_tasks s)). tcb_core (task_list (os_tasks s') ! j) = tcb_core (task_list (os_tasks s) ! j) \<and>
      (j \<noteq> unat (self_tid s) \<and> j \<notin> call_resets c \<longrightarrow>
        tcb_internal_state (task_list (os_tasks s') ! j) = tcb_internal_state (task_list (os_tasks s) ! j)))"
  using gives_upD [OF gives_up_task_call assms]
  by (auto simp: ended_def kern_after_def table_rel_def core_rel_def os_get_running_tid_def)

theorem call_effect_witness:
  "\<exists>s s'. acts demo_cfg demo_boot_acts demo_init = Some (True, s) \<and> task_call demo_cfg (Wait_ticks 17 5 0) s = Inr (Returns, s') \<and>
    os_get_running_tid s' = NO_TID \<and> task_internal_state_get 0 (os_tasks s') = Inr 17"
proof -
  have "case acts demo_cfg demo_boot_acts demo_init of Some (b, s) \<Rightarrow>
      (case task_call demo_cfg (Wait_ticks 17 5 0) s of Inr (c, s') \<Rightarrow> b \<and> c = Returns \<and> self_tid s = 0 | _ \<Rightarrow> False) | None \<Rightarrow> False"
    by code_simp
  from some_case [OF this] obtain b s where s: "acts demo_cfg demo_boot_acts demo_init = Some (b, s)" and
    "case task_call demo_cfg (Wait_ticks 17 5 0) s of Inr (c, s') \<Rightarrow> b \<and> c = Returns \<and> self_tid s = 0 | _ \<Rightarrow> False" by blast
  from inr_case [OF this(2)] obtain s' where s': "task_call demo_cfg (Wait_ticks 17 5 0) s = Inr (Returns, s')" "b" "self_tid s = 0"
    by blast
  from call_effect [OF s'(1)] s s' show ?thesis by auto
qed

text \<open>C3: a task that has left its procedure from a call on some line goes on behind that line, whatever happens in
  between: in any run in which it makes no calls itself, while other tasks call anything, suspend it, resume it or kill
  it, \<open>OS_BEGIN\<close> jumps to the label of that line (taken modulo \<open>2\<^sup>1\<^sup>6\<close>) when the task is scheduled again. The one
  exception is that of the source: a task that is suspended while it waits for a semaphore is reset
  and starts from the top of its procedure, the label 0.\<close>

theorem resumes_behind_the_call:
  assumes "reachable cfg (True, s)" and "limits_ok cfg" and "task_call cfg c s = Inr (Returns, s1)" and "call_line c = Some line"
    and "acts_apart cfg (unat (self_tid s)) as (False, s1) = Some (b, s2)" and "self_tid s2 = self_tid s"
  shows "OS_BEGIN cases s2 =
    (case cases (if restarted cfg (unat (self_tid s)) as (False, s1) then 0 else of_nat line) of Some body \<Rightarrow> body s2 | None \<Rightarrow> Inr s2)"
proof -
  let ?me = "unat (self_tid s)"
  have st: "step cfg (Call c) (True, s) (Returns = Goes_on, s1)" by (rule step.call [OF assms(3)])
  note r = run_invD [OF reachable_run_inv [OF assms(1,2)]]
  have i1: "run_inv cfg (False, s1)" using step_run_inv [OF st reachable_run_inv [OF assms(1,2)] assms(2)] by simp
  have get: "task_internal_state_get (self_tid s) (os_tasks s1) = Inr (of_nat line)"
    using gives_upD [OF gives_up_task_call assms(3)] assms(4) by (simp add: ended_def)
  have "?me < unat (nTasks (os_tasks s))"
    using r(2,3) task_inv_bounds(2) [OF os_invD(1) [OF r(1)]]
    by (simp add: running_ok_def self_tid_def os_get_running_tid_def unsigned_ucast_eq take_bit_nat_eq_self)
  then have me: "?me < unat (nTasks (os_tasks s1))"
    using okeepsD [OF okeeps_task_call r(1) assms(3)] by (simp add: os_kept_def)
  note y = apart_resume_point [OF assms(5) i1 assms(2), unfolded snd_conv, OF me]
  have l: "?me < length (task_list (os_tasks s2))"
    using y task_inv_bounds(1) [OF os_invD(1) [OF run_invD(1) [of cfg b s2]]] by simp
  have "tcb_internal_state (task_list (os_tasks s1) ! ?me) = of_nat line"
    using get by (auto simp: task_internal_state_get_def res_simps)
  then have "task_internal_state_get (self_tid s2) (os_tasks s2) =
      Inr (if restarted cfg ?me as (False, s1) then 0 else of_nat line)"
    using l assms(6) y by (simp add: task_internal_state_get_def)
  then show ?thesis by (simp add: OS_BEGIN_def)
qed

text \<open>The first task leaves by a call on line 17; the second one runs, and then the first is scheduled again.\<close>

definition demo_left :: "kcall \<Rightarrow> action list \<Rightarrow> bool \<Rightarrow> bool" where
  "demo_left c as restart \<longleftrightarrow> (case acts demo_cfg demo_boot_acts demo_init of None \<Rightarrow> False | Some (b, s) \<Rightarrow>
     (case task_call demo_cfg c s of Inl e \<Rightarrow> False | Inr (ctl, s1) \<Rightarrow>
       (case acts_apart demo_cfg 0 as (False, s1) of None \<Rightarrow> False | Some (b', s2) \<Rightarrow>
          b \<and> self_tid s = 0 \<and> ctl = Returns \<and> self_tid s2 = 0 \<and> (restarted demo_cfg 0 as (False, s1) \<longleftrightarrow> restart))))"

lemma demo_leftD:
  assumes "demo_left c as restart"
  obtains s s1 b s2 where "acts demo_cfg demo_boot_acts demo_init = Some (True, s)" "task_call demo_cfg c s = Inr (Returns, s1)"
    "acts_apart demo_cfg (unat (self_tid s)) as (False, s1) = Some (b, s2)" "self_tid s2 = self_tid s"
    "restarted demo_cfg (unat (self_tid s)) as (False, s1) \<longleftrightarrow> restart" "acts demo_cfg (demo_boot_acts @ Call c # as) demo_init = Some (b, s2)"
proof -
  from assms obtain b0 s where s: "acts demo_cfg demo_boot_acts demo_init = Some (b0, s)" and
    c: "case task_call demo_cfg c s of Inr (ctl, s1) \<Rightarrow> (case acts_apart demo_cfg 0 as (False, s1) of Some (b', s2) \<Rightarrow>
          b0 \<and> self_tid s = 0 \<and> ctl = Returns \<and> self_tid s2 = 0 \<and> (restarted demo_cfg 0 as (False, s1) \<longleftrightarrow> restart) | None \<Rightarrow> False)
        | Inl e \<Rightarrow> False"
    unfolding demo_left_def by (blast dest: some_case)
  from inr_case [OF c] obtain ctl s1 where s1: "task_call demo_cfg c s = Inr (ctl, s1)" and
    d: "case acts_apart demo_cfg 0 as (False, s1) of Some (b', s2) \<Rightarrow>
          b0 \<and> self_tid s = 0 \<and> ctl = Returns \<and> self_tid s2 = 0 \<and> (restarted demo_cfg 0 as (False, s1) \<longleftrightarrow> restart) | None \<Rightarrow> False" by blast
  from some_case [OF d] obtain b s2 where r: "acts demo_cfg demo_boot_acts demo_init = Some (True, s)" "task_call demo_cfg c s = Inr (Returns, s1)"
    "acts_apart demo_cfg 0 as (False, s1) = Some (b, s2)" "self_tid s = 0" "self_tid s2 = 0" "restarted demo_cfg 0 as (False, s1) \<longleftrightarrow> restart"
    using s s1 by auto
  have "acts demo_cfg (demo_boot_acts @ Call c # as) demo_init = Some (b, s2)"
    unfolding acts_append r(1) using r(2) apart_acts [OF r(3)] by (simp del: task_call.simps acts.simps add: acts.simps(2))
  then show ?thesis using that r by simp
qed

definition demo_labels :: "u16 \<Rightarrow> proc option" where
  "demo_labels = (\<lambda>_. None)(0 \<mapsto> os_cbkSleep, 17 \<mapsto> (\<lambda>s. Inr (os_free_tid s)))"

text \<open>It sleeps for a tick and is suspended and resumed in between: it goes on behind line 17. It waits for a semaphore and is
  suspended and resumed: it starts at the top.\<close>

theorem resumes_behind_the_call_witness:
  "(\<exists>b s. acts demo_cfg (demo_boot_acts @ Call (Wait_ticks 17 1 0) # [Schedule, Call (Suspend 30 0), Call (Resume 31 0), Irq Tick, Call (Yield 32), Schedule])
      demo_init = Some (b, s) \<and> OS_BEGIN demo_labels s = Inr (os_free_tid s)) \<and>
   (\<exists>b s. acts demo_cfg (demo_boot_acts @ Call (Wait_sem 17 0) # [Schedule, Call (Suspend 30 0), Call (Resume 31 0), Call (Yield 32), Schedule])
      demo_init = Some (b, s) \<and> OS_BEGIN demo_labels s = Inr s)"
proof
  let ?as = "[Schedule, Call (Suspend 30 0), Call (Resume 31 0), Irq Tick, Call (Yield 32), Schedule]"
  have "demo_left (Wait_ticks 17 1 0) ?as False" by code_simp
  then obtain s s1 b s2 where s: "acts demo_cfg demo_boot_acts demo_init = Some (True, s)"
    "task_call demo_cfg (Wait_ticks 17 1 0) s = Inr (Returns, s1)" "acts_apart demo_cfg (unat (self_tid s)) ?as (False, s1) = Some (b, s2)"
    "self_tid s2 = self_tid s" "restarted demo_cfg (unat (self_tid s)) ?as (False, s1) \<longleftrightarrow> False"
    "acts demo_cfg (demo_boot_acts @ Call (Wait_ticks 17 1 0) # ?as) demo_init = Some (b, s2)" by (rule demo_leftD)
  from resumes_behind_the_call [OF demo_reach [OF s(1)] demo_limits s(2) _ s(3,4), of 17 demo_labels] s(5)
  have "OS_BEGIN demo_labels s2 = Inr (os_free_tid s2)" by (simp add: demo_labels_def)
  then show "\<exists>b s. acts demo_cfg (demo_boot_acts @ Call (Wait_ticks 17 1 0) # ?as) demo_init = Some (b, s) \<and> OS_BEGIN demo_labels s = Inr (os_free_tid s)"
    using s(6) by blast
next
  let ?as = "[Schedule, Call (Suspend 30 0), Call (Resume 31 0), Call (Yield 32), Schedule]"
  have "demo_left (Wait_sem 17 0) ?as True" by code_simp
  then obtain s s1 b s2 where s: "acts demo_cfg demo_boot_acts demo_init = Some (True, s)"
    "task_call demo_cfg (Wait_sem 17 0) s = Inr (Returns, s1)" "acts_apart demo_cfg (unat (self_tid s)) ?as (False, s1) = Some (b, s2)"
    "self_tid s2 = self_tid s" "restarted demo_cfg (unat (self_tid s)) ?as (False, s1) \<longleftrightarrow> True"
    "acts demo_cfg (demo_boot_acts @ Call (Wait_sem 17 0) # ?as) demo_init = Some (b, s2)" by (rule demo_leftD)
  from resumes_behind_the_call [OF demo_reach [OF s(1)] demo_limits s(2) _ s(3,4), of 17 demo_labels] s(5)
  have "OS_BEGIN demo_labels s2 = Inr s2" by (simp add: demo_labels_def os_cbkSleep_def)
  then show "\<exists>b s. acts demo_cfg (demo_boot_acts @ Call (Wait_sem 17 0) # ?as) demo_init = Some (b, s) \<and> OS_BEGIN demo_labels s = Inr s"
    using s(6) by blast
qed

end
