(* ===== verification/Os_Api.thy ===== *)
theory Os_Api
  imports Os_Handoff Os_Runs
begin

text \<open>
  The public macros of \<open>os_kernel.h\<close>, as the macros of the modules they stand for, and the way of a
  message through them. \<open>line\<close> is the source line of the macro; \<open>msg_post_again\<close> and
  \<open>msg_receive_again\<close> are what is left of a blocking call when its task runs again.
\<close>

section \<open>The public macros\<close>

definition task_open :: "(u16 \<Rightarrow> proc option) \<Rightarrow> proc" where
  "task_open cases s = OS_BEGIN cases s"

definition task_close :: "os \<Rightarrow> (ctl \<times> os) res" where
  "task_close s = OS_END s"

definition task_wait :: "nat \<Rightarrow> u32 \<Rightarrow> os \<Rightarrow> (ctl \<times> os) res" where
  "task_wait line ticks s = OS_WAIT_TICKS line ticks 0 s"

definition task_wait_id :: "nat \<Rightarrow> u8 \<Rightarrow> u32 \<Rightarrow> os \<Rightarrow> (ctl \<times> os) res" where
  "task_wait_id line i ticks s = OS_WAIT_TICKS line ticks i s"

definition task_suspend :: "nat \<Rightarrow> u8 \<Rightarrow> os \<Rightarrow> (ctl \<times> os) res" where
  "task_suspend line i s = OS_SUSPEND_TASK line i s"

definition task_resume :: "nat \<Rightarrow> u8 \<Rightarrow> os \<Rightarrow> (ctl \<times> os) res" where
  "task_resume line i s = OS_RESUME_TASK line i s"

definition event_wait :: "config \<Rightarrow> nat \<Rightarrow> u8 \<Rightarrow> os \<Rightarrow> (ctl \<times> os) res" where
  "event_wait cfg line event s = OS_WAIT_SINGLE_EVENT cfg line event 0 None s"

definition event_wait_ex :: "config \<Rightarrow> nat \<Rightarrow> u8 \<Rightarrow> proc \<Rightarrow> os \<Rightarrow> (ctl \<times> os) res" where
  "event_wait_ex cfg line event cb s = OS_WAIT_SINGLE_EVENT cfg line event 0 (Some cb) s"

definition event_wait_timeout :: "config \<Rightarrow> nat \<Rightarrow> u8 \<Rightarrow> u32 \<Rightarrow> os \<Rightarrow> (ctl \<times> os) res" where
  "event_wait_timeout cfg line event timeout s = OS_WAIT_SINGLE_EVENT cfg line event timeout None s"

definition event_wait_timeout_ex :: "config \<Rightarrow> nat \<Rightarrow> u8 \<Rightarrow> u32 \<Rightarrow> proc \<Rightarrow> os \<Rightarrow> (ctl \<times> os) res" where
  "event_wait_timeout_ex cfg line event timeout cb s = OS_WAIT_SINGLE_EVENT cfg line event timeout (Some cb) s"

definition event_get_timeout :: "os \<Rightarrow> u32 res" where
  "event_get_timeout s = OS_GET_TASK_TIMEOUT_VALUE s"

definition event_wait_multiple :: "config \<Rightarrow> nat \<Rightarrow> bool \<Rightarrow> int list \<Rightarrow> os \<Rightarrow> (ctl \<times> os) res" where
  "event_wait_multiple cfg line waitAll args s = OS_WAIT_MULTIPLE_EVENTS cfg line waitAll args s"

definition event_signal :: "config \<Rightarrow> nat \<Rightarrow> u8 \<Rightarrow> os \<Rightarrow> (ctl \<times> os) res" where
  "event_signal cfg line event s = OS_SIGNAL_EVENT cfg line event s"

definition event_ISR_signal :: "config \<Rightarrow> u8 \<Rightarrow> os \<Rightarrow> os res" where
  "event_ISR_signal cfg event s = OS_INT_SIGNAL_EVENT cfg event s"

definition sem_wait :: "config \<Rightarrow> nat \<Rightarrow> u16 \<Rightarrow> os \<Rightarrow> (ctl \<times> os) res" where
  "sem_wait cfg line sem s = OS_WAIT_SEM cfg line sem s"

definition sem_signal :: "config \<Rightarrow> nat \<Rightarrow> u16 \<Rightarrow> os \<Rightarrow> (ctl \<times> os) res" where
  "sem_signal cfg line sem s = OS_SIGNAL_SEM cfg line sem s"

definition sem_ISR_signal :: "config \<Rightarrow> u16 \<Rightarrow> os \<Rightarrow> os res" where
  "sem_ISR_signal cfg sem s = OS_SIGNAL_SEM_NO_SCHEDULE cfg sem s"

definition msg_post :: "config \<Rightarrow> nat \<Rightarrow> u8 \<Rightarrow> bytes \<Rightarrow> os \<Rightarrow> (ctl \<times> bytes \<times> os) res" where
  "msg_post cfg line task_id msg s = OS_MSG_Q_POST cfg line task_id msg 0 0 False s"

definition msg_post_async :: "config \<Rightarrow> nat \<Rightarrow> u8 \<Rightarrow> bytes \<Rightarrow> os \<Rightarrow> (ctl \<times> bytes \<times> os) res" where
  "msg_post_async cfg line task_id msg s = OS_MSG_Q_POST cfg line task_id msg 0 0 True s"

definition msg_post_in :: "config \<Rightarrow> nat \<Rightarrow> u8 \<Rightarrow> bytes \<Rightarrow> u32 \<Rightarrow> os \<Rightarrow> (ctl \<times> bytes \<times> os) res" where
  "msg_post_in cfg line task_id msg delay s = OS_MSG_Q_POST cfg line task_id msg delay 0 False s"

definition msg_post_every :: "config \<Rightarrow> nat \<Rightarrow> u8 \<Rightarrow> bytes \<Rightarrow> u32 \<Rightarrow> os \<Rightarrow> (ctl \<times> bytes \<times> os) res" where
  "msg_post_every cfg line task_id msg period s = OS_MSG_Q_POST cfg line task_id msg period period False s"

definition msg_post_again :: "config \<Rightarrow> nat \<Rightarrow> u8 \<Rightarrow> bytes \<Rightarrow> os \<Rightarrow> (ctl \<times> bytes \<times> os) res" where
  "msg_post_again cfg line task_id msg s = OS_MSG_Q_POST_resume cfg line task_id msg 0 0 False s"

definition msg_receive :: "config \<Rightarrow> nat \<Rightarrow> u8 \<Rightarrow> bytes \<Rightarrow> os \<Rightarrow> (ctl \<times> bytes \<times> os) res" where
  "msg_receive cfg line task_id pMsg s = OS_MSG_Q_RECEIVE cfg line task_id pMsg False None s"

definition msg_receive_ex :: "config \<Rightarrow> nat \<Rightarrow> u8 \<Rightarrow> bytes \<Rightarrow> proc \<Rightarrow> os \<Rightarrow> (ctl \<times> bytes \<times> os) res" where
  "msg_receive_ex cfg line task_id pMsg cb s = OS_MSG_Q_RECEIVE cfg line task_id pMsg False (Some cb) s"

text \<open>\<open>msg_receive_async\<close> passes three arguments to a macro of four; here the missing one is NULL.\<close>

definition msg_receive_async :: "config \<Rightarrow> nat \<Rightarrow> u8 \<Rightarrow> bytes \<Rightarrow> os \<Rightarrow> (ctl \<times> bytes \<times> os) res" where
  "msg_receive_async cfg line task_id pMsg s = OS_MSG_Q_RECEIVE cfg line task_id pMsg True None s"

definition msg_receive_again :: "config \<Rightarrow> nat \<Rightarrow> u8 \<Rightarrow> bytes \<Rightarrow> os \<Rightarrow> (ctl \<times> bytes \<times> os) res" where
  "msg_receive_again cfg line task_id pMsg s = OS_MSG_Q_RECEIVE_resume cfg line task_id pMsg False None s"

section \<open>The way of a message\<close>

text \<open>In the meantime other tasks may run, as long as they leave the queues and one task alone.\<close>

definition meanwhile :: "config \<Rightarrow> nat \<Rightarrow> os \<Rightarrow> os \<Rightarrow> bool" where
  "meanwhile cfg me s s' \<longleftrightarrow> os_inv cfg s' \<and> os_msgqs s' = os_msgqs s \<and>
     nTasks (os_tasks s') = nTasks (os_tasks s) \<and> task_list (os_tasks s') ! me = task_list (os_tasks s) ! me"

lemma meanwhile_queue:
  "meanwhile cfg me s s' \<Longrightarrow> has_queue cfg t queue s' = has_queue cfg t queue s \<and> change_of queue s' = change_of queue s"
  by (simp add: meanwhile_def has_queue_def change_of_def)

lemma with_queue_find:
  "unat queue < length (msgQList m) \<Longrightarrow> find_loop (msgQList (with_queue m queue q)) i k t = find_loop (msgQList m) i k t"
proof (induction k arbitrary: i)
  case (Suc k)
  have "aget (msgQList (with_queue m queue q)) i = bindR (aget (msgQList m) i)
      (\<lambda>x. Inr (if i = unat queue then x\<lparr>mq_q := q\<rparr> else x))"
    using Suc.prems by (cases "i < length (msgQList m)") (simp_all add: with_queue_def aget_def)
  then show ?case using Suc by (cases "aget (msgQList m) i") (simp_all add: Let_def)
qed simp

lemma with_queue_same_queue:
  assumes "os_msgqs s' = with_queue (os_msgqs s) queue q" and "unat queue < length (msgQList (os_msgqs s))"
  shows "has_queue cfg t queue s' = has_queue cfg t queue s" "change_of queue s' = change_of queue s"
    "queue_at (os_msgqs s') queue = q"
proof -
  have n: "nQueues (os_msgqs s') = nQueues (os_msgqs s)" using assms(1) by (simp add: with_queue_def)
  show "has_queue cfg t queue s' = has_queue cfg t queue s"
    using with_queue_find [OF assms(2)] by (simp add: has_queue_def os_msgQ_find_def n) (simp add: assms(1))
  show "change_of queue s' = change_of queue s" "queue_at (os_msgqs s') queue = q"
    using assms by (simp_all add: change_of_def with_queue_def queue_at_def)
qed

text \<open>From the wake-up to the delivery, for a message that is due at once.\<close>

lemma stamped_now:
  assumes "12 \<le> m" and "m \<le> length msg"
  shows "mdelay (take m (stamped 0 0 msg)) = 0" "mreload (take m (stamped 0 0 msg)) = 0"
    "delivered (take m (stamped 0 0 msg)) = take m (stamped 0 0 msg)"
  using stamped_fields [OF assms, of 0 0] by (simp_all add: delivered_def)

lemma post_wakes_receiver:
  assumes "in_task cfg s" and "has_queue cfg t queue s" and "unat t < unat (nTasks (os_tasks s))" and "self_tid s \<noteq> t"
    and "blocked_on line (change_of queue s) MSG_QUEUE_EMPTY (task_list (os_tasks s) ! unat t)"
    and "qm (queue_at (os_msgqs s) queue) \<le> length msg"
    and "length (qmsgs (queue_at (os_msgqs s) queue)) < qn (queue_at (os_msgqs s) queue) - 1"
  obtains s' q where "msg_post cfg line' t msg s = Inr (Goes_on, stamped 0 0 msg, s')"
    "os_msgqs s' = with_queue (os_msgqs s) queue q"
    "qmsgs q = qmsgs (queue_at (os_msgqs s) queue) @ [take (qm (queue_at (os_msgqs s) queue)) (stamped 0 0 msg)]"
    "q_messageSize q = q_messageSize (queue_at (os_msgqs s) queue)" "nTasks (os_tasks s') = nTasks (os_tasks s)"
    "tcb_state (task_list (os_tasks s') ! unat t) = READY" "tcb_msgResult (task_list (os_tasks s') ! unat t) = MSG_QUEUE_EMPTY"
    "tcb_msgChangeEvent (task_list (os_tasks s') ! unat t) = change_of queue s"
    "tcb_internal_state (task_list (os_tasks s') ! unat t) = of_nat line"
proof -
  obtain s' q where s': "OS_MSG_Q_POST cfg line' t msg 0 0 False s = Inr (Goes_on, stamped 0 0 msg, s')"
    "os_msgqs s' = with_queue (os_msgqs s) queue q"
    "qmsgs q = qmsgs (queue_at (os_msgqs s) queue) @ [take (qm (queue_at (os_msgqs s) queue)) (stamped 0 0 msg)]"
    "q_messageSize q = q_messageSize (queue_at (os_msgqs s) queue)" "told s (change_of queue s) s'"
    by (rule post_delivers [OF assms(1,2,6,7), of line' 0 0 False])
  have "unat t \<noteq> unat (self_tid s)" using assms(4) by (simp add: word_unat_eq_iff)
  then have "task_list (os_tasks s') ! unat t = sig_tcb (change_of queue s) (task_list (os_tasks s) ! unat t)"
    using s'(5) assms(3) by (auto simp: told_def)
  then show ?thesis
    using that [OF _ s'(2-4)] s'(1,5) sig_tcb_blocked [OF assms(5)] by (simp add: msg_post_def told_def)
qed

text \<open>The same, until the receiver has run again.\<close>

lemma post_then_receive:
  assumes "in_task cfg s" and "has_queue cfg t queue s" and "unat t < unat (nTasks (os_tasks s))" and "self_tid s \<noteq> t"
    and "blocked_on line (change_of queue s) MSG_QUEUE_EMPTY (task_list (os_tasks s) ! unat t)"
    and "qm (queue_at (os_msgqs s) queue) \<le> length msg"
    and "length (qmsgs (queue_at (os_msgqs s) queue)) < qn (queue_at (os_msgqs s) queue) - 1"
    and "\<forall>x \<in> set (qmsgs (queue_at (os_msgqs s) queue)). mdelay x \<noteq> 0" and "qm (queue_at (os_msgqs s) queue) \<le> length buf"
  shows "\<exists>s2. msg_post cfg line' t msg s = Inr (Goes_on, stamped 0 0 msg, s2) \<and>
    tcb_state (task_list (os_tasks s2) ! unat t) = READY \<and> tcb_internal_state (task_list (os_tasks s2) ! unat t) = of_nat line \<and>
    (\<forall>s3. meanwhile cfg (unat t) s2 s3 \<and> self_tid s3 = t \<longrightarrow>
      (\<exists>s4. msg_receive_again cfg line t buf s3 = Inr (Goes_on,
          take (qm (queue_at (os_msgqs s) queue)) (stamped 0 0 msg) @ drop (qm (queue_at (os_msgqs s) queue)) buf, s4) \<and>
        qmsgs (queue_at (os_msgqs s4) queue) = qmsgs (queue_at (os_msgqs s) queue)))"
proof -
  let ?q = "queue_at (os_msgqs s) queue"
  note c = change_of_ok [OF in_taskD(1) [OF assms(1)] assms(2)]
  have m: "12 \<le> qm ?q" by (rule queue_invD(5) [OF msgq_invD(2) [OF c(3,4)]])
  obtain s2 q where s2: "msg_post cfg line' t msg s = Inr (Goes_on, stamped 0 0 msg, s2)"
    "os_msgqs s2 = with_queue (os_msgqs s) queue q" "qmsgs q = qmsgs ?q @ [take (qm ?q) (stamped 0 0 msg)]"
    "q_messageSize q = q_messageSize ?q" "nTasks (os_tasks s2) = nTasks (os_tasks s)"
    "tcb_state (task_list (os_tasks s2) ! unat t) = READY" "tcb_msgResult (task_list (os_tasks s2) ! unat t) = MSG_QUEUE_EMPTY"
    "tcb_msgChangeEvent (task_list (os_tasks s2) ! unat t) = change_of queue s"
    "tcb_internal_state (task_list (os_tasks s2) ! unat t) = of_nat line"
    by (rule post_wakes_receiver [OF assms(1-7)])
  note w = with_queue_same_queue [OF s2(2) c(5)]
  have "\<exists>s4. msg_receive_again cfg line t buf s3 =
            Inr (Goes_on, take (qm ?q) (stamped 0 0 msg) @ drop (qm ?q) buf, s4) \<and>
          qmsgs (queue_at (os_msgqs s4) queue) = qmsgs ?q"
    if mw: "meanwhile cfg (unat t) s2 s3" and me: "self_tid s3 = t" for s3
  proof -
    have in3: "in_task cfg s3" using mw me assms(3) s2(5) by (simp add: in_task_def meanwhile_def word_less_nat_alt)
    have hq: "has_queue cfg t queue s3" "change_of queue s3 = change_of queue s"
      using meanwhile_queue [OF mw, of t queue] w(1,2) assms(2) by simp_all
    have eq: "queue_at (os_msgqs s3) queue = q" "tcb_msgResult (task_list (os_tasks s3) ! unat t) = MSG_QUEUE_EMPTY"
      "tcb_msgChangeEvent (task_list (os_tasks s3) ! unat t) = change_of queue s"
      using mw w(3) s2(7,8) by (simp_all add: meanwhile_def)
    have again: "noted_on (change_of queue s3) MSG_QUEUE_EMPTY s3" using eq(2,3) me hq(2) by (simp add: noted_on_def)
    let ?m = "take (qm ?q) (stamped 0 0 msg)"
    have sz: "qm (queue_at (os_msgqs s3) queue) = qm ?q" and ms: "qmsgs (queue_at (os_msgqs s3) queue) = qmsgs ?q @ ?m # []"
      using eq(1) s2(3,4) by simp_all
    obtain s4 x where s4: "receive_round cfg line t buf False None (change_of queue s3) s3 = Inr (Goes_on, delivered ?m @ drop (qm ?q) buf, s4)"
      "os_msgqs s4 = with_queue (os_msgqs s3) queue x" "qmsgs x = [] @ qmsgs ?q @ (if mreload ?m = 0 then [] else [delivered ?m])"
      by (rule receive_round_delivers [OF in3 hq(1), unfolded sz, OF assms(9) ms assms(8) stamped_now(1) [OF m assms(6)]])
    have "queue_at (os_msgqs s4) queue = x"
      using s4(2) change_of_ok(5) [OF in_taskD(1) [OF in3] hq(1)] by (simp add: with_queue_def queue_at_def)
    then show ?thesis
      using s4(1,3) again_rounds(1) [OF in3 again] stamped_now(2,3) [OF m assms(6)] by (simp add: msg_receive_again_def)
  qed
  with s2(1,6,9) show ?thesis by blast
qed

section \<open>Property\<close>

text \<open>What does not depend on which task is running.\<close>

lemma set_running_sel:
  "os_inv cfg (set_running_tid i s) = os_inv cfg s" "self_tid (set_running_tid i s) = ucast i"
  "os_tasks (set_running_tid i s) = os_tasks s" "os_msgqs (set_running_tid i s) = os_msgqs s"
  "os_sems (set_running_tid i s) = os_sems s" "os_events (set_running_tid i s) = os_events s"
  by (simp_all add: os_inv_def queues_inv_def set_running_tid_def self_tid_def os_get_running_tid_def)

text \<open>C8: \<open>msg_receive\<close> with no message due gives up the processor and leaves its task waiting for the
  change event of its queue. Whatever other tasks do to each other then, the next \<open>msg_post\<close> to the task,
  if there is room, goes on at once, appends the message and makes the receiver ready, at the line behind
  its wait; and when the receiver runs again, it goes on with that message in its buffer, the queue being
  left as it was before.\<close>

theorem receiver_gets_message:
  assumes "in_task cfg s" and "has_queue cfg t queue s" and "self_tid s = t"
    and "pending (task_list (os_tasks s) ! unat t) = {}"
    and "\<forall>x \<in> set (qmsgs (queue_at (os_msgqs s) queue)). mdelay x \<noteq> 0"
    and "qm (queue_at (os_msgqs s) queue) \<le> length buf"
  shows "\<exists>s0. msg_receive cfg line t buf s = Inr (Returns, buf, s0) \<and> os_get_running_tid s0 = NO_TID \<and>
    tcb_state (task_list (os_tasks s0) ! unat t) = WAITING_EVENT \<and>
    (\<forall>s1 msg. meanwhile cfg (unat t) s0 s1 \<and> in_task cfg s1 \<and> self_tid s1 \<noteq> t \<and>
        qm (queue_at (os_msgqs s) queue) \<le> length msg \<and>
        length (qmsgs (queue_at (os_msgqs s) queue)) < qn (queue_at (os_msgqs s) queue) - 1 \<longrightarrow>
      (\<exists>s2. msg_post cfg line' t msg s1 = Inr (Goes_on, stamped 0 0 msg, s2) \<and>
        tcb_state (task_list (os_tasks s2) ! unat t) = READY \<and>
        tcb_internal_state (task_list (os_tasks s2) ! unat t) = of_nat line \<and>
        (\<forall>s3. meanwhile cfg (unat t) s2 s3 \<and> self_tid s3 = t \<longrightarrow>
          (\<exists>s4. msg_receive_again cfg line t buf s3 = Inr (Goes_on,
              take (qm (queue_at (os_msgqs s) queue)) (stamped 0 0 msg) @ drop (qm (queue_at (os_msgqs s) queue)) buf, s4) \<and>
            qmsgs (queue_at (os_msgqs s4) queue) = qmsgs (queue_at (os_msgqs s) queue)))))"
  (is "\<exists>s0. _ \<and> _ \<and> _ \<and> (\<forall>s1 msg. _ \<longrightarrow> ?taken s1 msg)")
proof -
  note i = in_taskD [OF assms(1)]
  obtain s0 where s0: "OS_MSG_Q_RECEIVE cfg line t buf False None s = Inr (Returns, buf, s0)" "os_msgqs s0 = os_msgqs s"
    "nTasks (os_tasks s0) = nTasks (os_tasks s)" "os_get_running_tid s0 = NO_TID"
    "blocked_on line (change_of queue s) MSG_QUEUE_EMPTY (task_list (os_tasks s0) ! unat t)"
    using receive_blocks [OF assms(1,2) _ assms(5), of line buf] assms(3,4) by metis
  have same: "os_msgqs s1 = os_msgqs s" "has_queue cfg t queue s1" "unat t < unat (nTasks (os_tasks s1))"
    "blocked_on line (change_of queue s1) MSG_QUEUE_EMPTY (task_list (os_tasks s1) ! unat t)" if "meanwhile cfg (unat t) s0 s1" for s1
    using that s0(2,3,5) assms(2,3) i(4) by (simp_all add: meanwhile_def has_queue_def change_of_def)
  have "?taken s1 msg" if "meanwhile cfg (unat t) s0 s1" "in_task cfg s1" "self_tid s1 \<noteq> t"
      "qm (queue_at (os_msgqs s) queue) \<le> length msg"
      "length (qmsgs (queue_at (os_msgqs s) queue)) < qn (queue_at (os_msgqs s) queue) - 1" for s1 msg
    by (rule post_then_receive [OF that(2) same(2,3) [OF that(1)] that(3) same(4) [OF that(1)],
        unfolded same(1) [OF that(1)], OF that(4,5) assms(5,6)])
  then show ?thesis
    using s0(1,4,5) by (intro exI [of _ s0]) (simp add: msg_receive_def blocked_on_def)
qed

theorem receiver_gets_message_witness:
  "\<exists>s0 s2 s4. msg_receive demo_cfg 30 1 (demo_msg 0 0 0) (set_running_tid 1 demo_boot) = Inr (Returns, demo_msg 0 0 0, s0) \<and>
     msg_post demo_cfg 50 1 (demo_msg 7 0 0) (set_running_tid 0 s0) = Inr (Goes_on, demo_msg 7 0 0, s2) \<and>
     tcb_state (task_list (os_tasks s2) ! 1) = READY \<and>
     msg_receive_again demo_cfg 30 1 (demo_msg 0 0 0) (set_running_tid 1 s2) = Inr (Goes_on, demo_msg 7 0 0, s4)"
proof -
  let ?s = "set_running_tid 1 demo_boot"
  note kern = set_running_sel
  have it: "in_task demo_cfg ?s" using demo_boot_inv by (simp add: in_task_def kern)
  have q: "os_msgqs demo_boot = demo_msgqs" by (simp add: demo_boot_def demo_msg_os_def)
  have hq: "has_queue demo_cfg 1 0 ?s"
    by (simp add: has_queue_def kern q os_msgQ_find_def) (simp add: demo_msgqs_def aget_def)
  have p: "pending (task_list (os_tasks ?s) ! unat (1 :: u8)) = {}"
    by (simp add: kern demo_boot_def pending_def wq_elems_empty)
  have at: "queue_at (os_msgqs demo_boot) 0 = demo_queue" by (simp add: q demo_msgqs_inv(2))
  have sz: "qm demo_queue = 12" "qn demo_queue = 3" "length (demo_msg a b c) = 12" for a b c
    by (simp_all add: demo_queue_def demo_msg_def)
  have st: "stamped 0 0 (demo_msg 7 0 0) = demo_msg 7 0 0" by (simp add: stamped_def set_fld_def demo_msg_def)
  have h: "self_tid ?s = 1" "\<forall>x \<in> set (qmsgs (queue_at (os_msgqs ?s) 0)). mdelay x \<noteq> 0"
    "qm (queue_at (os_msgqs ?s) 0) \<le> length (demo_msg 0 0 0)"
    by (simp_all add: kern at demo_queue_inv(2) sz)
  from receiver_gets_message [OF it hq h(1) p h(2,3), of 30 50]
  obtain s0 where s0: "msg_receive demo_cfg 30 1 (demo_msg 0 0 0) ?s = Inr (Returns, demo_msg 0 0 0, s0)"
    and all: "\<forall>s1 msg. meanwhile demo_cfg 1 s0 s1 \<and> in_task demo_cfg s1 \<and> self_tid s1 \<noteq> 1 \<and> 12 \<le> length msg \<longrightarrow>
      (\<exists>s2. msg_post demo_cfg 50 1 msg s1 = Inr (Goes_on, stamped 0 0 msg, s2) \<and>
        tcb_state (task_list (os_tasks s2) ! 1) = READY \<and> tcb_internal_state (task_list (os_tasks s2) ! 1) = 30 \<and>
        (\<forall>s3. meanwhile demo_cfg 1 s2 s3 \<and> self_tid s3 = 1 \<longrightarrow>
          (\<exists>s4. msg_receive_again demo_cfg 30 1 (demo_msg 0 0 0) s3 = Inr (Goes_on, take 12 (stamped 0 0 msg), s4) \<and>
            qmsgs (queue_at (os_msgqs s4) 0) = [])))"
    by (simp add: kern at demo_queue_inv(2) sz) blast
  have taken: "\<exists>s2. msg_post demo_cfg 50 1 (demo_msg 7 0 0) s1 = Inr (Goes_on, demo_msg 7 0 0, s2) \<and>
        tcb_state (task_list (os_tasks s2) ! 1) = READY \<and>
        (\<forall>s3. meanwhile demo_cfg 1 s2 s3 \<and> self_tid s3 = 1 \<longrightarrow>
          (\<exists>s4. msg_receive_again demo_cfg 30 1 (demo_msg 0 0 0) s3 = Inr (Goes_on, demo_msg 7 0 0, s4)))"
    if "meanwhile demo_cfg 1 s0 s1" "in_task demo_cfg s1" "self_tid s1 \<noteq> 1" for s1
  proof -
    have "take 12 (demo_msg 7 0 0) = demo_msg 7 0 0" "12 \<le> length (demo_msg 7 0 0)" using sz(3) by simp_all
    then show ?thesis using all [rule_format, of s1 "demo_msg 7 0 0"] that unfolding st by metis
  qed
  have k0: "os_kept demo_cfg ?s s0"
    using okeepsD [OF okeeps_msg_macros(3) [OF cb_ok_None] _ s0 [unfolded msg_receive_def]] it by (simp add: in_task_def)
  let ?s1 = "set_running_tid 0 s0"
  have "meanwhile demo_cfg 1 s0 ?s1" "in_task demo_cfg ?s1" "self_tid ?s1 \<noteq> 1"
    using k0 demo_boot_inv(2) by (simp_all add: meanwhile_def in_task_def kern os_kept_def)
  from taken [OF this] obtain s2 where s2: "msg_post demo_cfg 50 1 (demo_msg 7 0 0) ?s1 = Inr (Goes_on, demo_msg 7 0 0, s2)"
    "tcb_state (task_list (os_tasks s2) ! 1) = READY"
    "\<And>s3. meanwhile demo_cfg 1 s2 s3 \<Longrightarrow> self_tid s3 = 1 \<Longrightarrow>
      \<exists>s4. msg_receive_again demo_cfg 30 1 (demo_msg 0 0 0) s3 = Inr (Goes_on, demo_msg 7 0 0, s4)" by blast
  have k2: "os_kept demo_cfg ?s1 s2"
    using okeepsD [OF okeeps_msg_macros(1) _ s2(1) [unfolded msg_post_def]] k0 by (simp add: kern os_kept_def)
  have "meanwhile demo_cfg 1 s2 (set_running_tid 1 s2)" "self_tid (set_running_tid 1 s2) = 1"
    using k2 by (simp_all add: meanwhile_def kern os_kept_def)
  from s2(3) [OF this] s0 s2(1,2) show ?thesis by blast
qed

end
