(* ===== verification/Os_Backpressure.thy ===== *)
theory Os_Backpressure
  imports Os_Api
begin

text \<open>
  The way of a message into a full queue: the sender gives up the processor, the next task that takes a
  message out of the queue wakes it, and it goes on and posts its message. This is the counterpart of a
  receiver that waits for a message in \<open>Os_Api\<close>.
\<close>

section \<open>The steps\<close>

lemma told_blocked:
  assumes "told s e s'" and "blocked_on line e r (task_list (os_tasks s) ! me)" and "me < unat (nTasks (os_tasks s))" and "me \<noteq> unat (self_tid s)"
  shows "tcb_state (task_list (os_tasks s') ! me) = READY" "tcb_msgResult (task_list (os_tasks s') ! me) = r"
    "tcb_msgChangeEvent (task_list (os_tasks s') ! me) = e" "tcb_internal_state (task_list (os_tasks s') ! me) = of_nat line"
  using assms(1,3,4) sig_tcb_blocked [OF assms(2)] by (simp_all add: told_def)

text \<open>A task that was woken and finds room posts its message.\<close>

lemma woken_sender_posts:
  assumes "meanwhile cfg me s2 s3" and "unat (self_tid s3) = me" and "me < unat (nTasks (os_tasks s2))"
    and "has_queue cfg t queue s2" and "tcb_msgResult (task_list (os_tasks s2) ! me) = MSG_QUEUE_FULL"
    and "tcb_msgChangeEvent (task_list (os_tasks s2) ! me) = change_of queue s2"
    and "qm (queue_at (os_msgqs s2) queue) \<le> length msg"
    and "length (qmsgs (queue_at (os_msgqs s2) queue)) < qn (queue_at (os_msgqs s2) queue) - 1"
  shows "\<exists>s4. OS_MSG_Q_POST_resume cfg line t msg d p False s3 = Inr (Goes_on, stamped d p msg, s4) \<and>
    qmsgs (queue_at (os_msgqs s4) queue) =
      qmsgs (queue_at (os_msgqs s2) queue) @ [take (qm (queue_at (os_msgqs s2) queue)) (stamped d p msg)]"
proof -
  have m: "os_msgqs s3 = os_msgqs s2" "task_list (os_tasks s3) ! me = task_list (os_tasks s2) ! me"
    using assms(1) by (simp_all add: meanwhile_def)
  have in3: "in_task cfg s3" using assms(1-3) by (simp add: in_task_def meanwhile_def word_less_nat_alt)
  have hq: "has_queue cfg t queue s3" "change_of queue s3 = change_of queue s2"
    using meanwhile_queue [OF assms(1), of t queue] assms(4) by simp_all
  have n: "noted_on (change_of queue s3) MSG_QUEUE_FULL s3" using assms(2,5,6) m(2) hq(2) by (simp add: noted_on_def)
  obtain s4 q where s4: "post_round cfg line t msg d p False (change_of queue s3) s3 = Inr (Goes_on, stamped d p msg, s4)"
    "os_msgqs s4 = with_queue (os_msgqs s3) queue q"
    "qmsgs q = qmsgs (queue_at (os_msgqs s2) queue) @ [take (qm (queue_at (os_msgqs s2) queue)) (stamped d p msg)]"
    by (rule post_round_delivers [OF in3 hq(1), unfolded m(1), OF assms(7,8), of line d p False, folded m(1)]) (simp add: m(1))
  then show ?thesis
    using again_rounds(2) [OF in3 n] queue_at_with_queue [OF change_of_ok(5) [OF in_taskD(1) [OF in3] hq(1)]] by simp
qed

text \<open>A receiver that takes a message which is not sent again makes room and wakes the sender.\<close>

lemma receive_wakes_sender:
  assumes "in_task cfg s" and "has_queue cfg t queue s" and "me < unat (nTasks (os_tasks s))" and "unat (self_tid s) \<noteq> me"
    and "blocked_on line (change_of queue s) MSG_QUEUE_FULL (task_list (os_tasks s) ! me)"
    and "qm (queue_at (os_msgqs s) queue) \<le> length buf"
    and "qmsgs (queue_at (os_msgqs s) queue) = ds @ x # rest" and "\<forall>y \<in> set ds. mdelay y \<noteq> 0" and "mdelay x = 0" and "mreload x = 0"
  obtains s' q where "msg_receive cfg line' t buf s = Inr (Goes_on, delivered x @ drop (qm (queue_at (os_msgqs s) queue)) buf, s')"
    "os_msgqs s' = with_queue (os_msgqs s) queue q" "qmsgs q = rest @ ds" "q_size q = q_size (queue_at (os_msgqs s) queue)"
    "q_messageSize q = q_messageSize (queue_at (os_msgqs s) queue)" "nTasks (os_tasks s') = nTasks (os_tasks s)"
    "tcb_state (task_list (os_tasks s') ! me) = READY" "tcb_msgResult (task_list (os_tasks s') ! me) = MSG_QUEUE_FULL"
    "tcb_msgChangeEvent (task_list (os_tasks s') ! me) = change_of queue s"
    "tcb_internal_state (task_list (os_tasks s') ! me) = of_nat line"
proof -
  obtain s' q where s': "OS_MSG_Q_RECEIVE cfg line' t buf False None s =
      Inr (Goes_on, delivered x @ drop (qm (queue_at (os_msgqs s) queue)) buf, s')"
    "os_msgqs s' = with_queue (os_msgqs s) queue q" "qmsgs q = rest @ ds @ (if mreload x = 0 then [] else [delivered x])"
    "q_size q = q_size (queue_at (os_msgqs s) queue)" "q_messageSize q = q_messageSize (queue_at (os_msgqs s) queue)"
    "told s (change_of queue s) s'"
    by (rule receive_delivers [OF assms(1,2,6-9), of line' False])
  note w = told_blocked [OF s'(6) assms(5,3) assms(4) [symmetric]]
  have "nTasks (os_tasks s') = nTasks (os_tasks s)" using s'(6) by (simp add: told_def)
  then show ?thesis using that [OF _ s'(2) _ s'(4,5) _ w] s'(1,3) assms(10) by (simp add: msg_receive_def)
qed

section \<open>Property\<close>

text \<open>C9: posting to a full queue gives up the processor and leaves the sender waiting for the change event
  of the queue, the queue as it was. Whatever other tasks do to each other then, when one of them receives
  a message from the queue that is due and not periodic, it goes on with that message and the sender is
  ready, at the line behind its wait; and when the sender runs again, it goes on with its message posted
  behind the others, whatever it holds by then.\<close>

theorem sender_gets_room:
  assumes "in_task cfg s" and "has_queue cfg t queue s" and "unat (self_tid s) = me"
    and "pending (task_list (os_tasks s) ! me) = {}" and "qm (queue_at (os_msgqs s) queue) \<le> length msg"
    and "length (qmsgs (queue_at (os_msgqs s) queue)) = qn (queue_at (os_msgqs s) queue) - 1"
    and "qmsgs (queue_at (os_msgqs s) queue) = ds @ x # rest" and "\<forall>y \<in> set ds. mdelay y \<noteq> 0" and "mdelay x = 0" and "mreload x = 0"
  shows "\<exists>s0. OS_MSG_Q_POST cfg line t msg d p False s = Inr (Returns, stamped d p msg, s0) \<and> os_get_running_tid s0 = NO_TID \<and>
    tcb_state (task_list (os_tasks s0) ! me) = WAITING_EVENT \<and> os_msgqs s0 = os_msgqs s \<and>
    (\<forall>s1 buf. meanwhile cfg me s0 s1 \<and> in_task cfg s1 \<and> unat (self_tid s1) \<noteq> me \<and> qm (queue_at (os_msgqs s) queue) \<le> length buf \<longrightarrow>
      (\<exists>s2. msg_receive cfg line' t buf s1 = Inr (Goes_on, delivered x @ drop (qm (queue_at (os_msgqs s) queue)) buf, s2) \<and>
        tcb_state (task_list (os_tasks s2) ! me) = READY \<and> tcb_internal_state (task_list (os_tasks s2) ! me) = of_nat line \<and>
        (\<forall>s3 msg'. meanwhile cfg me s2 s3 \<and> unat (self_tid s3) = me \<and> qm (queue_at (os_msgqs s) queue) \<le> length msg' \<longrightarrow>
          (\<exists>s4. OS_MSG_Q_POST_resume cfg line t msg' d p False s3 = Inr (Goes_on, stamped d p msg', s4) \<and>
            qmsgs (queue_at (os_msgqs s4) queue) = rest @ ds @ [take (qm (queue_at (os_msgqs s) queue)) (stamped d p msg')]))))"
proof -
  note i = in_taskD [OF assms(1)]
  let ?q = "queue_at (os_msgqs s) queue"
  have blocks: "pending (task_list (os_tasks s) ! unat (self_tid s)) = {}" using assms(3,4) by simp
  obtain s0 where s0: "OS_MSG_Q_POST cfg line t msg d p False s = Inr (Returns, stamped d p msg, s0)"
    "os_msgqs s0 = os_msgqs s" "nTasks (os_tasks s0) = nTasks (os_tasks s)" "os_get_running_tid s0 = NO_TID"
    "blocked_on line (change_of queue s) MSG_QUEUE_FULL (task_list (os_tasks s0) ! me)"
    by (rule post_blocks [OF assms(1,2) blocks assms(5,6), of line d p]) (simp add: assms(3))
  have "\<exists>s2. msg_receive cfg line' t buf s1 = Inr (Goes_on, delivered x @ drop (qm ?q) buf, s2) \<and>
        tcb_state (task_list (os_tasks s2) ! me) = READY \<and> tcb_internal_state (task_list (os_tasks s2) ! me) = of_nat line \<and>
        (\<forall>s3 msg'. meanwhile cfg me s2 s3 \<and> unat (self_tid s3) = me \<and> qm ?q \<le> length msg' \<longrightarrow>
          (\<exists>s4. OS_MSG_Q_POST_resume cfg line t msg' d p False s3 = Inr (Goes_on, stamped d p msg', s4) \<and>
            qmsgs (queue_at (os_msgqs s4) queue) = rest @ ds @ [take (qm ?q) (stamped d p msg')]))"
    if mw: "meanwhile cfg me s0 s1" and in1: "in_task cfg s1" and other: "unat (self_tid s1) \<noteq> me" and buf: "qm ?q \<le> length buf" for s1 buf
  proof -
    have same: "os_msgqs s1 = os_msgqs s" "has_queue cfg t queue s1" "change_of queue s1 = change_of queue s" "me < unat (nTasks (os_tasks s1))"
      "blocked_on line (change_of queue s1) MSG_QUEUE_FULL (task_list (os_tasks s1) ! me)"
      using mw s0(2,3,5) assms(2,3) i(4) by (simp_all add: meanwhile_def has_queue_def change_of_def)
    note q1 = same(1) [symmetric]
    obtain s2 q where s2: "msg_receive cfg line' t buf s1 = Inr (Goes_on, delivered x @ drop (qm ?q) buf, s2)"
      "os_msgqs s2 = with_queue (os_msgqs s1) queue q" "qmsgs q = rest @ ds" "q_size q = q_size ?q" "q_messageSize q = q_messageSize ?q"
      "nTasks (os_tasks s2) = nTasks (os_tasks s1)" "tcb_state (task_list (os_tasks s2) ! me) = READY"
      "tcb_msgResult (task_list (os_tasks s2) ! me) = MSG_QUEUE_FULL" "tcb_msgChangeEvent (task_list (os_tasks s2) ! me) = change_of queue s1"
      "tcb_internal_state (task_list (os_tasks s2) ! me) = of_nat line"
      by (rule receive_wakes_sender [OF in1 same(2,4) other same(5), of buf ds x rest line'])
        (use buf assms(7-10) in \<open>simp_all add: same(1)\<close>)
    note w = with_queue_same_queue [OF s2(2) change_of_ok(5) [OF in_taskD(1) [OF in1] same(2)]]
    have room: "length (qmsgs q) < qn q - 1" using s2(3,4) assms(6,7) by simp
    have "\<exists>s4. OS_MSG_Q_POST_resume cfg line t msg' d p False s3 = Inr (Goes_on, stamped d p msg', s4) \<and>
            qmsgs (queue_at (os_msgqs s4) queue) = rest @ ds @ [take (qm ?q) (stamped d p msg')]"
      if "meanwhile cfg me s2 s3" "unat (self_tid s3) = me" "qm ?q \<le> length msg'" for s3 msg'
      using woken_sender_posts [OF that(1,2), of t queue msg' line d p] same(4) s2 w same(2) room that(3) by simp
    with s2(1,7,10) show ?thesis by blast
  qed
  with s0(1,2,4,5) show ?thesis by (intro exI [of _ s0]) (simp add: blocked_on_def)
qed

text \<open>A full queue of three slots, in the booted kernel.\<close>

definition demo_full :: OSQueue_t where
  "demo_full = \<lparr>q_list = replicate 12 0 @ demo_msg 7 0 0 @ demo_msg 8 0 0, q_messageSize = 12, q_head = 0, q_tail = 0, q_size = 3\<rparr>"

definition demo_full_os :: os where
  "demo_full_os = demo_boot\<lparr>os_msgqs := with_queue demo_msgqs 0 demo_full\<rparr>"

lemma demo_full_inv: "queue_inv demo_full" "qmsgs demo_full = [demo_msg 7 0 0, demo_msg 8 0 0]"
proof -
  show "queue_inv demo_full" by (simp add: queue_inv_def demo_full_def demo_msg_def)
  have "cyc 3 (Suc 0) 2 = [1, 2]" by (simp add: numeral_2_eq_2)
  then show "qmsgs demo_full = [demo_msg 7 0 0, demo_msg 8 0 0]"
    by (simp add: qmsgs_def ring_def live_def ring_len_def demo_full_def nxt_def sl_def demo_msg_def)
qed

lemma demo_full_os_inv: "os_inv demo_cfg demo_full_os" "os_tasks demo_full_os = os_tasks demo_boot"
  "queue_at (os_msgqs demo_full_os) 0 = demo_full" "has_queue demo_cfg 1 0 demo_full_os"
proof -
  show "os_tasks demo_full_os = os_tasks demo_boot" "queue_at (os_msgqs demo_full_os) 0 = demo_full"
    by (simp_all add: demo_full_os_def demo_msgqs_def with_queue_def queue_at_def)
  show "has_queue demo_cfg 1 0 demo_full_os"
    by (simp add: has_queue_def demo_full_os_def os_msgQ_find_def) (simp add: demo_msgqs_def with_queue_def aget_def)
  have "msgqs_kept demo_cfg (os_msgqs demo_boot) (with_queue demo_msgqs 0 demo_full)"
    using demo_full_inv(1) by (simp add: demo_boot_def demo_msg_os_def msgqs_kept_with_queue)
  from os_kept_msgqs [OF demo_boot_inv(1) this] show "os_inv demo_cfg demo_full_os" by (simp add: os_kept_def demo_full_os_def)
qed

theorem sender_gets_room_witness:
  "\<exists>s0 s2 s4. msg_post demo_cfg 30 1 (demo_msg 9 0 0) (set_running_tid 0 demo_full_os) = Inr (Returns, demo_msg 9 0 0, s0) \<and>
     msg_receive demo_cfg 50 1 (demo_msg 0 0 0) (set_running_tid 1 s0) = Inr (Goes_on, demo_msg 7 0 0, s2) \<and>
     tcb_state (task_list (os_tasks s2) ! 0) = READY \<and>
     msg_post_again demo_cfg 30 1 (demo_msg 9 0 0) (set_running_tid 0 s2) = Inr (Goes_on, demo_msg 9 0 0, s4) \<and>
     qmsgs (queue_at (os_msgqs s4) 0) = [demo_msg 8 0 0, demo_msg 9 0 0]"
proof -
  let ?s = "set_running_tid 0 demo_full_os" and ?m = "demo_msg 9 0 0" and ?b = "demo_msg 0 0 0"
  note d = demo_full_os_inv and kern = set_running_sel
  have sz: "qm demo_full = 12" "qn demo_full = 3" "length (demo_msg a b c) = 12" for a b c
    by (simp_all add: demo_full_def demo_msg_def)
  have fl: "stamped 0 0 (demo_msg a 0 0) = demo_msg a 0 0" "mdelay (demo_msg a 0 0) = 0" "mreload (demo_msg a 0 0) = 0"
    "delivered (demo_msg a 0 0) = demo_msg a 0 0" for a
    by (simp_all add: stamped_def set_fld_def demo_msg_def mdelay_def mreload_def delivered_def fld_def)
  have it: "in_task demo_cfg ?s" using d(1,2) demo_boot_inv by (simp add: in_task_def kern)
  have hq: "has_queue demo_cfg 1 0 ?s" using d(4) by (simp add: has_queue_def kern)
  have p: "pending (task_list (os_tasks ?s) ! 0) = {}" by (simp add: kern d(2) demo_boot_def pending_def wq_elems_empty)
  have me: "unat (self_tid ?s) = 0" by (simp add: kern)
  have q: "queue_at (os_msgqs ?s) 0 = demo_full" by (simp add: kern d(3))
  have h: "qm (queue_at (os_msgqs ?s) 0) \<le> length ?m" "length (qmsgs (queue_at (os_msgqs ?s) 0)) = qn (queue_at (os_msgqs ?s) 0) - 1"
    "qmsgs (queue_at (os_msgqs ?s) 0) = [] @ demo_msg 7 0 0 # [demo_msg 8 0 0]" "\<forall>y \<in> set []. mdelay y \<noteq> 0"
    unfolding q by (simp_all add: demo_full_inv(2) sz)
  have t12: "take 12 (demo_msg a b c) = demo_msg a b c" "drop 12 (demo_msg a b c) = []" for a b c using sz(3) by simp_all
  from sender_gets_room [OF it hq me p h fl(2,3), of 30 0 0 50, unfolded q sz(1) fl t12 append_Nil2]
  obtain s0 where s0: "OS_MSG_Q_POST demo_cfg 30 1 ?m 0 0 False ?s = Inr (Returns, ?m, s0)" and
    all: "\<And>s1. meanwhile demo_cfg 0 s0 s1 \<Longrightarrow> in_task demo_cfg s1 \<Longrightarrow> unat (self_tid s1) \<noteq> 0 \<Longrightarrow>
      \<exists>s2. msg_receive demo_cfg 50 1 ?b s1 = Inr (Goes_on, demo_msg 7 0 0, s2) \<and> tcb_state (task_list (os_tasks s2) ! 0) = READY \<and>
        (\<forall>s3. meanwhile demo_cfg 0 s2 s3 \<and> unat (self_tid s3) = 0 \<longrightarrow>
          (\<exists>s4. OS_MSG_Q_POST_resume demo_cfg 30 1 ?m 0 0 False s3 = Inr (Goes_on, ?m, s4) \<and>
            qmsgs (queue_at (os_msgqs s4) 0) = [demo_msg 8 0 0, ?m]))"
    using sz(3) t12 fl by (metis append_Nil append_Nil2 append_Cons order_refl)
  have k0: "os_kept demo_cfg ?s s0" using okeepsD [OF okeeps_msg_macros(1) _ s0] it by (simp add: in_task_def)
  have mw0: "meanwhile demo_cfg 0 s0 (set_running_tid 1 s0)" "in_task demo_cfg (set_running_tid 1 s0)" "unat (self_tid (set_running_tid 1 s0)) \<noteq> 0"
    using k0 demo_boot_inv(2) by (simp_all add: meanwhile_def in_task_def kern os_kept_def d(2))
  from all [OF mw0] obtain s2 where s2: "msg_receive demo_cfg 50 1 ?b (set_running_tid 1 s0) = Inr (Goes_on, demo_msg 7 0 0, s2)"
    "tcb_state (task_list (os_tasks s2) ! 0) = READY" and
    fin: "\<And>s3. meanwhile demo_cfg 0 s2 s3 \<Longrightarrow> unat (self_tid s3) = 0 \<Longrightarrow>
      \<exists>s4. OS_MSG_Q_POST_resume demo_cfg 30 1 ?m 0 0 False s3 = Inr (Goes_on, ?m, s4) \<and> qmsgs (queue_at (os_msgqs s4) 0) = [demo_msg 8 0 0, ?m]"
    by blast
  have k2: "os_kept demo_cfg (set_running_tid 1 s0) s2"
    using okeepsD [OF okeeps_msg_macros(3) [OF cb_ok_None] _ s2(1) [unfolded msg_receive_def]] k0 by (simp add: kern os_kept_def)
  have mw2: "meanwhile demo_cfg 0 s2 (set_running_tid 0 s2)" "unat (self_tid (set_running_tid 0 s2)) = 0"
    using k2 by (simp_all add: meanwhile_def kern os_kept_def)
  from fin [OF mw2] s0 s2 show ?thesis by (simp add: msg_post_def msg_post_again_def)
qed

end
