(* ===== verification/Os_Race.thy ===== *)
theory Os_Race
  imports Os_Backpressure
begin

text \<open>
  Interrupts within a call. The port does not lock them out, so that one can come between the test a macro
  makes and the wait that follows it. What the interrupt then tells the task is lost: for \<open>sem_wait\<close> a
  signal of the semaphore, for \<open>event_wait\<close> the event (which \<open>README.md\<close> says, with \<open>event_wait_ex\<close> as
  the remedy), for \<open>msg_receive\<close> that a message has become due. No interrupt there breaks the invariant.
\<close>

section \<open>The macros with an interrupt in them\<close>

text \<open>The interrupt \<open>isr\<close> comes after the test and before what depends on it.\<close>

definition wait_sem_rest :: "config \<Rightarrow> nat \<Rightarrow> u16 \<Rightarrow> bool \<Rightarrow> os \<Rightarrow> (ctl \<times> os) res" where
  "wait_sem_rest cfg line sem positive s =
     (if positive then bindR (on_sems (os_sem_decrement cfg sem) s) (\<lambda>s. Inr (Goes_on, s))
      else bindR (on_tasks (task_wait_sem_set (self_tid s) sem) s) (OS_YIELD line))"

definition OS_WAIT_SEM_irq :: "config \<Rightarrow> nat \<Rightarrow> u16 \<Rightarrow> proc \<Rightarrow> os \<Rightarrow> (ctl \<times> os) res" where
  "OS_WAIT_SEM_irq cfg line sem isr s =
     bindR (os_sem_larger_than_zero cfg sem (os_sems s)) (\<lambda>positive. bindR (isr s) (wait_sem_rest cfg line sem positive))"

text \<open>In \<open>os_wait_event\<close> it comes before the task is set to wait.\<close>

definition OS_WAIT_SINGLE_EVENT_irq :: "config \<Rightarrow> nat \<Rightarrow> u8 \<Rightarrow> proc \<Rightarrow> os \<Rightarrow> (ctl \<times> os) res" where
  "OS_WAIT_SINGLE_EVENT_irq cfg line event isr s =
     bindR (if N_TOTAL_EVENTS cfg > 0 \<and> event < nEvents (os_events s) then
         bindR (on_events (os_event_set_signaling_tid cfg event NO_TID) s) (\<lambda>s1.
         bindR (isr s1) (on_tasks (os_task_wait_event (self_tid s) event True 0)))
       else isr s)
     (OS_YIELD line)"

definition OS_MSG_Q_RECEIVE_irq :: "config \<Rightarrow> nat \<Rightarrow> u8 \<Rightarrow> bytes \<Rightarrow> proc \<Rightarrow> os \<Rightarrow> (ctl \<times> bytes \<times> os) res" where
  "OS_MSG_Q_RECEIVE_irq cfg line task_id msg isr s =
     bindR (queue_prologue cfg task_id s) (\<lambda>r. case r of (event, s) \<Rightarrow>
     bindR (os_msgQ_find cfg task_id (os_msgqs s)) (\<lambda>queue.
     bindR (os_msg_receive cfg msg queue (os_msgqs s)) (\<lambda>r. case r of (os_received, msg, m) \<Rightarrow>
     bindR (isr (s\<lparr>os_msgqs := m\<rparr>)) (after_receive cfg line False None event os_received msg))))"

text \<open>Without an interrupt they are the macros.\<close>

lemma irq_none:
  "OS_WAIT_SEM_irq cfg line sem Inr = OS_WAIT_SEM cfg line sem"
  "OS_WAIT_SINGLE_EVENT_irq cfg line event Inr = OS_WAIT_SINGLE_EVENT cfg line event 0 None"
  "OS_MSG_Q_RECEIVE_irq cfg line t msg Inr = OS_MSG_Q_RECEIVE cfg line t msg False None"
  by (rule ext, simp add: OS_WAIT_SEM_irq_def OS_WAIT_SEM_def wait_sem_rest_def OS_WAIT_SINGLE_EVENT_irq_def
    OS_WAIT_SINGLE_EVENT_def os_wait_event_def OS_MSG_Q_RECEIVE_irq_def OS_MSG_Q_RECEIVE_def receive_round_def)+

text \<open>And an interrupt that keeps the invariant makes them keep it no less.\<close>

lemma okeeps_irq_macros:
  assumes "okeeps cfg (\<lambda>s. s) isr"
  shows "okeeps cfg (\<lambda>r. snd r) (OS_WAIT_SEM_irq cfg line sem isr)"
    "okeeps cfg (\<lambda>r. snd r) (OS_WAIT_SINGLE_EVENT_irq cfg line event isr)"
    "okeeps cfg (\<lambda>r. snd (snd r)) (OS_MSG_Q_RECEIVE_irq cfg line t msg isr)"
proof -
  have rest: "okeeps cfg (\<lambda>r. snd r) (wait_sem_rest cfg line sem positive)" for positive
    unfolding wait_sem_rest_def [abs_def]
    by (intro okeeps_if_const okeeps_seq [OF okeeps_sems(2)] okeeps_seq [OF okeeps_on_tasks] okeeps_go okeeps_yield keeps_asserted)
  show "okeeps cfg (\<lambda>r. snd r) (OS_WAIT_SEM_irq cfg line sem isr)"
    unfolding OS_WAIT_SEM_irq_def [abs_def] by (intro okeeps_get okeeps_seq [OF assms] rest)
  have "okeeps cfg (\<lambda>s. s) (\<lambda>s. bindR (on_events (os_event_set_signaling_tid cfg event NO_TID) s) (\<lambda>s1.
      bindR (isr s1) (on_tasks (os_task_wait_event tid event True 0))))" for tid
    by (intro okeeps_seq [OF okeeps_set_signaling_tid] okeeps_seq [OF assms] okeeps_on_tasks keeps_wait_event)
  then have "okeeps cfg (\<lambda>s. s) (\<lambda>s. if N_TOTAL_EVENTS cfg > 0 \<and> event < nEvents (os_events s) then
         bindR (on_events (os_event_set_signaling_tid cfg event NO_TID) s) (\<lambda>s1.
         bindR (isr s1) (on_tasks (os_task_wait_event (self_tid s) event True 0)))
       else isr s)"
    using assms by (intro okeeps_if okeepsI) (auto dest: okeepsD)
  then show "okeeps cfg (\<lambda>r. snd r) (OS_WAIT_SINGLE_EVENT_irq cfg line event isr)"
    unfolding OS_WAIT_SINGLE_EVENT_irq_def [abs_def] by (intro okeeps_seq okeeps_yield)
  have "okeeps cfg (\<lambda>r. snd (snd r)) (after_receive cfg line False None event res msg)" for event res msg
    unfolding after_receive_def [abs_def]
    by (intro okeeps_if_const okeeps_go_msg okeeps_done okeeps_seq [OF okeeps_on_tasks] okeeps_seq [OF okeeps_cb] okeeps_get
        keeps_setters okeeps_with_msg okeeps_wait_single cb_ok_None)
  then have "okeeps cfg (\<lambda>r. snd (snd r)) (\<lambda>s. bindR (isr s) (after_receive cfg line False None event res msg))" for event res msg
    by (intro okeeps_seq [OF assms])
  note op = okeeps_msgq_op [where f = "\<lambda>res msg s. bindR (isr s) (after_receive cfg line False None event res msg)" for event, OF msg_receive_kept this]
  show "okeeps cfg (\<lambda>r. snd (snd r)) (OS_MSG_Q_RECEIVE_irq cfg line t msg isr)"
    unfolding OS_MSG_Q_RECEIVE_irq_def [abs_def] by (intro okeeps_after_prologue okeeps_get [OF op])
qed

section \<open>Semaphores\<close>

lemma nobody_waits:
  assumes "os_inv cfg s" and "\<forall>i. \<not> waiter sem (os_tasks s) i"
  shows "OS_SIGNAL_SEM_NO_SCHEDULE cfg sem s = on_sems (os_sem_increment cfg sem) s"
  using waiting_this_semaphore_iff [OF os_invD(1) [OF assms(1)], of sem] assms(2)
  by (simp add: OS_SIGNAL_SEM_NO_SCHEDULE_def)

lemma larger_than_zero_val:
  "sem_inv cfg s \<Longrightarrow> sem_handle s sem \<Longrightarrow> os_sem_larger_than_zero cfg sem s = Inr (0 < sem_val sem s)"
  using sem_handleD [of s sem cfg] by (simp add: os_sem_larger_than_zero_def sem_val_def word_less_nat_alt)

text \<open>A running task, and a created semaphore of value 0 that nobody waits for and that can be signalled.\<close>

definition sem_is_free :: "config \<Rightarrow> u16 \<Rightarrow> os \<Rightarrow> bool" where
  "sem_is_free cfg sem s \<longleftrightarrow> in_task cfg s \<and> sem_handle (os_sems s) sem \<and> sem_val sem (os_sems s) = 0 \<and>
     0 < sem_cap sem (os_sems s) \<and> (\<forall>i. \<not> waiter sem (os_tasks s) i)"

text \<open>The wait when the test has said that there is nothing.\<close>

lemma wait_sem_rest_waits:
  assumes "in_task cfg s"
  obtains s' where "wait_sem_rest cfg line sem False s = Inr (Returns, s')" "os_sems s' = os_sems s" "nTasks (os_tasks s') = nTasks (os_tasks s)"
    "task_list (os_tasks s') = (task_list (os_tasks s))[unat (self_tid s) := (task_list (os_tasks s) ! unat (self_tid s))
       \<lparr>tcb_time := 0, tcb_state := WAITING_SEM, tcb_semaphore := sem, tcb_internal_state := of_nat line\<rparr>]"
proof -
  note i = in_taskD [OF assms]
  let ?t = "(task_list (os_tasks s) ! unat (self_tid s))\<lparr>tcb_time := 0, tcb_state := WAITING_SEM, tcb_semaphore := sem\<rparr>"
  let ?s1 = "s\<lparr>os_tasks := (os_tasks s)\<lparr>task_list := (task_list (os_tasks s))[unat (self_tid s) := ?t]\<rparr>\<rparr>"
  have "on_tasks (task_wait_sem_set (self_tid s) sem) s = Inr ?s1"
    using i(2,3) by (simp add: on_tasks_def task_wait_sem_set_def)
  moreover have "self_tid ?s1 = self_tid s" by (simp add: self_tid_def os_get_running_tid_def)
  ultimately have "wait_sem_rest cfg line sem False s = Inr (Returns, os_free_tid (?s1\<lparr>os_tasks := (os_tasks ?s1)
      \<lparr>task_list := (task_list (os_tasks ?s1))[unat (self_tid s) := ?t\<lparr>tcb_internal_state := of_nat line\<rparr>]\<rparr>\<rparr>))"
    using i(2,3) by (simp add: wait_sem_rest_def OS_YIELD_def on_tasks_def os_task_internal_state_set_def)
  from that [OF this] show ?thesis by (simp add: os_free_tid_def set_running_tid_def)
qed

lemma wait_then_signal:
  assumes "sem_is_free cfg sem s" and "ROUND_ROBIN cfg \<or> tcb_prio (task_list (os_tasks s) ! unat (self_tid s)) < 255"
  shows "\<exists>s'. bindR (OS_WAIT_SEM cfg line sem s) (\<lambda>r. OS_SIGNAL_SEM_NO_SCHEDULE cfg sem (snd r)) = Inr s' \<and>
       tcb_state (task_list (os_tasks s') ! unat (self_tid s)) = READY"
proof -
  have f: "in_task cfg s" "sem_handle (os_sems s) sem" "sem_val sem (os_sems s) = 0" "\<forall>i. \<not> waiter sem (os_tasks s) i"
    using assms(1) by (simp_all add: sem_is_free_def)
  note i = in_taskD [OF f(1)] and z = larger_than_zero_val [OF os_invD(2) [OF in_taskD(1) [OF f(1)]] f(2)]
  let ?me = "unat (self_tid s)"
  obtain s' where s': "wait_sem_rest cfg line sem False s = Inr (Returns, s')" "nTasks (os_tasks s') = nTasks (os_tasks s)"
    "task_list (os_tasks s') = (task_list (os_tasks s))[?me := (task_list (os_tasks s) ! ?me)
     \<lparr>tcb_time := 0, tcb_state := WAITING_SEM, tcb_semaphore := sem, tcb_internal_state := of_nat line\<rparr>]"
    by (rule wait_sem_rest_waits [OF f(1), of line sem])
  have w: "OS_WAIT_SEM cfg line sem s = Inr (Returns, s')" using s'(1) z f(3) by (simp add: OS_WAIT_SEM_def wait_sem_rest_def)
  have ti: "task_inv cfg (os_tasks s')" using okeepsD [OF okeeps_sem_macros(1) i(1) w] by (simp add: os_kept_def os_inv_def)
  have only: "waiter sem (os_tasks s') j \<longleftrightarrow> j = ?me" for j
    using s'(2,3) f(4) i(3,4) by (cases "j = ?me") (auto simp: waiter_def waiting_this_sem_def)
  then have "releasable cfg sem (os_tasks s') ?me" using assms(2) s'(3) i(3) by (simp add: releasable_def)
  from release_some [OF ti this] obtain j where j: "os_task_release_waiting_task cfg sem (os_tasks s') = Inr (with_ready j (os_tasks s'))"
    "best_waiter cfg sem (os_tasks s') j" .
  have "OS_SIGNAL_SEM_NO_SCHEDULE cfg sem s' = Inr (s'\<lparr>os_tasks := with_ready ?me (os_tasks s')\<rparr>)"
    using waiting_this_semaphore_iff [OF ti, of sem] only j by (auto simp: OS_SIGNAL_SEM_NO_SCHEDULE_def on_tasks_def best_waiter_def)
  then show ?thesis using w s'(3) i(3) by (simp add: with_ready_def)
qed

text \<open>C34: the window of \<open>sem_wait\<close>. A semaphore has the value 0 and nobody waits for it. If an interrupt
  signals it before the running task calls \<open>sem_wait\<close>, the task takes the signal and goes on; if it comes
  after the call, the task (unless its priority is 255) is made ready. But if it comes in the call, between the test
  and the wait, the task waits for a semaphore that is available.\<close>

theorem sem_signal_window:
  assumes "sem_is_free cfg sem s" and "ROUND_ROBIN cfg \<or> tcb_prio (task_list (os_tasks s) ! unat (self_tid s)) < 255"
  shows "(\<exists>s'. bindR (OS_SIGNAL_SEM_NO_SCHEDULE cfg sem s) (OS_WAIT_SEM cfg line sem) = Inr (Goes_on, s') \<and> sem_val sem (os_sems s') = 0) \<and>
    (\<exists>s'. bindR (OS_WAIT_SEM cfg line sem s) (\<lambda>r. OS_SIGNAL_SEM_NO_SCHEDULE cfg sem (snd r)) = Inr s' \<and>
       tcb_state (task_list (os_tasks s') ! unat (self_tid s)) = READY) \<and>
    (\<exists>s'. OS_WAIT_SEM_irq cfg line sem (OS_SIGNAL_SEM_NO_SCHEDULE cfg sem) s = Inr (Returns, s') \<and>
       waiter sem (os_tasks s') (unat (self_tid s)) \<and> sem_val sem (os_sems s') = 1)"
proof -
  have f: "in_task cfg s" "sem_handle (os_sems s) sem" "sem_val sem (os_sems s) = 0" "0 < sem_cap sem (os_sems s)"
    "\<forall>i. \<not> waiter sem (os_tasks s) i" using assms(1) by (simp_all add: sem_is_free_def)
  note i = in_taskD [OF f(1)] and si = os_invD(2) [OF in_taskD(1) [OF f(1)]]
  let ?me = "unat (self_tid s)"
  obtain sm where sm: "os_sem_increment cfg sem (os_sems s) = Inr sm" "sem_inv cfg sm" "nSemaphores sm = nSemaphores (os_sems s)"
    "sem_val sem sm = min (sem_cap sem (os_sems s)) (Suc (sem_val sem (os_sems s)))"
    by (rule os_sem_increment_valid [OF si f(2)])
  let ?s1 = "s\<lparr>os_sems := sm\<rparr>"
  have val: "sem_val sem sm = 1" "sem_handle sm sem" using sm(3,4) f(2-4) by (simp_all add: sem_handle_def)
  have isr: "OS_SIGNAL_SEM_NO_SCHEDULE cfg sem s = Inr ?s1"
    using nobody_waits [OF i(1) f(5)] sm(1) by (simp add: on_sems_def)
  have z: "os_sem_larger_than_zero cfg sem (os_sems s) = Inr False" using larger_than_zero_val [OF si f(2)] f(3) by simp
  have self: "self_tid ?s1 = self_tid s" by (simp add: self_tid_def os_get_running_tid_def)
  have "\<exists>s'. bindR (OS_SIGNAL_SEM_NO_SCHEDULE cfg sem s) (OS_WAIT_SEM cfg line sem) = Inr (Goes_on, s') \<and> sem_val sem (os_sems s') = 0"
    by (rule os_sem_decrement_valid [OF sm(2) val(2)])
      (use isr larger_than_zero_val [OF sm(2) val(2)] val(1) in \<open>simp add: OS_WAIT_SEM_def on_sems_def\<close>)
  moreover have "\<exists>s'. OS_WAIT_SEM_irq cfg line sem (OS_SIGNAL_SEM_NO_SCHEDULE cfg sem) s = Inr (Returns, s') \<and>
       waiter sem (os_tasks s') ?me \<and> sem_val sem (os_sems s') = 1"
  proof -
    have "os_inv cfg ?s1" using i(1) sm(2) by (simp add: os_inv_def queues_inv_def)
    then have "in_task cfg ?s1" using i(2) self by (simp add: in_task_def)
    then obtain s' where s': "wait_sem_rest cfg line sem False ?s1 = Inr (Returns, s')"
      "os_sems s' = sm" "nTasks (os_tasks s') = nTasks (os_tasks s)" "task_list (os_tasks s') = (task_list (os_tasks s))[?me := (task_list (os_tasks s) ! ?me)
       \<lparr>tcb_time := 0, tcb_state := WAITING_SEM, tcb_semaphore := sem, tcb_internal_state := of_nat line\<rparr>]"
      by (rule wait_sem_rest_waits [of cfg ?s1 line sem, unfolded self]) simp
    then show ?thesis using isr z i(3,4) val(1) by (simp add: OS_WAIT_SEM_irq_def waiter_def waiting_this_sem_def)
  qed
  moreover note wait_then_signal [OF assms, of line]
  ultimately show ?thesis by blast
qed

theorem sem_signal_window_witness:
  "\<exists>s'. OS_WAIT_SEM_irq demo_cfg 40 1 (OS_SIGNAL_SEM_NO_SCHEDULE demo_cfg 1) (set_running_tid 0 demo_boot) = Inr (Returns, s') \<and>
     waiter 1 (os_tasks s') 0 \<and> sem_val 1 (os_sems s') = 1"
proof -
  have "\<not> waiter 1 (os_tasks demo_boot) i" for i
    by (cases i) (auto simp: waiter_def waiting_this_sem_def demo_boot_def less_2_cases_iff)
  moreover have "in_task demo_cfg (set_running_tid 0 demo_boot)" using demo_boot_inv(1,2) by (simp add: in_task_def set_running_sel)
  moreover have "os_sems demo_boot = demo_sems" by (simp add: demo_boot_def demo_msg_os_def demo_os_def demo_sems_def)
  ultimately have "sem_is_free demo_cfg 1 (set_running_tid 0 demo_boot)"
    by (simp add: sem_is_free_def set_running_sel demo_sems_inv(3)) (simp add: demo_sems_def sem_val_def sem_cap_def sem_no_def)
  moreover have "tcb_prio (task_list (os_tasks (set_running_tid 0 demo_boot)) ! unat (self_tid (set_running_tid 0 demo_boot))) < 255"
    by (simp add: set_running_sel demo_boot_def)
  ultimately show ?thesis
    using sem_signal_window [of demo_cfg 1 "set_running_tid 0 demo_boot" 40] by (simp add: set_running_sel)
qed

section \<open>Events\<close>

lemma self_tid_other [simp]:
  "self_tid (s\<lparr>os_tasks := t\<rparr>) = self_tid s" "self_tid (s\<lparr>os_events := ev\<rparr>) = self_tid s" "self_tid (s\<lparr>os_msgqs := m\<rparr>) = self_tid s"
  by (simp_all add: self_tid_def os_get_running_tid_def)

text \<open>A signal from an interrupt, task by task.\<close>

definition event_ok :: "config \<Rightarrow> u8 \<Rightarrow> os \<Rightarrow> bool" where
  "event_ok cfg e s \<longleftrightarrow> os_inv cfg s \<and> e < nEvents (os_events s) \<and> unat e < event_cap cfg"

lemma can_wait_ok: "can_wait cfg e s \<longleftrightarrow> event_ok cfg e s \<and> self_tid s < nTasks (os_tasks s)"
  by (auto simp: can_wait_def event_ok_def)

lemma int_signal_at:
  assumes "event_ok cfg e s"
  obtains s' where "OS_INT_SIGNAL_EVENT cfg e s = Inr s'" "event_ok cfg e s'" "os_kern s' = os_kern s" "os_msgqs s' = os_msgqs s"
    "nTasks (os_tasks s') = nTasks (os_tasks s)"
    "\<forall>i < unat (nTasks (os_tasks s)). task_list (os_tasks s') ! i = sig_tcb e (task_list (os_tasks s) ! i)"
proof -
  have w: "os_inv cfg s" "e < nEvents (os_events s)" "unat e < event_cap cfg" using assms by (simp_all add: event_ok_def)
  note ti = os_invD(1) [OF w(1)]
  have ev: "unat e < length (eventList (os_events s))" "0 < N_TOTAL_EVENTS cfg"
    using os_invD(3) [OF w(1)] w(2) by (auto simp: event_inv_def word_less_nat_alt)
  obtain t where t: "os_task_signal_event cfg e (os_tasks s) = Inr t" "task_kept cfg (os_tasks s) t"
    "\<forall>i < length (task_list (os_tasks s)). task_list t ! i =
       (if i < unat (nTasks (os_tasks s)) then sig_tcb e (task_list (os_tasks s) ! i) else task_list (os_tasks s) ! i)"
    by (rule signal_event_at [OF ti w(3)])
  obtain s' where s': "OS_INT_SIGNAL_EVENT cfg e s = Inr s'" "os_tasks s' = t" "os_kern s' = os_kern s" "os_msgqs s' = os_msgqs s"
    "nEvents (os_events s') = nEvents (os_events s)"
    using ev t(1) by (simp add: OS_INT_SIGNAL_EVENT_def os_signal_event_eq on_events_def os_event_set_signaling_tid_def)
  have "os_inv cfg s'" using okeepsD [OF okeeps_int_signal w(1) s'(1)] by (simp add: os_kept_def)
  then have "event_ok cfg e s'" using w(2,3) s'(5) by (simp add: event_ok_def)
  from that [OF s'(1) this s'(3,4)] show ?thesis
    using s'(2) task_keptD(2) [OF t(2)] t(3) task_inv_bounds(1) [OF ti] by simp
qed

lemma yield_at:
  assumes "os_inv cfg s" and "self_tid s < nTasks (os_tasks s)"
  obtains s' where "OS_YIELD line s = Inr (Returns, s')"
    "task_list (os_tasks s') = (task_list (os_tasks s))[unat (self_tid s) := (task_list (os_tasks s) ! unat (self_tid s))\<lparr>tcb_internal_state := of_nat line\<rparr>]"
    "os_msgqs s' = os_msgqs s" "nTasks (os_tasks s') = nTasks (os_tasks s)"
proof -
  note i = in_taskD [of cfg s, unfolded in_task_def, OF conjI [OF assms]]
  let ?l = "(task_list (os_tasks s))[unat (self_tid s) := (task_list (os_tasks s) ! unat (self_tid s))\<lparr>tcb_internal_state := of_nat line\<rparr>]"
  show ?thesis
    by (rule that [of "os_free_tid (s\<lparr>os_tasks := (os_tasks s)\<lparr>task_list := ?l\<rparr>\<rparr>)"]) (use i(3) in \<open>simp_all add: OS_YIELD_def on_tasks_def os_task_internal_state_set_def os_free_tid_def set_running_tid_def\<close>)
qed

text \<open>Setting the task to wait, from a state in which it waits for nothing.\<close>

lemma set_to_wait:
  assumes "can_wait cfg e s" and "pending (task_list (os_tasks s) ! unat (self_tid s)) = {}"
  obtains s' where "on_tasks (os_task_wait_event (self_tid s) e True 0) s = Inr s'" "can_wait cfg e s'" "os_kern s' = os_kern s" "os_msgqs s' = os_msgqs s"
    "tcb_state (task_list (os_tasks s') ! unat (self_tid s)) = WAITING_EVENT"
    "pending (task_list (os_tasks s') ! unat (self_tid s)) = {unat e}" "nTasks (os_tasks s') = nTasks (os_tasks s)"
proof -
  note w = can_waitD [OF assms(1)]
  obtain q where q: "wq_elems q = insert (unat e) (pending (task_list (os_tasks s) ! unat (self_tid s)))"
    "os_task_wait_event (self_tid s) e True 0 (os_tasks s) = Inr ((os_tasks s)\<lparr>task_list := (task_list (os_tasks s))
       [unat (self_tid s) := waited_tcb q 0 (task_list (os_tasks s) ! unat (self_tid s))]\<rparr>)"
    by (rule wait_event_stored [OF assms(1)])
  let ?s' = "s\<lparr>os_tasks := (os_tasks s)\<lparr>task_list := (task_list (os_tasks s))
       [unat (self_tid s) := waited_tcb q 0 (task_list (os_tasks s) ! unat (self_tid s))]\<rparr>\<rparr>"
  have r: "on_tasks (os_task_wait_event (self_tid s) e True 0) s = Inr ?s'" using q(2) by (simp add: on_tasks_def)
  have "os_inv cfg ?s'" by (rule os_inv_on_tasks [OF w(1) keeps_wait_event r])
  then have "can_wait cfg e ?s'" using w by (simp add: can_wait_def)
  from that [OF r this] show ?thesis using q(1) assms(2) w(4) by (simp add: waited_tcb_def pending_def)
qed

lemma signal_in_callback:
  assumes "can_wait cfg e s" and "pending (task_list (os_tasks s) ! unat (self_tid s)) = {}"
  shows "\<exists>s'. event_wait_ex cfg line e (OS_INT_SIGNAL_EVENT cfg e) s = Inr (Returns, s') \<and>
      tcb_state (task_list (os_tasks s') ! unat (self_tid s)) = READY \<and> tcb_internal_state (task_list (os_tasks s') ! unat (self_tid s)) = of_nat line"
proof -
  note w = can_waitD [OF assms(1)]
  let ?me = "unat (self_tid s)"
  let ?s1 = "s\<lparr>os_events := (os_events s)\<lparr>eventList := (eventList (os_events s))[unat e := (eventList (os_events s) ! unat e)\<lparr>signaledByTid := NO_TID\<rparr>]\<rparr>\<rparr>"
  have set: "on_events (os_event_set_signaling_tid cfg e NO_TID) s = Inr ?s1"
    using w(5,6) by (simp add: on_events_def os_event_set_signaling_tid_def)
  have n: "?me < unat (nTasks (os_tasks s))" using w(2) by (simp add: word_less_nat_alt)
  have "os_inv cfg ?s1" using okeepsD [OF okeeps_set_signaling_tid w(1) set] by (simp add: os_kept_def)
  then have c1: "can_wait cfg e ?s1" using w by (simp add: can_wait_def)
  have p1: "pending (task_list (os_tasks ?s1) ! unat (self_tid ?s1)) = {}" using assms(2) by simp
  obtain s2 where s2: "on_tasks (os_task_wait_event (self_tid s) e True 0) ?s1 = Inr s2" "can_wait cfg e s2" "os_kern s2 = os_kern s"
    "tcb_state (task_list (os_tasks s2) ! ?me) = WAITING_EVENT" "pending (task_list (os_tasks s2) ! ?me) = {unat e}"
    "nTasks (os_tasks s2) = nTasks (os_tasks s)"
    by (rule set_to_wait [OF c1 p1]) simp
  obtain s3 where s3: "OS_INT_SIGNAL_EVENT cfg e s2 = Inr s3" "event_ok cfg e s3" "os_kern s3 = os_kern s2" "nTasks (os_tasks s3) = nTasks (os_tasks s2)"
    "\<forall>i < unat (nTasks (os_tasks s2)). task_list (os_tasks s3) ! i = sig_tcb e (task_list (os_tasks s2) ! i)"
    by (rule int_signal_at [OF s2(2) [unfolded can_wait_ok, THEN conjunct1]])
  have me3: "self_tid s3 = self_tid s" using s3(3) s2(3) by (simp add: self_tid_def os_get_running_tid_def)
  have c3: "can_wait cfg e s3" using s3(2,4) s2(6) w(2) me3 by (simp add: can_wait_ok)
  have "tcb_state (task_list (os_tasks s3) ! ?me) = READY"
    using s3(5) s2(4-6) n by (simp add: sig_tcb_def event_waiting_def)
  moreover obtain s4 where s4: "OS_YIELD line s3 = Inr (Returns, s4)"
    "task_list (os_tasks s4) = (task_list (os_tasks s3))[?me := (task_list (os_tasks s3) ! ?me)\<lparr>tcb_internal_state := of_nat line\<rparr>]"
    by (rule yield_at [OF can_waitD(1,2) [OF c3], unfolded me3])
  moreover have "event_wait_ex cfg line e (OS_INT_SIGNAL_EVENT cfg e) s = Inr (Returns, s4)"
    using w(6,7) set s2(1) s3(1) s4(1) by (simp add: event_wait_ex_def OS_WAIT_SINGLE_EVENT_def os_wait_event_def)
  ultimately show ?thesis using can_waitD(4) [OF c3] me3 by simp
qed

text \<open>C13: the window of \<open>event_wait\<close> and its remedy. If an interrupt signals the event while \<open>event_wait\<close>
  is executed, before the task is set to wait, the task waits for the event all the same. If instead the interrupt is only enabled in
  the callback of \<open>event_wait_ex\<close>, and comes at once, the task is made ready, and goes on behind the call.\<close>

theorem event_wait_ex_window:
  assumes "can_wait cfg e s" and "tcb_state (task_list (os_tasks s) ! unat (self_tid s)) = READY"
    and "pending (task_list (os_tasks s) ! unat (self_tid s)) = {}"
  shows "(\<exists>s'. OS_WAIT_SINGLE_EVENT_irq cfg line e (OS_INT_SIGNAL_EVENT cfg e) s = Inr (Returns, s') \<and>
      tcb_state (task_list (os_tasks s') ! unat (self_tid s)) = WAITING_EVENT \<and> pending (task_list (os_tasks s') ! unat (self_tid s)) = {unat e}) \<and>
    (\<exists>s'. event_wait_ex cfg line e (OS_INT_SIGNAL_EVENT cfg e) s = Inr (Returns, s') \<and>
      tcb_state (task_list (os_tasks s') ! unat (self_tid s)) = READY \<and> tcb_internal_state (task_list (os_tasks s') ! unat (self_tid s)) = of_nat line)"
proof -
  note w = can_waitD [OF assms(1)]
  let ?me = "unat (self_tid s)"
  let ?s1 = "s\<lparr>os_events := (os_events s)\<lparr>eventList := (eventList (os_events s))[unat e := (eventList (os_events s) ! unat e)\<lparr>signaledByTid := NO_TID\<rparr>]\<rparr>\<rparr>"
  have set: "on_events (os_event_set_signaling_tid cfg e NO_TID) s = Inr ?s1"
    using w(5,6) by (simp add: on_events_def os_event_set_signaling_tid_def)
  have n: "?me < unat (nTasks (os_tasks s))" using w(2) by (simp add: word_less_nat_alt)
  have "os_inv cfg ?s1" using okeepsD [OF okeeps_set_signaling_tid w(1) set] by (simp add: os_kept_def)
  then have c1: "can_wait cfg e ?s1" using w by (simp add: can_wait_def)
  have "\<exists>s'. OS_WAIT_SINGLE_EVENT_irq cfg line e (OS_INT_SIGNAL_EVENT cfg e) s = Inr (Returns, s') \<and>
      tcb_state (task_list (os_tasks s') ! ?me) = WAITING_EVENT \<and> pending (task_list (os_tasks s') ! ?me) = {unat e}"
  proof -
    obtain s2 where s2: "OS_INT_SIGNAL_EVENT cfg e ?s1 = Inr s2" "event_ok cfg e s2" "os_kern s2 = os_kern s"
      "nTasks (os_tasks s2) = nTasks (os_tasks s)"
      "\<forall>i < unat (nTasks (os_tasks s)). task_list (os_tasks s2) ! i = sig_tcb e (task_list (os_tasks s) ! i)"
      by (rule int_signal_at [OF c1 [unfolded can_wait_ok, THEN conjunct1]]) simp
    have me2: "self_tid s2 = self_tid s" using s2(3) by (simp add: self_tid_def os_get_running_tid_def)
    have c2: "can_wait cfg e s2" using s2(2,4) w(2) me2 by (simp add: can_wait_ok)
    have "task_list (os_tasks s2) ! ?me = task_list (os_tasks s) ! ?me"
      using s2(5) n assms(2) by (simp add: sig_tcb_def event_waiting_def)
    then have p2: "pending (task_list (os_tasks s2) ! unat (self_tid s2)) = {}" using me2 assms(3) by simp
    obtain s3 where s3: "on_tasks (os_task_wait_event (self_tid s) e True 0) s2 = Inr s3" "can_wait cfg e s3" "os_kern s3 = os_kern s2"
      "tcb_state (task_list (os_tasks s3) ! ?me) = WAITING_EVENT" "pending (task_list (os_tasks s3) ! ?me) = {unat e}"
      by (rule set_to_wait [OF c2 p2, unfolded me2])
    have me3: "self_tid s3 = self_tid s" using s3(3) s2(3) by (simp add: self_tid_def os_get_running_tid_def)
    obtain s4 where s4: "OS_YIELD line s3 = Inr (Returns, s4)"
      "task_list (os_tasks s4) = (task_list (os_tasks s3))[?me := (task_list (os_tasks s3) ! ?me)\<lparr>tcb_internal_state := of_nat line\<rparr>]"
      by (rule yield_at [OF can_waitD(1,2) [OF s3(2)], unfolded me3])
    have "OS_WAIT_SINGLE_EVENT_irq cfg line e (OS_INT_SIGNAL_EVENT cfg e) s = Inr (Returns, s4)"
      using w(6,7) set s2(1) s3(1) s4(1) by (simp add: OS_WAIT_SINGLE_EVENT_irq_def)
    then show ?thesis using s4(2) s3(4,5) can_waitD(4) [OF s3(2)] me3 by (simp add: pending_def)
  qed
  moreover note signal_in_callback [OF assms(1,3), of line]
  ultimately show ?thesis by blast
qed

theorem event_wait_ex_window_witness:
  "\<exists>s'. event_wait_ex demo_cfg 40 1 (OS_INT_SIGNAL_EVENT demo_cfg 1) (set_running_tid 0 demo_boot) = Inr (Returns, s') \<and>
     tcb_state (task_list (os_tasks s') ! 0) = READY \<and> tcb_internal_state (task_list (os_tasks s') ! 0) = 40"
proof -
  let ?s = "set_running_tid 0 demo_boot"
  have "can_wait demo_cfg 1 ?s"
    using demo_boot_inv(1,2) by (simp add: can_wait_def set_running_sel event_cap_def) (simp add: demo_boot_def demo_msg_os_def demo_os_def)
  moreover have "tcb_state (task_list (os_tasks ?s) ! unat (self_tid ?s)) = READY" "pending (task_list (os_tasks ?s) ! unat (self_tid ?s)) = {}"
    by (simp_all add: set_running_sel demo_boot_def pending_def wq_elems_empty)
  ultimately show ?thesis using event_wait_ex_window [of demo_cfg 1 ?s 40] by (simp add: set_running_sel)
qed

section \<open>Messages\<close>

text \<open>Signals from an interrupt, several times, as a tick makes them when several messages become due.\<close>

lemma iter_int_signal_tcb:
  assumes "event_ok cfg e s" and "i < unat (nTasks (os_tasks s))" and "iterR c (OS_INT_SIGNAL_EVENT cfg e) s = Inr s'"
  shows "(\<not> event_waiting (task_list (os_tasks s) ! i) \<longrightarrow> task_list (os_tasks s') ! i = task_list (os_tasks s) ! i) \<and>
    (0 < c \<and> blocked_on line e r (task_list (os_tasks s) ! i) \<longrightarrow> tcb_state (task_list (os_tasks s') ! i) = READY)"
  using assms
proof (induction c arbitrary: s)
  case (Suc c)
  obtain s1 where s1: "OS_INT_SIGNAL_EVENT cfg e s = Inr s1" "event_ok cfg e s1" "nTasks (os_tasks s1) = nTasks (os_tasks s)"
    "\<forall>i < unat (nTasks (os_tasks s)). task_list (os_tasks s1) ! i = sig_tcb e (task_list (os_tasks s) ! i)"
    by (rule int_signal_at [OF Suc.prems(1)])
  have rest: "iterR c (OS_INT_SIGNAL_EVENT cfg e) s1 = Inr s'" using Suc.prems(3) s1(1) by simp
  have i1: "i < unat (nTasks (os_tasks s1))" using Suc.prems(2) s1(3) by simp
  note IH = Suc.IH [OF s1(2) i1 rest]
  have t1: "task_list (os_tasks s1) ! i = sig_tcb e (task_list (os_tasks s) ! i)" using s1(4) Suc.prems(2) by blast
  have "tcb_state (task_list (os_tasks s') ! i) = READY" if "blocked_on line e r (task_list (os_tasks s) ! i)"
  proof -
    have "tcb_state (task_list (os_tasks s1) ! i) = READY" using sig_tcb_blocked(1) [OF that] t1 by simp
    then show ?thesis using IH by (simp add: event_waiting_def)
  qed
  moreover have "task_list (os_tasks s') ! i = task_list (os_tasks s) ! i" if "\<not> event_waiting (task_list (os_tasks s) ! i)"
    using IH t1 that by (simp add: sig_tcb_def)
  ultimately show ?case by blast
qed simp

lemma queue_waitable: "os_inv cfg s \<Longrightarrow> has_queue cfg t queue s \<Longrightarrow> event_ok cfg (change_of queue s) s"
  using change_of_ok [of cfg s t queue] by (simp add: event_ok_def)

lemma tick_of_queue:
  assumes "os_inv cfg s" and "has_queue cfg t queue s"
  obtains s' where "os_msgQ_tick cfg queue s = Inr s'" "os_inv cfg s'" "has_queue cfg t queue s'" "change_of queue s' = change_of queue s"
    "os_kern s' = os_kern s" "nTasks (os_tasks s') = nTasks (os_tasks s)" "nEvents (os_events s') = nEvents (os_events s)"
    "qmsgs (queue_at (os_msgqs s') queue) = map ticked (qmsgs (queue_at (os_msgqs s) queue))"
    "q_messageSize (queue_at (os_msgqs s') queue) = q_messageSize (queue_at (os_msgqs s) queue)"
    "\<forall>i < unat (nTasks (os_tasks s)). \<not> event_waiting (task_list (os_tasks s) ! i) \<longrightarrow> task_list (os_tasks s') ! i = task_list (os_tasks s) ! i"
    "\<forall>i < unat (nTasks (os_tasks s)). (\<exists>x \<in> set (qmsgs (queue_at (os_msgqs s) queue)). mdelay x = 1) \<longrightarrow>
       (\<forall>line r. blocked_on line (change_of queue s) r (task_list (os_tasks s) ! i) \<longrightarrow> tcb_state (task_list (os_tasks s') ! i) = READY)"
    "(\<forall>x \<in> set (qmsgs (queue_at (os_msgqs s) queue)). mdelay x \<noteq> 1) \<longrightarrow> os_tasks s' = os_tasks s"
proof -
  note q = change_of_ok [OF assms(1,2)]
  have n: "0 < N_QUEUES cfg" using assms(2) by (simp add: has_queue_def)
  let ?ms = "qmsgs (queue_at (os_msgqs s) queue)" and ?e = "change_of queue s"
  note qi = msgq_invD [OF q(3,4)]
  note sg = queue_signalable [OF assms(1) n q(4)]
  obtain s1 q' where r: "iterR (length (filter (\<lambda>m. mdelay m = 1) ?ms)) (OS_INT_SIGNAL_EVENT cfg ?e) s = Inr s1" "sig_same cfg s s1"
    "os_msgQ_tick cfg queue s = Inr (s1\<lparr>os_msgqs := with_queue (os_msgqs s) queue q'\<rparr>)" "qmsgs q' = map ticked ?ms"
    "q_messageSize q' = q_messageSize (queue_at (os_msgqs s) queue)"
    using msgQ_tick_ok [OF n qi(1) qi(2) [unfolded queue_at_def] sg] unfolding with_queue_def queue_at_def change_of_def by metis
  let ?s' = "s1\<lparr>os_msgqs := with_queue (os_msgqs s) queue q'\<rparr>"
  obtain s2 where "os_msgQ_tick cfg queue s = Inr s2" "os_inv cfg s2" "tick_same cfg s s2" by (rule msgQ_tick_inv [OF assms(1) n q(4)])
  then have inv: "os_inv cfg ?s'" and same: "os_kern ?s' = os_kern s" "nTasks (os_tasks ?s') = nTasks (os_tasks s)"
    using r(3) by (auto simp: tick_same_def dest: task_keptD(2))
  have "os_msgqs ?s' = with_queue (os_msgqs s) queue q'" by simp
  note w = with_queue_same_queue [OF this q(5)]
  have ev: "nEvents (os_events ?s') = nEvents (os_events s)" using r(2) by (simp add: sig_same_def)
  note it_tcb = iter_int_signal_tcb [OF queue_waitable [OF assms] _ r(1)]
  have c: "0 < length (filter (\<lambda>m. mdelay m = 1) ?ms) \<longleftrightarrow> (\<exists>x \<in> set ?ms. mdelay x = 1)"
    by (simp add: filter_empty_conv)
  have none: "os_tasks ?s' = os_tasks s" if "\<forall>x \<in> set ?ms. mdelay x \<noteq> 1"
  proof -
    have "filter (\<lambda>m. mdelay m = 1) ?ms = []" using that by (simp add: filter_empty_conv)
    then show ?thesis using r(1) by simp
  qed
  show ?thesis
    by (rule that [OF r(3) inv _ w(2) same ev]) (use w r(4,5) assms(2) it_tcb c none in simp_all)
qed

text \<open>When every message is due, ticks of the queue tell nobody any more.\<close>

lemma ticks_when_due:
  assumes "os_inv cfg s" and "has_queue cfg t queue s" and "\<forall>x \<in> set (qmsgs (queue_at (os_msgqs s) queue)). mdelay x = 0"
  shows "\<exists>s'. iterR k (os_msgQ_tick cfg queue) s = Inr s' \<and> os_tasks s' = os_tasks s"
  using assms
proof (induction k arbitrary: s)
  case (Suc k)
  have "\<forall>x \<in> set (qmsgs (queue_at (os_msgqs s) queue)). mdelay x \<noteq> 1" using Suc.prems(3) by auto
  then obtain s1 where s1: "os_msgQ_tick cfg queue s = Inr s1" "os_inv cfg s1" "has_queue cfg t queue s1"
    "qmsgs (queue_at (os_msgqs s1) queue) = map ticked (qmsgs (queue_at (os_msgqs s) queue))" "os_tasks s1 = os_tasks s"
    by (rule_tac tick_of_queue [OF Suc.prems(1,2)]) blast
  have "\<forall>x \<in> set (qmsgs (queue_at (os_msgqs s1) queue)). mdelay x = 0"
    using s1(4) Suc.prems(3) by (auto simp: ticked_def)
  from Suc.IH [OF s1(2,3) this] show ?case using s1(1,5) by auto
qed simp

text \<open>The receiver that has found its queue empty of due messages, and then a tick of the queue.\<close>

lemma tick_then_waits:
  assumes "in_task cfg s" and "has_queue cfg t queue s" and "tcb_state (task_list (os_tasks s) ! unat (self_tid s)) = READY"
    and "pending (task_list (os_tasks s) ! unat (self_tid s)) = {}" and "\<forall>x \<in> set (qmsgs (queue_at (os_msgqs s) queue)). mdelay x = 1"
  obtains s' where "OS_MSG_Q_RECEIVE_irq cfg line t buf (os_msgQ_tick cfg queue) s = Inr (Returns, buf, s')"
    "os_inv cfg s'" "nTasks (os_tasks s') = nTasks (os_tasks s)" "has_queue cfg t queue s'"
    "qmsgs (queue_at (os_msgqs s') queue) = map ticked (qmsgs (queue_at (os_msgqs s) queue))"
    "tcb_state (task_list (os_tasks s') ! unat (self_tid s)) = WAITING_EVENT"
proof -
  let ?me = "unat (self_tid s)" and ?e = "change_of queue s"
  obtain s1 where s1: "queue_prologue cfg t s = Inr (?e, s1)" "in_task cfg s1" "self_tid s1 = self_tid s"
    "s1 = s\<lparr>os_tasks := (os_tasks s)\<lparr>task_list := (task_list (os_tasks s))
       [?me := noted queue ?e (task_list (os_tasks s) ! ?me)]\<rparr>\<rparr>"
    by (rule prologue_at [OF assms(1,2)])
  note i = in_taskD [OF assms(1)] and q = change_of_ok [OF in_taskD(1) [OF assms(1)] assms(2)]
  have same: "os_msgqs s1 = os_msgqs s" "nTasks (os_tasks s1) = nTasks (os_tasks s)" using s1(4) by simp_all
  have hq1: "has_queue cfg t queue s1" "change_of queue s1 = ?e" using assms(2) same(1) by (simp_all add: has_queue_def change_of_def)
  have me1: "task_list (os_tasks s1) ! ?me = noted queue ?e (task_list (os_tasks s) ! ?me)" using s1(4) i(3) by simp
  obtain s2 where s2: "os_msgQ_tick cfg queue s1 = Inr s2" "os_inv cfg s2" "has_queue cfg t queue s2" "change_of queue s2 = ?e"
    "os_kern s2 = os_kern s1" "nTasks (os_tasks s2) = nTasks (os_tasks s1)"
    "qmsgs (queue_at (os_msgqs s2) queue) = map ticked (qmsgs (queue_at (os_msgqs s1) queue))"
    "\<forall>i < unat (nTasks (os_tasks s1)). \<not> event_waiting (task_list (os_tasks s1) ! i) \<longrightarrow> task_list (os_tasks s2) ! i = task_list (os_tasks s1) ! i"
    by (rule tick_of_queue [OF in_taskD(1) [OF s1(2)] hq1(1), unfolded hq1(2)])
  have me2: "task_list (os_tasks s2) ! ?me = noted queue ?e (task_list (os_tasks s) ! ?me)" "self_tid s2 = self_tid s"
    using s2(5,8) me1 i(4) same(2) assms(3) s1(3) by (simp_all add: event_waiting_def noted_def self_tid_def os_get_running_tid_def)
  then have n: "pending (task_list (os_tasks s2) ! unat (self_tid s2)) = {}" "tcb_msgChangeEvent (task_list (os_tasks s2) ! unat (self_tid s2)) = ?e"
    using assms(4) by (simp_all add: noted_def pending_def)
  have in2: "in_task cfg s2" using s2(2,6) same(2) me2(2) i(2) by (simp add: in_task_def)
  have w2: "can_wait cfg ?e s2" using queue_waitable [OF s2(2,3)] s2(4) in_taskD(2) [OF in2] by (simp add: can_wait_ok)
  obtain s3 s4 where s4: "on_tasks (os_task_set_msg_result (self_tid s2) MSG_QUEUE_EMPTY) s2 = Inr s3"
    "OS_WAIT_SINGLE_EVENT cfg line ?e 0 None s3 = Inr (Returns, s4)" "os_inv cfg s4" "os_msgqs s4 = os_msgqs s2"
    "nTasks (os_tasks s4) = nTasks (os_tasks s2)" "blocked_on line ?e MSG_QUEUE_EMPTY (task_list (os_tasks s4) ! unat (self_tid s2))"
    by (rule notes_and_waits [OF in2 w2 n, of MSG_QUEUE_EMPTY line])
  have no: "\<forall>x \<in> set (qmsgs (queue_at (os_msgqs s) queue)). mdelay x \<noteq> 0" using assms(5) by auto
  have rcv: "os_msg_receive cfg buf queue (os_msgqs s) = Inr (MSG_QUEUE_EMPTY, buf, os_msgqs s)"
    using msg_receive_none [OF q(3,4) no] by simp
  have keep: "s1\<lparr>os_msgqs := os_msgqs s\<rparr> = s1" using same(1) by (cases s1) simp
  have "OS_MSG_Q_RECEIVE_irq cfg line t buf (os_msgQ_tick cfg queue) s = Inr (Returns, buf, s4)"
    using s1(1) hq1(1) rcv same(1) s2(1) s4(1,2) by (simp add: OS_MSG_Q_RECEIVE_irq_def after_receive_def has_queue_def keep)
  from that [OF this s4(3)] show ?thesis
    using s4(4-6) s2(3,6,7) same me2(2) by (simp add: blocked_on_def has_queue_def)
qed

lemma tick_then_receive:
  assumes "in_task cfg s" and "has_queue cfg t queue s" and "qm (queue_at (os_msgqs s) queue) \<le> length buf"
    and "qmsgs (queue_at (os_msgqs s) queue) = x # rest" and "mdelay (ticked x) = 0"
  shows "\<exists>s'. bindR (os_msgQ_tick cfg queue s) (msg_receive cfg line t buf) =
    Inr (Goes_on, delivered (ticked x) @ drop (qm (queue_at (os_msgqs s) queue)) buf, s')"
proof -
  note i = in_taskD [OF assms(1)]
  let ?q = "queue_at (os_msgqs s) queue"
  obtain s1 where s1: "os_msgQ_tick cfg queue s = Inr s1" "os_inv cfg s1" "has_queue cfg t queue s1"
    "os_kern s1 = os_kern s" "nTasks (os_tasks s1) = nTasks (os_tasks s)"
    "qmsgs (queue_at (os_msgqs s1) queue) = map ticked (qmsgs ?q)" "q_messageSize (queue_at (os_msgqs s1) queue) = q_messageSize ?q"
    by (rule tick_of_queue [OF i(1) assms(2)])
  have in1: "in_task cfg s1" using s1(2,4,5) i(2) by (simp add: in_task_def self_tid_def os_get_running_tid_def)
  have m: "qm (queue_at (os_msgqs s1) queue) \<le> length buf" "qmsgs (queue_at (os_msgqs s1) queue) = [] @ ticked x # map ticked rest"
    "\<forall>y \<in> set []. mdelay y \<noteq> 0" "mdelay (ticked x) = 0" using s1(6,7) assms(3-5) by simp_all
  obtain s2 where "OS_MSG_Q_RECEIVE cfg line t buf False None s1 = Inr (Goes_on, delivered (ticked x) @ drop (qm (queue_at (os_msgqs s1) queue)) buf, s2)"
    by (rule receive_delivers [OF in1 s1(3) m, of line False])
  then show ?thesis using s1(1,7) by (simp add: msg_receive_def)
qed

lemma receive_then_tick:
  assumes "in_task cfg s" and "has_queue cfg t queue s" and "pending (task_list (os_tasks s) ! unat (self_tid s)) = {}"
    and one: "\<forall>y \<in> set (qmsgs (queue_at (os_msgqs s) queue)). mdelay y = 1" "\<exists>y \<in> set (qmsgs (queue_at (os_msgqs s) queue)). mdelay y = 1"
  shows "\<exists>s'. bindR (msg_receive cfg line t buf s) (\<lambda>r. os_msgQ_tick cfg queue (snd (snd r))) = Inr s' \<and>
    tcb_state (task_list (os_tasks s') ! unat (self_tid s)) = READY"
proof -
  note i = in_taskD [OF assms(1)]
  let ?me = "unat (self_tid s)" and ?q = "queue_at (os_msgqs s) queue"
  have no: "\<forall>y \<in> set (qmsgs ?q). mdelay y \<noteq> 0" using one(1) by auto
  obtain s1 where s1: "OS_MSG_Q_RECEIVE cfg line t buf False None s = Inr (Returns, buf, s1)" "os_inv cfg s1" "os_msgqs s1 = os_msgqs s"
    "nTasks (os_tasks s1) = nTasks (os_tasks s)" "blocked_on line (change_of queue s) MSG_QUEUE_EMPTY (task_list (os_tasks s1) ! ?me)"
    by (rule receive_blocks [OF assms(1-3) no, of line buf])
  have hq1: "has_queue cfg t queue s1" "change_of queue s1 = change_of queue s"
    using s1(3) assms(2) by (simp_all add: has_queue_def change_of_def)
  obtain s2 where s2: "os_msgQ_tick cfg queue s1 = Inr s2"
    "\<forall>i < unat (nTasks (os_tasks s1)). (\<exists>x \<in> set (qmsgs (queue_at (os_msgqs s1) queue)). mdelay x = 1) \<longrightarrow>
       (\<forall>line r. blocked_on line (change_of queue s1) r (task_list (os_tasks s1) ! i) \<longrightarrow> tcb_state (task_list (os_tasks s2) ! i) = READY)"
    by (rule tick_of_queue [OF s1(2) hq1(1)])
  have "tcb_state (task_list (os_tasks s2) ! ?me) = READY"
    using s2(2) [rule_format, of ?me line MSG_QUEUE_EMPTY] s1(3-5) hq1(2) i(4) one(2) by simp
  then show ?thesis using s1(1) s2(1) by (simp add: msg_receive_def)
qed

text \<open>C35: the window of \<open>msg_receive\<close>. The messages of a queue have one tick left. If the tick comes
  before the receiver calls \<open>msg_receive\<close>, the call delivers the first message; if it comes when the receiver waits, the
  receiver is made ready. But if it comes in the call, between the search for a message and the wait, the
  receiver waits although all messages are due, and no number of further ticks of the queue wakes it.\<close>

theorem message_due_window:
  assumes "in_task cfg s" and "has_queue cfg t queue s" and "tcb_state (task_list (os_tasks s) ! unat (self_tid s)) = READY"
    and "pending (task_list (os_tasks s) ! unat (self_tid s)) = {}" and "qm (queue_at (os_msgqs s) queue) \<le> length buf"
    and "qmsgs (queue_at (os_msgqs s) queue) = x # rest" and "\<forall>y \<in> set (x # rest). mdelay y = 1"
  shows "(\<exists>s'. bindR (os_msgQ_tick cfg queue s) (msg_receive cfg line t buf) =
        Inr (Goes_on, delivered (ticked x) @ drop (qm (queue_at (os_msgqs s) queue)) buf, s')) \<and>
    (\<exists>s'. bindR (msg_receive cfg line t buf s) (\<lambda>r. os_msgQ_tick cfg queue (snd (snd r))) = Inr s' \<and>
        tcb_state (task_list (os_tasks s') ! unat (self_tid s)) = READY) \<and>
    (\<exists>s'. OS_MSG_Q_RECEIVE_irq cfg line t buf (os_msgQ_tick cfg queue) s = Inr (Returns, buf, s') \<and>
        qmsgs (queue_at (os_msgqs s') queue) = map ticked (x # rest) \<and> (\<forall>y \<in> set (x # rest). mdelay (ticked y) = 0) \<and>
        (\<forall>k. \<exists>s''. iterR k (os_msgQ_tick cfg queue) s' = Inr s'' \<and> tcb_state (task_list (os_tasks s'') ! unat (self_tid s)) = WAITING_EVENT))"
proof -
  note i = in_taskD [OF assms(1)] and q = change_of_ok [OF in_taskD(1) [OF assms(1)] assms(2)]
  note qi = msgq_invD(2) [OF q(3,4)]
  let ?me = "unat (self_tid s)" and ?q = "queue_at (os_msgqs s) queue"
  have "12 \<le> length y" if "y \<in> set (qmsgs ?q)" for y using qmsgs_length [OF qi that] queue_invD(5) [OF qi] by simp
  then have "unat (mdelay (ticked y)) = 0" if "y \<in> set (x # rest)" for y
  proof -
    have "mdelay y = 1" using that assms(7) by blast
    then show ?thesis using mdelay_ticked [of y] \<open>\<And>y. y \<in> set (qmsgs ?q) \<Longrightarrow> 12 \<le> length y\<close> that assms(6) by simp
  qed
  then have due: "\<forall>y \<in> set (x # rest). mdelay (ticked y) = 0" by (simp add: unat_eq_zero)
  have one: "\<forall>y \<in> set (qmsgs ?q). mdelay y = 1" "\<exists>y \<in> set (qmsgs ?q). mdelay y = 1" using assms(6,7) by simp_all
  have "mdelay (ticked x) = 0" using due by simp
  note tick_then_receive [OF assms(1,2,5,6) this, of line]
  moreover note receive_then_tick [OF assms(1,2,4) one, of line buf]
  moreover have "\<exists>s'. OS_MSG_Q_RECEIVE_irq cfg line t buf (os_msgQ_tick cfg queue) s = Inr (Returns, buf, s') \<and>
        qmsgs (queue_at (os_msgqs s') queue) = map ticked (x # rest) \<and> (\<forall>y \<in> set (x # rest). mdelay (ticked y) = 0) \<and>
        (\<forall>k. \<exists>s''. iterR k (os_msgQ_tick cfg queue) s' = Inr s'' \<and> tcb_state (task_list (os_tasks s'') ! ?me) = WAITING_EVENT)"
  proof -
    obtain s' where s': "OS_MSG_Q_RECEIVE_irq cfg line t buf (os_msgQ_tick cfg queue) s = Inr (Returns, buf, s')" "os_inv cfg s'"
      "has_queue cfg t queue s'" "qmsgs (queue_at (os_msgqs s') queue) = map ticked (qmsgs ?q)" "tcb_state (task_list (os_tasks s') ! ?me) = WAITING_EVENT"
      by (rule tick_then_waits [OF assms(1-4) one(1), of line buf])
    have "\<forall>y \<in> set (qmsgs (queue_at (os_msgqs s') queue)). mdelay y = 0" using s'(4) assms(6) due by simp
    note ticks = ticks_when_due [OF s'(2,3) this]
    have "\<forall>k. \<exists>s''. iterR k (os_msgQ_tick cfg queue) s' = Inr s'' \<and> tcb_state (task_list (os_tasks s'') ! ?me) = WAITING_EVENT"
      using ticks s'(5) by metis
    then show ?thesis using s'(1,4) assms(6) due by (intro exI [of _ s']) simp
  qed
  ultimately show ?thesis by blast
qed

text \<open>A queue of three slots with two messages of delay 1, in the booted kernel.\<close>

definition demo_due :: OSQueue_t where
  "demo_due = \<lparr>q_list = replicate 12 0 @ demo_msg 7 1 0 @ demo_msg 8 1 0, q_messageSize = 12, q_head = 0, q_tail = 0, q_size = 3\<rparr>"

definition demo_due_os :: os where
  "demo_due_os = set_running_tid 1 (demo_boot\<lparr>os_msgqs := with_queue demo_msgqs 0 demo_due\<rparr>)"

theorem message_due_window_witness:
  "\<exists>s'. OS_MSG_Q_RECEIVE_irq demo_cfg 30 1 (demo_msg 0 0 0) (os_msgQ_tick demo_cfg 0) demo_due_os = Inr (Returns, demo_msg 0 0 0, s') \<and>
     (\<forall>k. \<exists>s''. iterR k (os_msgQ_tick demo_cfg 0) s' = Inr s'' \<and> tcb_state (task_list (os_tasks s'') ! 1) = WAITING_EVENT)"
proof -
  have cyc2: "cyc 3 (Suc 0) 2 = [1, 2]" by (simp add: numeral_2_eq_2)
  have ms: "queue_inv demo_due" "qmsgs demo_due = [demo_msg 7 1 0, demo_msg 8 1 0]"
    using cyc2 by (simp_all add: queue_inv_def qmsgs_def ring_def live_def ring_len_def demo_due_def nxt_def sl_def demo_msg_def)
  have "msgqs_kept demo_cfg (os_msgqs demo_boot) (with_queue demo_msgqs 0 demo_due)"
    using ms(1) by (simp add: demo_boot_def demo_msg_os_def msgqs_kept_with_queue)
  from os_kept_msgqs [OF demo_boot_inv(1) this] have it: "in_task demo_cfg demo_due_os"
    using demo_boot_inv(2) by (simp add: os_kept_def demo_due_os_def in_task_def set_running_sel)
  have hq: "has_queue demo_cfg 1 0 demo_due_os"
    by (simp add: has_queue_def demo_due_os_def os_msgQ_find_def set_running_sel) (simp add: demo_msgqs_def with_queue_def aget_def)
  have at: "queue_at (os_msgqs demo_due_os) 0 = demo_due" "unat (self_tid demo_due_os) = 1" "os_tasks demo_due_os = os_tasks demo_boot"
    by (simp_all add: demo_due_os_def set_running_sel demo_msgqs_def with_queue_def queue_at_def)
  have st: "tcb_state (task_list (os_tasks demo_due_os) ! unat (self_tid demo_due_os)) = READY"
    "pending (task_list (os_tasks demo_due_os) ! unat (self_tid demo_due_os)) = {}"
    unfolding at by (simp_all add: demo_boot_def pending_def wq_elems_empty)
  have m: "qm (queue_at (os_msgqs demo_due_os) 0) \<le> length (demo_msg 0 0 0)"
    "qmsgs (queue_at (os_msgqs demo_due_os) 0) = demo_msg 7 1 0 # [demo_msg 8 1 0]"
    "\<forall>y \<in> set (demo_msg 7 1 0 # [demo_msg 8 1 0]). mdelay y = 1"
    unfolding at using ms(2) by (simp_all add: demo_due_def demo_msg_def mdelay_def fld_def)
  from message_due_window [OF it hq st m, of 30] show ?thesis unfolding at by blast
qed

end
