(* ===== verification/Os_Race_Signal.thy ===== *)
theory Os_Race_Signal
  imports Os_Race
begin

text \<open>
  Interrupts within the calls that signal and that wait for several events. \<open>OS_SIGNAL_SEM\<close> decides whether to
  count or to release before it does either: a signal of an interrupt in between is lost. \<open>os_wait_multiple\<close>
  puts the task to sleep event by event: a signal that has ended its wait already is taken back.
\<close>

section \<open>Signalling a semaphore\<close>

definition signal_sem_rest :: "config \<Rightarrow> nat \<Rightarrow> u16 \<Rightarrow> u8 \<Rightarrow> os \<Rightarrow> (ctl \<times> os) res" where
  "signal_sem_rest cfg line sem waiting s =
     (if waiting = 0 then bindR (on_sems (os_sem_increment cfg sem) s) (\<lambda>s. Inr (Goes_on, s))
      else bindR (on_tasks (os_task_release_waiting_task cfg sem) s) (OS_YIELD line))"

definition OS_SIGNAL_SEM_irq :: "config \<Rightarrow> nat \<Rightarrow> u16 \<Rightarrow> proc \<Rightarrow> os \<Rightarrow> (ctl \<times> os) res" where
  "OS_SIGNAL_SEM_irq cfg line sem isr s =
     bindR (os_task_waiting_this_semaphore sem (os_tasks s)) (\<lambda>waiting. bindR (isr s) (signal_sem_rest cfg line sem waiting))"

lemma signal_irq_none: "OS_SIGNAL_SEM_irq cfg line sem Inr = OS_SIGNAL_SEM cfg line sem"
  by (rule ext) (simp add: OS_SIGNAL_SEM_irq_def OS_SIGNAL_SEM_def signal_sem_rest_def)

text \<open>One task waits for the semaphore, which is 0 and can count; the running task is another one.\<close>

definition one_waiter :: "config \<Rightarrow> u16 \<Rightarrow> nat \<Rightarrow> os \<Rightarrow> bool" where
  "one_waiter cfg sem w s \<longleftrightarrow> in_task cfg s \<and> sem_handle (os_sems s) sem \<and> sem_val sem (os_sems s) = 0 \<and>
     0 < sem_cap sem (os_sems s) \<and> releasable cfg sem (os_tasks s) w \<and> (\<forall>i. waiter sem (os_tasks s) i \<longrightarrow> i = w) \<and>
     unat (self_tid s) \<noteq> w"

text \<open>What releases the waiter, and the state after it, with nobody waiting.\<close>

definition with_released :: "nat \<Rightarrow> os \<Rightarrow> os" where
  "with_released w s = s\<lparr>os_tasks := with_ready w (os_tasks s)\<rparr>"

lemma one_waiter_released:
  assumes "one_waiter cfg sem w s"
  shows "os_task_waiting_this_semaphore sem (os_tasks s) = Inr 1"
    and "on_tasks (os_task_release_waiting_task cfg sem) s = Inr (with_released w s)"
    and "os_inv cfg (with_released w s)" and "\<And>i. \<not> waiter sem (os_tasks (with_released w s)) i"
    and "tcb_state (task_list (os_tasks (with_released w s)) ! w) = READY"
proof -
  have a: "in_task cfg s" "releasable cfg sem (os_tasks s) w" "\<forall>i. waiter sem (os_tasks s) i \<longrightarrow> i = w"
    using assms by (simp_all add: one_waiter_def)
  note inv = in_taskD(1) [OF a(1)] and ti = os_invD(1) [OF in_taskD(1) [OF a(1)]]
  have w: "waiter sem (os_tasks s) w" "w < length (task_list (os_tasks s))"
    using a(2) task_inv_bounds(1) [OF ti] by (simp_all add: releasable_def waiter_def)
  show "os_task_waiting_this_semaphore sem (os_tasks s) = Inr 1"
    using waiting_this_semaphore_iff [OF ti, of sem] w(1) by auto
  obtain i where i: "os_task_release_waiting_task cfg sem (os_tasks s) = Inr (with_ready i (os_tasks s))" "best_waiter cfg sem (os_tasks s) i"
    by (rule release_some [OF ti a(2)])
  then show r: "on_tasks (os_task_release_waiting_task cfg sem) s = Inr (with_released w s)"
    using a(3) by (auto simp: on_tasks_def with_released_def best_waiter_def)
  show "os_inv cfg (with_released w s)"
    using okeepsD [OF okeeps_on_tasks [OF keeps_release] inv r] by (simp add: os_kept_def)
  show "tcb_state (task_list (os_tasks (with_released w s)) ! w) = READY" using w(2) by (simp add: with_released_def with_ready_def)
  show "\<not> waiter sem (os_tasks (with_released w s)) i" for i
    using a(3) w(2) by (cases "i = w") (auto simp: with_released_def with_ready_def waiter_def waiting_this_sem_def)
qed

text \<open>A signal when nobody waits counts.\<close>

lemma counts:
  assumes "os_inv cfg s" and "\<And>i. \<not> waiter sem (os_tasks s) i" and "sem_handle (os_sems s) sem"
    and "sem_val sem (os_sems s) = 0" and "0 < sem_cap sem (os_sems s)"
  obtains sm where "OS_SIGNAL_SEM_NO_SCHEDULE cfg sem s = Inr (s\<lparr>os_sems := sm\<rparr>)"
    "OS_SIGNAL_SEM cfg line sem s = Inr (Goes_on, s\<lparr>os_sems := sm\<rparr>)" "sem_val sem sm = 1"
proof -
  obtain sm where sm: "os_sem_increment cfg sem (os_sems s) = Inr sm" "sem_val sem sm = min (sem_cap sem (os_sems s)) (Suc (sem_val sem (os_sems s)))"
    by (rule os_sem_increment_valid [OF os_invD(2) [OF assms(1)] assms(3)])
  have "os_task_waiting_this_semaphore sem (os_tasks s) = Inr 0"
    using waiting_this_semaphore_iff [OF os_invD(1) [OF assms(1)], of sem] assms(2) by simp
  with sm show ?thesis
    using that [of sm] assms(4,5) by (simp add: OS_SIGNAL_SEM_NO_SCHEDULE_def OS_SIGNAL_SEM_def on_sems_def)
qed

text \<open>A yield changes neither states nor semaphores.\<close>

lemma yield_after:
  assumes "os_inv cfg s" and "self_tid s < nTasks (os_tasks s)"
  obtains s' where "OS_YIELD line s = Inr (Returns, s')" "os_inv cfg s'" "os_sems s' = os_sems s" "nTasks (os_tasks s') = nTasks (os_tasks s)"
    "\<forall>i. tcb_state (task_list (os_tasks s') ! i) = tcb_state (task_list (os_tasks s) ! i) \<and>
        tcb_semaphore (task_list (os_tasks s') ! i) = tcb_semaphore (task_list (os_tasks s) ! i)"
proof -
  let ?i = "unat (self_tid s)"
  have len: "?i < length (task_list (os_tasks s))" by (rule task_inv_index [OF os_invD(1) [OF assms(1)] assms(2)])
  let ?s' = "os_free_tid (s\<lparr>os_tasks := (os_tasks s)\<lparr>task_list := (task_list (os_tasks s))
      [?i := (task_list (os_tasks s) ! ?i)\<lparr>tcb_internal_state := of_nat line\<rparr>]\<rparr>\<rparr>)"
  have r: "OS_YIELD line s = Inr (Returns, ?s')"
    using assms(2) len by (simp add: OS_YIELD_def on_tasks_def os_task_internal_state_set_def)
  have "os_inv cfg ?s'" using okeepsD [OF okeeps_yield assms(1) r] by (simp add: os_kept_def)
  from that [OF r this] show ?thesis using len by (simp add: os_free_tid_def set_running_tid_def nth_list_update)
qed

text \<open>C36: the window of \<open>sem_signal\<close>. One task waits for a semaphore of value 0, and both the running
  task and an interrupt signal it. If the interrupt comes before or after the call, the waiter is made ready and
  the semaphore has the value 1. But if it comes in the call, between the question whether a task waits and
  the release, the waiter is made ready and the semaphore stays 0: one of the two signals is lost.\<close>

theorem signal_signal_window:
  assumes "one_waiter cfg sem w s"
  shows "(\<exists>s'. bindR (OS_SIGNAL_SEM_NO_SCHEDULE cfg sem s) (OS_SIGNAL_SEM cfg line sem) = Inr (Goes_on, s') \<and>
       tcb_state (task_list (os_tasks s') ! w) = READY \<and> sem_val sem (os_sems s') = 1) \<and>
    (\<exists>s'. bindR (OS_SIGNAL_SEM cfg line sem s) (\<lambda>r. OS_SIGNAL_SEM_NO_SCHEDULE cfg sem (snd r)) = Inr s' \<and>
       tcb_state (task_list (os_tasks s') ! w) = READY \<and> sem_val sem (os_sems s') = 1) \<and>
    (\<exists>s'. OS_SIGNAL_SEM_irq cfg line sem (OS_SIGNAL_SEM_NO_SCHEDULE cfg sem) s = Inr (Returns, s') \<and>
       tcb_state (task_list (os_tasks s') ! w) = READY \<and> sem_val sem (os_sems s') = 0)"
proof -
  let ?r = "with_released w s"
  note o = one_waiter_released [OF assms]
  have a: "in_task cfg s" "sem_handle (os_sems ?r) sem" "sem_val sem (os_sems ?r) = 0" "0 < sem_cap sem (os_sems ?r)"
    using assms by (simp_all add: one_waiter_def with_released_def)
  have self: "self_tid ?r < nTasks (os_tasks ?r)"
    using in_taskD(2) [OF a(1)] by (simp add: with_released_def with_ready_def self_tid_def os_get_running_tid_def)
  have isr: "OS_SIGNAL_SEM_NO_SCHEDULE cfg sem s = Inr ?r" using o(1,2) by (simp add: OS_SIGNAL_SEM_NO_SCHEDULE_def)
  obtain s1 where s1: "OS_YIELD line ?r = Inr (Returns, s1)" "os_inv cfg s1" "os_sems s1 = os_sems ?r" "nTasks (os_tasks s1) = nTasks (os_tasks ?r)"
    "\<forall>i. tcb_state (task_list (os_tasks s1) ! i) = tcb_state (task_list (os_tasks ?r) ! i) \<and>
        tcb_semaphore (task_list (os_tasks s1) ! i) = tcb_semaphore (task_list (os_tasks ?r) ! i)"
    by (rule yield_after [OF o(3) self, of line])
  have task: "OS_SIGNAL_SEM cfg line sem s = Inr (Returns, s1)" using o(1,2) s1(1) by (simp add: OS_SIGNAL_SEM_def)
  obtain sm where "OS_SIGNAL_SEM cfg line sem ?r = Inr (Goes_on, ?r\<lparr>os_sems := sm\<rparr>)" "sem_val sem sm = 1"
    by (rule counts [OF o(3,4) a(2-4)])
  then have before: "\<exists>s'. bindR (OS_SIGNAL_SEM_NO_SCHEDULE cfg sem s) (OS_SIGNAL_SEM cfg line sem) = Inr (Goes_on, s') \<and>
       tcb_state (task_list (os_tasks s') ! w) = READY \<and> sem_val sem (os_sems s') = 1"
    using isr o(5) by simp
  have none: "\<not> waiter sem (os_tasks s1) i" for i using o(4) [of i] s1(4,5) by (simp add: waiter_def waiting_this_sem_def)
  obtain sm' where "OS_SIGNAL_SEM_NO_SCHEDULE cfg sem s1 = Inr (s1\<lparr>os_sems := sm'\<rparr>)" "sem_val sem sm' = 1"
    by (rule counts [OF s1(2) none, of line]) (use a(2-4) s1(3) in simp_all)
  then have after: "\<exists>s'. bindR (OS_SIGNAL_SEM cfg line sem s) (\<lambda>r. OS_SIGNAL_SEM_NO_SCHEDULE cfg sem (snd r)) = Inr s' \<and>
       tcb_state (task_list (os_tasks s') ! w) = READY \<and> sem_val sem (os_sems s') = 1"
    using task o(5) s1(5) by simp
  have "os_task_release_waiting_task cfg sem (os_tasks ?r) = Inr (os_tasks ?r)"
    by (rule release_none [OF os_invD(1) [OF o(3)]]) (use o(4) in \<open>simp add: releasable_def\<close>)
  then have "OS_SIGNAL_SEM_irq cfg line sem (OS_SIGNAL_SEM_NO_SCHEDULE cfg sem) s = Inr (Returns, s1)"
    using o(1) isr s1(1) by (simp add: OS_SIGNAL_SEM_irq_def signal_sem_rest_def on_tasks_def)
  then have "\<exists>s'. OS_SIGNAL_SEM_irq cfg line sem (OS_SIGNAL_SEM_NO_SCHEDULE cfg sem) s = Inr (Returns, s') \<and>
       tcb_state (task_list (os_tasks s') ! w) = READY \<and> sem_val sem (os_sems s') = 0"
    using o(5) s1(3,5) a(3) by simp
  with before after show ?thesis by blast
qed

text \<open>A reachable state: the first task waits for the semaphore and the second one is executed.\<close>

lemma demo_one_waiter:
  "\<exists>s. acts demo_cfg (demo_boot_acts @ [Call (Wait_sem 10 0), Schedule]) demo_init = Some (True, s) \<and> one_waiter demo_cfg 0 0 s"
proof -
  let ?as = "demo_boot_acts @ [Call (Wait_sem 10 0), Schedule]"
  have "case acts demo_cfg ?as demo_init of Some (b, s) \<Rightarrow> b \<and> self_tid s = 1 \<and> nTasks (os_tasks s) = 2 \<and>
      tcb_state (task_list (os_tasks s) ! 0) = WAITING_SEM \<and> tcb_semaphore (task_list (os_tasks s) ! 0) = 0 \<and>
      tcb_prio (task_list (os_tasks s) ! 0) < 255 \<and> tcb_state (task_list (os_tasks s) ! 1) = READY \<and>
      nSemaphores (os_sems s) = 1 \<and> sem_val 0 (os_sems s) = 0 \<and> sem_cap 0 (os_sems s) = 1 | None \<Rightarrow> False"
    by code_simp
  from some_case [OF this] obtain s where s: "acts demo_cfg ?as demo_init = Some (True, s)" and v: "self_tid s = 1" "nTasks (os_tasks s) = 2"
    "tcb_state (task_list (os_tasks s) ! 0) = WAITING_SEM" "tcb_semaphore (task_list (os_tasks s) ! 0) = 0"
    "tcb_prio (task_list (os_tasks s) ! 0) < 255" "tcb_state (task_list (os_tasks s) ! 1) = READY"
    "nSemaphores (os_sems s) = 1" "sem_val 0 (os_sems s) = 0" "sem_cap 0 (os_sems s) = 1" by auto
  have "in_task demo_cfg s"
    using run_invD(1) [OF reachable_run_inv [OF demo_reach [OF s] demo_limits]] v(1,2) by (simp add: in_task_def)
  moreover have "waiter 0 (os_tasks s) i \<longleftrightarrow> i = 0" for i
    using v by (cases i) (auto simp: waiter_def waiting_this_sem_def less_2_cases_iff)
  ultimately have "one_waiter demo_cfg 0 0 s"
    using v by (simp add: one_waiter_def releasable_def sem_handle_def)
  then show ?thesis using s by blast
qed

theorem signal_signal_window_witness:
  "\<exists>s s'. acts demo_cfg (demo_boot_acts @ [Call (Wait_sem 10 0), Schedule]) demo_init = Some (True, s) \<and>
     OS_SIGNAL_SEM_irq demo_cfg 30 0 (OS_SIGNAL_SEM_NO_SCHEDULE demo_cfg 0) s = Inr (Returns, s') \<and>
     tcb_state (task_list (os_tasks s') ! 0) = READY \<and> sem_val 0 (os_sems s') = 0"
  using demo_one_waiter signal_signal_window [of demo_cfg 0 0 _ 30] by blast

section \<open>Waiting for several events\<close>

text \<open>The interrupt comes after the task has been set to wait for the first event.\<close>

definition os_wait_multiple_irq :: "config \<Rightarrow> bool \<Rightarrow> int list \<Rightarrow> proc \<Rightarrow> os \<Rightarrow> os res" where
  "os_wait_multiple_irq cfg waitForAll args isr s =
     (if N_TOTAL_EVENTS cfg > 0 then
        (case args of
           [] \<Rightarrow> Inl VaArgOverrun
         | first # rest \<Rightarrow>
             bindR (verify_args (N_TOTAL_EVENTS cfg) 0 rest) (\<lambda>event.
               os_assert (event = 255) ''event == NO_EVENT''
                 (let tid = ucast (running_tid (os_kern s)) in
                  bindR (on_tasks (\<lambda>t. bindR (os_task_clear_wait_queue cfg tid t)
                    (os_task_wait_event tid (word_of_int first) (\<not> waitForAll) 0)) s) (\<lambda>s.
                  bindR (isr s) (\<lambda>s.
                    case rest of
                      [] \<Rightarrow> Inl VaArgOverrun
                    | arg # args \<Rightarrow> if arg \<noteq> 255 then on_tasks (wait_args tid waitForAll arg args) s else Inr s)))))
      else isr s)"

lemma wait_multiple_irq_none: "os_wait_multiple_irq cfg waitForAll args Inr s = os_wait_multiple cfg waitForAll args s"
proof -
  have "bindR (on_tasks (\<lambda>t. bindR (os_task_clear_wait_queue cfg tid t) (os_task_wait_event tid (word_of_int first) (\<not> waitForAll) 0)) s) (\<lambda>s.
      case rest of [] \<Rightarrow> Inl VaArgOverrun | arg # args \<Rightarrow> if arg \<noteq> 255 then on_tasks (wait_args tid waitForAll arg args) s else Inr s) =
    on_tasks (\<lambda>t. bindR (os_task_clear_wait_queue cfg tid t) (wait_args tid waitForAll first rest)) s" for tid first rest
    by (cases rest; cases "os_task_clear_wait_queue cfg tid (os_tasks s)") (auto simp: on_tasks_def bindR_assoc intro!: arg_cong2 [where f = bindR] ext)
  then show ?thesis by (simp add: os_wait_multiple_irq_def os_wait_multiple_def Let_def cong: list.case_cong)
qed

text \<open>The signal of an interrupt, seen by one task.\<close>

lemma isr_signal_at:
  assumes inv: "task_inv cfg (os_tasks s)" and "event_inv cfg (os_events s)" and e: "unat e < event_cap cfg" "unat e < N_TOTAL_EVENTS cfg"
    and "i < unat (nTasks (os_tasks s))"
  obtains t ev where "OS_INT_SIGNAL_EVENT cfg e s = Inr (s\<lparr>os_tasks := t, os_events := ev\<rparr>)" "task_kept cfg (os_tasks s) t"
    "task_list t ! i = sig_tcb e (task_list (os_tasks s) ! i)"
proof -
  obtain t where t: "os_task_signal_event cfg e (os_tasks s) = Inr t" "task_kept cfg (os_tasks s) t"
    "\<forall>i < length (task_list (os_tasks s)). task_list t ! i =
       (if i < unat (nTasks (os_tasks s)) then sig_tcb e (task_list (os_tasks s) ! i) else task_list (os_tasks s) ! i)"
    by (rule signal_event_at [OF inv e(1)])
  have "length (eventList (os_events s)) = N_TOTAL_EVENTS cfg" using assms(2) by (simp add: event_inv_def)
  then obtain ev where "OS_INT_SIGNAL_EVENT cfg e s = Inr (s\<lparr>os_tasks := t, os_events := ev\<rparr>)"
    using t(1) e(2) by (simp add: OS_INT_SIGNAL_EVENT_def os_signal_event_eq on_events_def os_event_set_signaling_tid_def)
  from that [OF this t(2)] show ?thesis using t(3) assms(5) task_inv_bounds(1) [OF inv] by simp
qed

lemma signal_ends_wait:
  assumes "tcb_state t = WAITING_EVENT" and "pending t = {unat e} \<or> tcb_waitSingleEvent t" and "unat e \<in> pending t"
  shows "tcb_state (sig_tcb e t) = READY" and "pending (sig_tcb e t) = {}"
proof -
  have "sig_tcb e t = (cleared t)\<lparr>tcb_state := READY\<rparr>" using assms by (auto simp: sig_tcb_def event_waiting_def)
  then show "tcb_state (sig_tcb e t) = READY" "pending (sig_tcb e t) = {}" by (simp_all add: pending_def cleared_def wq_elems_empty)
qed

lemma first_wait:
  assumes inv: "task_inv cfg s" and tid: "tid < nTasks s" and e: "unat e < event_cap cfg"
  obtains t where "bindR (os_task_clear_wait_queue cfg tid s) (os_task_wait_event tid e single 0) = Inr t" "task_kept cfg s t"
    "tcb_state (task_list t ! unat tid) = WAITING_EVENT" "pending (task_list t ! unat tid) = {unat e}"
proof -
  note i = task_inv_index [OF inv tid]
  let ?t1 = "s\<lparr>task_list := (task_list s)[unat tid := cleared (task_list s ! unat tid)]\<rparr>"
  have clr: "os_task_clear_wait_queue cfg tid s = Inr ?t1" by (rule clear_wait_queue_at [OF i task_inv_queue [OF inv i]])
  note kept1 = keepsD [OF keeps_clear_wait_queue inv clr]
  have n: "tid < nTasks ?t1" using tid by simp
  obtain t where t: "os_task_wait_event tid e single 0 ?t1 = Inr t" "task_kept cfg ?t1 t"
    "tcb_state (task_list t ! unat tid) = WAITING_EVENT" "pending (task_list t ! unat tid) = insert (unat e) (pending (task_list ?t1 ! unat tid))"
    by (rule wait_event_at [OF task_keptD(1) [OF kept1] n e])
  show ?thesis
    by (rule that [of t]) (use clr t i task_kept_trans [OF kept1 t(2)] in simp_all)
qed

text \<open>The wait with the interrupt in it: its first half, the signal, and its second half.\<close>

lemma signal_then_rest:
  assumes inv: "task_inv cfg (os_tasks s)" "event_inv cfg (os_events s)" and rt: "running_tid (os_kern s) < ucast (nTasks (os_tasks s))"
    and "rest \<noteq> []" and "length (e # rest) \<le> N_TOTAL_EVENTS cfg" and cap: "\<forall>x \<in> set (e # rest). unat x < event_cap cfg \<and> x \<noteq> 255"
    and "unat e < N_TOTAL_EVENTS cfg"
  obtains s' where "os_wait_multiple_irq cfg waitForAll (multiple_args (e # rest)) (OS_INT_SIGNAL_EVENT cfg e) s = Inr s'"
    "tcb_state (task_list (os_tasks s') ! unat (running_tid (os_kern s))) = WAITING_EVENT"
    "pending (task_list (os_tasks s') ! unat (running_tid (os_kern s))) = unat ` set rest"
proof -
  obtain r rs where er: "rest = r # rs" using assms(4) by (cases rest) auto
  define tid :: u8 where "tid = ucast (running_tid (os_kern s))"
  have "unat (running_tid (os_kern s)) < unat (nTasks (os_tasks s))" "unat (nTasks (os_tasks s)) < 255"
    using rt inv by (simp_all add: word_less_nat_alt task_inv_def)
  then have u: "unat tid = unat (running_tid (os_kern s))" by (simp add: tid_def unsigned_ucast_eq take_bit_nat_eq_self)
  have tid: "tid < nTasks (os_tasks s)" using rt u by (simp add: word_less_nat_alt)
  have e: "unat e < event_cap cfg" using cap by simp
  obtain t2 where t2: "bindR (os_task_clear_wait_queue cfg tid (os_tasks s)) (os_task_wait_event tid e (\<not> waitForAll) 0) = Inr t2"
    "task_kept cfg (os_tasks s) t2" "tcb_state (task_list t2 ! unat tid) = WAITING_EVENT" "pending (task_list t2 ! unat tid) = {unat e}"
    by (rule first_wait [OF inv(1) tid e])
  note kept2 = task_keptD [OF t2(2)]
  let ?s2 = "s\<lparr>os_tasks := t2\<rparr>"
  have j: "unat tid < unat (nTasks (os_tasks ?s2))" using kept2(2) tid by (simp add: word_less_nat_alt)
  have inv2: "task_inv cfg (os_tasks ?s2)" "event_inv cfg (os_events ?s2)" using kept2(1) inv(2) by simp_all
  obtain t3 ev where t3: "OS_INT_SIGNAL_EVENT cfg e ?s2 = Inr (?s2\<lparr>os_tasks := t3, os_events := ev\<rparr>)" "task_kept cfg (os_tasks ?s2) t3"
    "task_list t3 ! unat tid = sig_tcb e (task_list (os_tasks ?s2) ! unat tid)"
    by (rule isr_signal_at [OF inv2 e assms(7) j])
  have p3: "pending (task_list t3 ! unat tid) = {}" using signal_ends_wait(2) [OF t2(3)] t2(4) t3(3) by simp
  note kept3 = task_keptD [OF t3(2)]
  have "tid < nTasks t3" using kept3(2) j by (simp add: word_less_nat_alt)
  then obtain t4 where t4: "wait_args tid waitForAll (uint r) (map uint rs @ [255]) t3 = Inr t4"
    "tcb_state (task_list t4 ! unat tid) = WAITING_EVENT" "pending (task_list t4 ! unat tid) = unat ` set rest"
    using wait_args_ok [OF kept3(1), of tid r rs waitForAll] cap er p3 by auto
  have v: "verify_args (N_TOTAL_EVENTS cfg) 0 (map uint rest @ [255]) = Inr 255"
    using cap assms(5) by (intro verify_args_ok) (auto simp: word_uint_eq_iff)
  have "uint r \<noteq> 255" "0 < N_TOTAL_EVENTS cfg" using cap er assms(5) by (auto simp: word_uint_eq_iff)
  then have "os_wait_multiple_irq cfg waitForAll (multiple_args (e # rest)) (OS_INT_SIGNAL_EVENT cfg e) s =
      Inr (?s2\<lparr>os_tasks := t4, os_events := ev\<rparr>)"
    using t2(1) t3(1) t4(1) v er by (simp add: os_wait_multiple_irq_def multiple_args_def on_tasks_def Let_def tid_def [symmetric])
  from that [OF this] show ?thesis using t4 u by simp
qed

lemma wait_then_isr:
  assumes inv: "task_inv cfg (os_tasks s)" "event_inv cfg (os_events s)" and rt: "running_tid (os_kern s) < ucast (nTasks (os_tasks s))"
    and "rest \<noteq> []" and len: "length (e # rest) \<le> N_TOTAL_EVENTS cfg" and cap: "\<forall>x \<in> set (e # rest). unat x < event_cap cfg \<and> x \<noteq> 255"
    and "unat e < N_TOTAL_EVENTS cfg" and "e \<notin> set rest"
  obtains s' where "bindR (os_wait_multiple cfg waitForAll (multiple_args (e # rest)) s) (OS_INT_SIGNAL_EVENT cfg e) = Inr s'"
    "if waitForAll then tcb_state (task_list (os_tasks s') ! unat (running_tid (os_kern s))) = WAITING_EVENT \<and>
         pending (task_list (os_tasks s') ! unat (running_tid (os_kern s))) = unat ` set rest
     else tcb_state (task_list (os_tasks s') ! unat (running_tid (os_kern s))) = READY"
proof -
  let ?i = "unat (running_tid (os_kern s))"
  obtain t where t: "os_wait_multiple cfg waitForAll (multiple_args (e # rest)) s = Inr (s\<lparr>os_tasks := t\<rparr>)" "task_kept cfg (os_tasks s) t"
    "tcb_state (task_list t ! ?i) = WAITING_EVENT" "pending (task_list t ! ?i) = unat ` set (e # rest)"
    "tcb_waitSingleEvent (task_list t ! ?i) = (\<not> waitForAll)"
    by (rule wait_multiple_ok [OF inv(1) rt _ len cap]) simp
  let ?s1 = "s\<lparr>os_tasks := t\<rparr>"
  have inv1: "task_inv cfg (os_tasks ?s1)" "event_inv cfg (os_events ?s1)" using task_keptD(1) [OF t(2)] inv(2) by simp_all
  have j: "?i < unat (nTasks (os_tasks ?s1))" using rt task_keptD(2) [OF t(2)] by (simp add: word_less_nat_alt)
  have e: "unat e < event_cap cfg" using cap by simp
  obtain t' ev where t': "OS_INT_SIGNAL_EVENT cfg e ?s1 = Inr (?s1\<lparr>os_tasks := t', os_events := ev\<rparr>)"
    "task_list t' ! ?i = sig_tcb e (task_list (os_tasks ?s1) ! ?i)"
    by (rule isr_signal_at [OF inv1 e assms(7) j])
  have inj: "inj (unat :: u8 \<Rightarrow> nat)" by (rule injI) (simp add: word_unat_eq_iff)
  have n: "unat e \<notin> unat ` set rest" using assms(8) inj by (auto simp: inj_def)
  obtain r where "r \<in> set rest" using assms(4) by (cases rest) auto
  then have r: "unat r \<in> unat ` set rest" by simp
  then have "unat r \<noteq> unat e" using n by metis
  with n r have p: "unat ` set (e # rest) \<noteq> {unat e}" "unat ` set (e # rest) - {unat e} = unat ` set rest" by auto
  have wf: "queue_wf cfg (tcb_eventQueue (task_list t ! ?i))"
    using task_inv_queue [OF inv1(1)] j task_inv_bounds(1) [OF inv1(1)] by (simp add: queue_wf_def)
  have w: "event_waiting (task_list t ! ?i)" using t(3) by (simp add: event_waiting_def)
  note sig = sig_tcb_pending [OF wf e w]
  show ?thesis
    by (rule that) (use t t' sig p in \<open>auto split: if_split_asm\<close>)
qed

text \<open>C37: the window of \<open>event_wait_multiple\<close>. A task waits for event \<open>e\<close> and others, and an interrupt
  signals \<open>e\<close>. After the call it does what it should: a wait for any ends, a wait for all goes on for the others. If
  it comes in the call, after the task has been set to wait for \<open>e\<close> and before it is set to wait for the next event,
  the task waits for the others in both cases: a wait for all loses nothing, a wait for any has lost the event it was
  to wake up at.\<close>

theorem wait_several_window:
  assumes "os_inv cfg s" and "running_tid (os_kern s) < ucast (nTasks (os_tasks s))"
    and "rest \<noteq> []" and "length (e # rest) \<le> N_TOTAL_EVENTS cfg" and "\<forall>x \<in> set (e # rest). unat x < event_cap cfg \<and> x \<noteq> 255"
    and "unat e < N_TOTAL_EVENTS cfg" and "e \<notin> set rest"
  shows "(\<exists>s'. bindR (os_wait_multiple cfg waitForAll (multiple_args (e # rest)) s) (OS_INT_SIGNAL_EVENT cfg e) = Inr s' \<and>
      (if waitForAll then tcb_state (task_list (os_tasks s') ! unat (running_tid (os_kern s))) = WAITING_EVENT \<and>
         pending (task_list (os_tasks s') ! unat (running_tid (os_kern s))) = unat ` set rest
       else tcb_state (task_list (os_tasks s') ! unat (running_tid (os_kern s))) = READY)) \<and>
    (\<exists>s'. os_wait_multiple_irq cfg waitForAll (multiple_args (e # rest)) (OS_INT_SIGNAL_EVENT cfg e) s = Inr s' \<and>
      tcb_state (task_list (os_tasks s') ! unat (running_tid (os_kern s))) = WAITING_EVENT \<and>
      pending (task_list (os_tasks s') ! unat (running_tid (os_kern s))) = unat ` set rest)"
  using wait_then_isr [OF os_invD(1,3) [OF assms(1)] assms(2-7)] signal_then_rest [OF os_invD(1,3) [OF assms(1)] assms(2-6)]
  by metis

theorem wait_several_window_witness:
  "\<exists>s'. os_wait_multiple_irq demo_cfg False (multiple_args [0, 1]) (OS_INT_SIGNAL_EVENT demo_cfg 0) (set_running_tid 0 demo_boot) = Inr s' \<and>
     tcb_state (task_list (os_tasks s') ! 0) = WAITING_EVENT \<and> pending (task_list (os_tasks s') ! 0) = {1}"
proof -
  let ?s = "set_running_tid 0 demo_boot"
  have inv: "os_inv demo_cfg ?s" using demo_boot_inv(1) by simp
  have r: "running_tid (os_kern ?s) = 0" "nTasks (os_tasks ?s) = 2" using demo_boot_inv(2) by (simp_all add: set_running_tid_def)
  then have rt: "running_tid (os_kern ?s) < ucast (nTasks (os_tasks ?s))" by simp
  have "\<exists>s'. os_wait_multiple_irq demo_cfg False (multiple_args [0, 1]) (OS_INT_SIGNAL_EVENT demo_cfg 0) ?s = Inr s' \<and>
      tcb_state (task_list (os_tasks s') ! unat (running_tid (os_kern ?s))) = WAITING_EVENT \<and>
      pending (task_list (os_tasks s') ! unat (running_tid (os_kern ?s))) = unat ` set [1]"
    using wait_several_window [OF inv rt, of "[1]" 0 False] by simp
  then show ?thesis using r(1) by simp
qed

end
