(* ===== verification/Os_Life.thy ===== *)
theory Os_Life
  imports Os_Runs
begin

text \<open>
  The life of a task: which changes of its state a step of the system can make, and that a task that has
  ended stays so. The states are those of \<open>os_task.h\<close>; the transition system is that of \<open>Os_System\<close>.
\<close>

section \<open>What happens to the other tasks\<close>

definition is_waiting :: "tcb \<Rightarrow> bool" where
  "is_waiting t \<longleftrightarrow> tcb_state t \<in> {WAITING_SEM, WAITING_TIME, WAITING_EVENT, WAITING_EVENT_TIMEOUT}"

text \<open>Signals, ticks and releases make waiting tasks ready, and nothing else.\<close>

definition wake_rel :: "nat \<Rightarrow> tcb \<Rightarrow> tcb \<Rightarrow> bool" where
  "wake_rel j t t' \<longleftrightarrow> tcb_savedState t' = tcb_savedState t \<and>
     (tcb_state t' = tcb_state t \<or> is_waiting t \<and> tcb_state t' = READY)"

interpretation wake: waking wake_rel is_waiting
  by unfold_locales (auto simp: wake_rel_def is_waiting_def event_waiting_def)

lemma wake_tick_time: "leaves wake_rel (tick_time cfg c n i)"
proof (rule leavesI)
  fix s s' assume r: "tick_time cfg c n i s = Inr s'"
  let ?t = "task_list s ! unat i"
  have mod: "leaves wake_rel (mod_tcb (unat i) (tcb_time_update f))" "leaves wake_rel (mod_tcb (unat i) (\<lambda>t. t\<lparr>tcb_time := g t\<rparr>))" for f g
    by (intro wake.leaves_mod, simp add: wake_rel_def)+
  show "table_rel wake_rel s s'"
  proof (cases "tcb_state ?t \<in> {WAITING_TIME, WAITING_EVENT_TIMEOUT} \<and> tcb_clockId ?t = c \<and> tcb_time ?t \<le> n")
    case True
    then obtain s1 s2 where s1: "mod_tcb (unat i) (tcb_time_update (\<lambda>_. 0)) s = Inr s1"
      and s2: "os_task_clear_wait_queue cfg i s1 = Inr s2 \<or> s2 = s1" and s': "task_ready_set i s2 = Inr s'"
      using r by (auto simp: tick_time_def Let_def bindR_eq_Inr tcb_get_def aget_eq_Inr split: if_split_asm)
    have "table_rel wake_rel s s2"
      using leavesD [OF mod(1) s1] s2 wake.table_trans leavesD [OF wake.leaves_clear] by blast
    moreover have "is_waiting ?t" using True by (auto simp: is_waiting_def)
    moreover have "mod_tcb (unat i) (tcb_state_update (\<lambda>_. READY)) s2 = Inr s'"
      using s' by (simp add: task_ready_set_def os_assert_eq_Inr)
    ultimately show ?thesis by (rule wake.ready_after)
  next
    case False
    then have "mod_tcb (unat i) (\<lambda>t. t\<lparr>tcb_time := tcb_time t - n\<rparr>) s = Inr s' \<or>
        mod_tcb (unat i) (\<lambda>t. t\<lparr>tcb_time := tcb_time t + 1\<rparr>) s = Inr s' \<or> s' = s"
      using r by (auto simp: tick_time_def Let_def bindR_eq_Inr tcb_get_def aget_eq_Inr split: if_split_asm)
    then show ?thesis
      by (elim disjE) (erule leavesD [OF mod(2)], erule leavesD [OF mod(2)], simp add: wake.table_refl)
  qed
qed

interpretation wake_quiet: tick_relation "\<lambda>me. wake_rel"
  by (intro tick_relation.intro tick_relation_axioms.intro waking_quiet [OF wake.waking_axioms] wake_tick_time)

lemma quiet_irq_wake: "quiet (\<lambda>me. wake_rel) False (irq_call cfg i)"
  by (cases i) (simp_all only: irq_call.simps [abs_def] wake_quiet.quiet_ticks wake_quiet.quiet_int_signal wake_quiet.quiet_isr_sem)

section \<open>What the running task does to itself\<close>

text \<open>It waits or stays as it is; it neither suspends nor ends itself here.\<close>

definition me_rel :: "nat \<Rightarrow> nat \<Rightarrow> tcb \<Rightarrow> tcb \<Rightarrow> bool" where
  "me_rel me j t t' \<longleftrightarrow> wake_rel j t t' \<or>
     j = me \<and> tcb_savedState t' = tcb_savedState t \<and> (tcb_state t' = tcb_state t \<or> tcb_state t' = READY \<or> is_waiting t')"

lemma me_rel_wake: "wake_rel j t t' \<Longrightarrow> me_rel me j t t'"
  by (simp add: me_rel_def)

lemma leaves_me: "leaves wake_rel f \<Longrightarrow> leaves (me_rel me) f"
  by (intro leavesI) (auto dest!: leavesD intro: table_rel_mono me_rel_wake)

interpretation me: table_preorder "me_rel m" for m
  by unfold_locales (auto simp: me_rel_def wake_rel_def is_waiting_def)

lemma me_quiet: "quiet_relation me_rel"
  by unfold_locales (intro me.table_preorder_axioms leaves_me wake.leaves_notes wake.leaves_signal wake.leaves_release)+

lemma me_sets:
  "leaves (me_rel (unat tid)) (task_waiting_time_set tid)" "leaves (me_rel (unat tid)) (task_waiting_event_set tid)"
  "leaves (me_rel (unat tid)) (task_waiting_event_timeout_set tid)" "leaves (me_rel (unat tid)) (task_wait_sem_set tid sem)"
  unfolding task_waiting_time_set_def [abs_def] task_waiting_event_set_def [abs_def] task_waiting_event_timeout_set_def [abs_def]
    task_wait_sem_set_def [abs_def]
  by (intro me.leaves_rules, simp add: me_rel_def wake_rel_def is_waiting_def)+

lemma me_wait_time: "leaves (me_rel (unat tid)) (os_task_wait_time_set tid c time)"
  unfolding os_task_wait_time_set_def [abs_def] by (intro me.leaves_rules me_sets) (simp add: me_rel_def wake_rel_def)

lemma me_wait_event: "leaves (me_rel (unat tid)) (os_task_wait_event tid e single timeout)"
  unfolding os_task_wait_event_def [abs_def]
  by (intro me.leaves_rules me_sets me_wait_time) (simp add: me_rel_def wake_rel_def)

interpretation me_call: call_relation me_rel
  by (rule call_relation.intro [OF me_quiet], unfold_locales)
    (intro me_wait_time me_wait_event leaves_me [OF wake.leaves_clear] me.leaves_wait_args | simp add: me_rel_def wake_rel_def)+

text \<open>All calls but those that suspend, resume or end a task.\<close>

definition plain_call :: "kcall \<Rightarrow> bool" where
  "plain_call c \<longleftrightarrow> (\<forall>n i. c \<noteq> Close \<and> c \<noteq> Suspend n i \<and> c \<noteq> Resume n i)"

lemma plain_calls_wait: "plain_call c \<Longrightarrow> gives_up (call_line c) me_rel False (\<lambda>r. r) (task_call cfg c)"
  by (cases c) (simp_all only: task_call.simps [abs_def] call_line.simps me_call.gives_up_yield
      me_call.gives_up_wait_single me_call.gives_up_plain gives_up_drop_msg me_call.gives_up_msg
      me_call.gives_up_signal_sem me_call.gives_up_wait_sem [OF me_sets(4)], simp_all add: plain_call_def)

section \<open>Calls that go on\<close>

text \<open>A call after which the running task goes on has made nothing but waiting tasks ready.\<close>

definition returns :: "('a \<Rightarrow> ctl \<times> os) \<Rightarrow> (os \<Rightarrow> 'a res) \<Rightarrow> bool" where
  "returns pr f \<longleftrightarrow> (\<forall>s r. f s = Inr r \<longrightarrow> fst (pr r) = Returns)"

definition stays :: "('a \<Rightarrow> ctl \<times> os) \<Rightarrow> (os \<Rightarrow> 'a res) \<Rightarrow> bool" where
  "stays pr f \<longleftrightarrow> (\<forall>s r. f s = Inr r \<longrightarrow> fst (pr r) = Goes_on \<longrightarrow> undisturbed wake_rel False s (snd (pr r)))"

lemma returns_yield: "returns (\<lambda>r. r) (OS_YIELD n)" "returns (\<lambda>r. r) OS_END"
  by (auto simp: returns_def OS_YIELD_def OS_END_def bindR_eq_Inr)

lemma returns_seq: "returns pr g \<Longrightarrow> returns pr (\<lambda>s. bindR (f s) g)"
  by (auto simp: returns_def bindR_eq_Inr)

lemma returns_with_msg: "returns (\<lambda>r. r) f \<Longrightarrow> returns msg_res (\<lambda>s. bindR (f s) (\<lambda>r. case r of (c, s) \<Rightarrow> Inr (c, msg, s)))"
  by (fastforce simp: returns_def bindR_eq_Inr)

lemma staysI: "(\<And>s r. f s = Inr r \<Longrightarrow> fst (pr r) = Goes_on \<Longrightarrow> undisturbed wake_rel False s (snd (pr r))) \<Longrightarrow> stays pr f"
  unfolding stays_def by blast

lemma staysD: "stays pr f \<Longrightarrow> f s = Inr r \<Longrightarrow> fst (pr r) = Goes_on \<Longrightarrow> undisturbed wake_rel False s (snd (pr r))"
  unfolding stays_def by blast

lemma stays_returns: "returns pr f \<Longrightarrow> stays pr f"
  by (auto simp: returns_def stays_def)

lemma stays_seq: "quiet (\<lambda>me. wake_rel) False f \<Longrightarrow> stays pr g \<Longrightarrow> stays pr (\<lambda>s. bindR (f s) g)"
  by (rule staysI) (auto simp: bindR_eq_Inr intro: wake_quiet.undisturbed_trans dest!: quietD staysD)

lemma stays_get: "(\<And>x. stays pr (f x)) \<Longrightarrow> stays pr (\<lambda>s. bindR (g s) (\<lambda>x. f x s))"
  by (rule staysI) (auto simp: bindR_eq_Inr dest: staysD)

lemma stays_if: "stays pr f \<Longrightarrow> stays pr g \<Longrightarrow> stays pr (\<lambda>s. if c s then f s else g s)"
  by (rule staysI) (auto split: if_split_asm dest: staysD)

lemma stays_go: "stays (\<lambda>r. r) (\<lambda>s. Inr (Goes_on, s))" "stays msg_res (\<lambda>s. Inr (Goes_on, msg, s))"
  by (auto simp: stays_def)

lemma stays_msgq_op:
  assumes "\<And>a a'. stays pr (f a a')"
  shows "stays pr (\<lambda>s. bindR (g s) (\<lambda>r. case r of (a, a', m) \<Rightarrow> f a a' (s\<lparr>os_msgqs := m\<rparr>)))"
  by (rule staysI) (auto simp: bindR_eq_Inr intro: wake_quiet.undisturbed_trans [OF wake_quiet.undisturbed_other(2)] dest: staysD [OF assms])

lemma stays_after_prologue:
  assumes "\<And>e. stays pr (f e)"
  shows "stays pr (\<lambda>s. bindR (queue_prologue cfg t s) (\<lambda>r. case r of (e, s) \<Rightarrow> f e s))"
proof (rule staysI)
  fix s r assume "bindR (queue_prologue cfg t s) (\<lambda>r. case r of (e, s) \<Rightarrow> f e s) = Inr r" and g: "fst (pr r) = Goes_on"
  then obtain e s1 where r: "queue_prologue cfg t s = Inr (e, s1)" "f e s1 = Inr r" by (auto simp: bindR_eq_Inr)
  have "undisturbed wake_rel False s s1" by (rule wake_quiet.prologue_undisturbed [OF r(1)])
  then show "undisturbed wake_rel False s (snd (pr r))"
    using wake_quiet.undisturbed_trans staysD [OF assms r(2) g] by blast
qed

lemma stays_rounds:
  "stays msg_res (post_round cfg n t msg d p async e)"
  "stays msg_res (receive_round cfg n t msg async None e)"
  unfolding post_round_def [abs_def] after_post_def [abs_def] receive_round_def [abs_def] after_receive_def [abs_def] option.case
    OS_WAIT_SINGLE_EVENT_def [abs_def]
  by (intro stays_get stays_msgq_op stays_if stays_seq wake_quiet.quiet_ops wake_quiet.quiet_on_tasks wake.leaves_notes
      stays_returns [OF returns_with_msg] returns_seq returns_yield stays_go)+

lemmas stays_rules = stays_after_prologue stays_seq stays_get stays_if stays_rounds wake_quiet.quiet_ops
  wake_quiet.quiet_on_tasks wake.leaves_release stays_go

lemma stays_msg:
  "stays msg_res (OS_MSG_Q_POST cfg n t msg d p async)" "stays msg_res (OS_MSG_Q_POST_resume cfg n t msg d p async)"
  "stays msg_res (OS_MSG_Q_RECEIVE cfg n t msg async None)" "stays msg_res (OS_MSG_Q_RECEIVE_resume cfg n t msg async None)"
  unfolding OS_MSG_Q_POST_def [abs_def] OS_MSG_Q_POST_resume_def [abs_def] OS_MSG_Q_RECEIVE_def [abs_def]
    OS_MSG_Q_RECEIVE_resume_def [abs_def]
  by (intro stays_rules)+

lemma stays_sem: "stays (\<lambda>r. r) (OS_WAIT_SEM cfg n sem)" "stays (\<lambda>r. r) (OS_SIGNAL_SEM cfg n sem)"
proof -
  have wait: "stays (\<lambda>r. r) (\<lambda>s. bindR (on_tasks (task_wait_sem_set (self_tid s) sem) s) (OS_YIELD n))"
    by (intro stays_returns returns_seq returns_yield)
  show "stays (\<lambda>r. r) (OS_WAIT_SEM cfg n sem)" unfolding OS_WAIT_SEM_def [abs_def] by (intro wait stays_rules)
  show "stays (\<lambda>r. r) (OS_SIGNAL_SEM cfg n sem)"
    unfolding OS_SIGNAL_SEM_def [abs_def] by (intro stays_rules stays_returns [OF returns_yield(1)])
qed

lemma stays_drop_msg: "stays msg_res f \<Longrightarrow> stays (\<lambda>r. r) (\<lambda>s. drop_msg (f s))"
  by (rule staysI) (auto simp: drop_msg_def bindR_eq_Inr dest: staysD)

lemma stays_others:
  "stays (\<lambda>r. r) (OS_WAIT_TICKS n ticks i)" "stays (\<lambda>r. r) (OS_WAIT_SINGLE_EVENT cfg n e timeout None)"
  "stays (\<lambda>r. r) (OS_WAIT_MULTIPLE_EVENTS cfg n waitAll args)" "stays (\<lambda>r. r) (OS_SIGNAL_EVENT cfg n e)"
  unfolding OS_WAIT_TICKS_def [abs_def] OS_WAIT_SINGLE_EVENT_def [abs_def] OS_WAIT_MULTIPLE_EVENTS_def [abs_def]
    OS_SIGNAL_EVENT_def [abs_def]
  by (intro stays_returns returns_seq returns_yield)+

lemma plain_calls_stay: "plain_call c \<Longrightarrow> stays (\<lambda>r. r) (task_call cfg c)"
  by (cases c) (simp_all only: task_call.simps [abs_def] stays_others stays_sem stays_returns [OF returns_yield(1)]
      stays_drop_msg stays_msg, simp_all add: plain_call_def)

section \<open>The life cycle\<close>

text \<open>
  What an action does to the state of task \<open>j\<close> when \<open>me\<close> is running. Only a call can make the running
  task wait; ending, killing, suspending and resuming change one task and exactly so.
\<close>

fun moves :: "action \<Rightarrow> nat \<Rightarrow> nat \<Rightarrow> tcb \<Rightarrow> tcb \<Rightarrow> bool" where
  "moves (Call Close) me j t t' \<longleftrightarrow> tcb_savedState t' = tcb_savedState t \<and>
     tcb_state t' = (if j = me then KILLED else tcb_state t)"
| "moves (Call (Suspend line i)) me j t t' \<longleftrightarrow>
     (if j = unat i \<and> tcb_state t \<noteq> KILLED \<and> tcb_state t \<noteq> SUSPENDED
      then tcb_state t' = SUSPENDED \<and> tcb_savedState t' = (if tcb_state t = WAITING_SEM then READY else tcb_state t)
      else tcb_state t' = tcb_state t \<and> tcb_savedState t' = tcb_savedState t)"
| "moves (Call (Resume line i)) me j t t' \<longleftrightarrow> tcb_savedState t' = tcb_savedState t \<and>
     tcb_state t' = (if j = unat i \<and> tcb_state t = SUSPENDED then tcb_savedState t else tcb_state t)"
| "moves (Call c) me j t t' \<longleftrightarrow> tcb_savedState t' = tcb_savedState t \<and>
     (tcb_state t' = tcb_state t \<or> is_waiting t \<and> tcb_state t' = READY \<or> j = me \<and> is_waiting t')"
| "moves (Kill i) me j t t' \<longleftrightarrow> tcb_savedState t' = tcb_savedState t \<and>
     tcb_state t' = (if j = unat i then KILLED else tcb_state t)"
| "moves (Irq i) me j t t' \<longleftrightarrow> tcb_savedState t' = tcb_savedState t \<and>
     (tcb_state t' = tcb_state t \<or> is_waiting t \<and> tcb_state t' = READY)"
| "moves _ me j t t' \<longleftrightarrow> tcb_state t' = tcb_state t \<and> tcb_savedState t' = tcb_savedState t"

lemma moves_plain:
  "plain_call c \<Longrightarrow> moves (Call c) me j t t' \<longleftrightarrow> tcb_savedState t' = tcb_savedState t \<and>
     (tcb_state t' = tcb_state t \<or> is_waiting t \<and> tcb_state t' = READY \<or> j = me \<and> is_waiting t')"
  by (cases c) (simp_all add: plain_call_def)

text \<open>Suspending and resuming, with the giving up of the processor behind it.\<close>

lemma suspend_moves:
  assumes "OS_SUSPEND_TASK n i s = Inr r" and "j < length (task_list (os_tasks s))"
  shows "moves (Call (Suspend n i)) me j (task_list (os_tasks s) ! j) (task_list (os_tasks (snd r)) ! j)"
  using assms
  by (auto simp: OS_SUSPEND_TASK_def OS_YIELD_def on_tasks_eq_Inr bindR_eq_Inr os_task_internal_state_set_def mod_tcb_eq_Inr
      os_free_tid_def set_running_tid_def os_task_suspend_def task_suspended_set_def os_assert_eq_Inr tcb_get_def aget_eq_Inr
      Let_def nth_list_update split: if_split_asm)

lemma resume_moves:
  assumes "OS_RESUME_TASK n i s = Inr r" and "j < length (task_list (os_tasks s))"
  shows "moves (Call (Resume n i)) me j (task_list (os_tasks s) ! j) (task_list (os_tasks (snd r)) ! j)"
  using assms
  by (auto simp: OS_RESUME_TASK_def OS_YIELD_def on_tasks_eq_Inr bindR_eq_Inr os_task_internal_state_set_def mod_tcb_eq_Inr
      os_free_tid_def set_running_tid_def os_task_resume_def os_assert_eq_Inr tcb_get_def aget_eq_Inr
      nth_list_update split: if_split_asm)

lemma end_moves:
  assumes "OS_END s = Inr r" and "j < length (task_list (os_tasks s))"
  shows "moves (Call Close) (unat (self_tid s)) j (task_list (os_tasks s) ! j) (task_list (os_tasks (snd r)) ! j)"
  using assms
  by (auto simp: OS_END_def on_tasks_eq_Inr bindR_eq_Inr os_task_kill_def os_assert_eq_Inr mod_tcb_eq_Inr os_free_tid_def
      set_running_tid_def nth_list_update)

lemma kill_moves:
  assumes "on_tasks (os_task_kill i) s = Inr s'" and "j < length (task_list (os_tasks s))"
  shows "moves (Kill i) me j (task_list (os_tasks s) ! j) (task_list (os_tasks s') ! j)"
  by (rule kill_result [OF assms(1)]) (use assms(2) in \<open>simp add: nth_list_update\<close>)

text \<open>What holds of every task, and of the one whose procedure is executed.\<close>

definition tcb_life :: "tcb \<Rightarrow> bool" where
  "tcb_life t \<longleftrightarrow> tcb_state t \<noteq> RUNNING \<and>
     (tcb_state t = SUSPENDED \<longrightarrow> tcb_savedState t \<in> {READY, WAITING_TIME, WAITING_EVENT, WAITING_EVENT_TIMEOUT})"

definition life_inv :: "bool \<times> os \<Rightarrow> bool" where
  "life_inv x \<longleftrightarrow> (\<forall>j < unat (nTasks (os_tasks (snd x))). tcb_life (task_list (os_tasks (snd x)) ! j)) \<and>
     (fst x \<longrightarrow> tcb_state (task_list (os_tasks (snd x)) ! unat (self_tid (snd x))) = READY)"

lemma tcb_life_same: "tcb_state t' = tcb_state t \<Longrightarrow> tcb_savedState t' = tcb_savedState t \<Longrightarrow> tcb_life t \<Longrightarrow> tcb_life t'"
  by (simp add: tcb_life_def)

lemma moves_life: "moves a me j t t' \<Longrightarrow> tcb_life t \<Longrightarrow> tcb_life t'"
proof (cases a)
  case (Call c)
  assume m: "moves a me j t t'" and t: "tcb_life t"
  show ?thesis
  proof (cases "plain_call c")
    case True
    then show ?thesis using m t by (auto simp: Call moves_plain tcb_life_def is_waiting_def)
  next
    case False
    then show ?thesis
      using m t unfolding Call plain_call_def
      by (cases "tcb_state t") (auto simp: tcb_life_def split: if_split_asm)
  qed
qed (auto simp: tcb_life_def is_waiting_def)

lemma self_running:
  assumes "run_inv cfg (b, s)" and "b"
  shows "ucast (self_tid s) = os_get_running_tid s" "unat (self_tid s) < unat (nTasks (os_tasks s))"
proof -
  note r = run_invD [OF assms(1)]
  have "unat (running_tid (os_kern s)) < unat (nTasks (os_tasks s))"
    using r(2,3) assms(2) by (simp add: running_ok_def os_get_running_tid_def)
  then have u: "unat (running_tid (os_kern s)) < 256 \<and> unat (running_tid (os_kern s)) < unat (nTasks (os_tasks s))"
    using task_inv_bounds(2) [OF os_invD(1) [OF r(1)]] by simp
  then show "unat (self_tid s) < unat (nTasks (os_tasks s))"
    by (simp add: self_tid_def os_get_running_tid_def unsigned_ucast_eq take_bit_nat_eq_self)
  have "unat (ucast (self_tid s) :: u16) = unat (os_get_running_tid s)"
    using u by (simp add: self_tid_def os_get_running_tid_def unsigned_ucast_eq unsigned_take_bit_eq take_bit_nat_eq_self)
  then show "ucast (self_tid s) = os_get_running_tid s" by (simp only: word_unat_eq_iff)
qed

lemma call_moves:
  assumes "task_call cfg c s = Inr r" and "j < length (task_list (os_tasks s))" and "tcb_state (task_list (os_tasks s) ! unat (self_tid s)) = READY"
  shows "moves (Call c) (unat (self_tid s)) j (task_list (os_tasks s) ! j) (task_list (os_tasks (snd r)) ! j)"
proof (cases "plain_call c")
  case True
  have "me_rel (unat (self_tid s)) j (task_list (os_tasks s) ! j) (task_list (os_tasks (snd r)) ! j)"
    using gives_upD [OF plain_calls_wait [OF True] assms(1)] assms(2) by (simp add: ended_def table_rel_def)
  then show ?thesis using assms(3) by (auto simp: moves_plain [OF True] me_rel_def wake_rel_def)
next
  case False
  then show ?thesis
    using assms(1,2) by (auto simp: plain_call_def simp del: moves.simps intro: suspend_moves resume_moves end_moves)
qed

text \<open>A call after which the task goes on leaves it ready.\<close>

lemma call_goes_on:
  assumes "task_call cfg c s = Inr (Goes_on, s')" and "run_inv cfg (True, s)" and "tcb_state (task_list (os_tasks s) ! unat (self_tid s)) = READY"
  shows "tcb_state (task_list (os_tasks s') ! unat (self_tid s')) = READY"
proof -
  let ?me = "unat (self_tid s)"
  have len: "?me < length (task_list (os_tasks s))"
    using self_running(2) [OF assms(2)] task_inv_bounds(1) [OF os_invD(1) [OF run_invD(1) [OF assms(2)]]] by simp
  have self: "self_tid s' = self_tid s"
    using task_call_kern [OF assms(1)] by (simp add: self_tid_def os_get_running_tid_def kern_after_def)
  have "tcb_state (task_list (os_tasks s') ! ?me) = READY"
  proof (cases "plain_call c")
    case True
    have "wake_rel ?me (task_list (os_tasks s) ! ?me) (task_list (os_tasks s') ! ?me)"
      using staysD [OF plain_calls_stay [OF True] assms(1)] len by (simp add: undisturbed_def table_rel_def)
    then show ?thesis using assms(3) by (auto simp: wake_rel_def)
  next
    case False
    then consider n i where "c = Suspend n i" | n i where "c = Resume n i" | "c = Close" by (auto simp: plain_call_def)
    then show ?thesis
    proof cases
      case (1 n i)
      have "os_get_running_tid s \<noteq> ucast i"
        using assms(1) by (auto simp: 1 OS_SUSPEND_TASK_def OS_YIELD_def on_tasks_eq_Inr bindR_eq_Inr os_get_running_tid_def split: if_split_asm)
      then have "unat i \<noteq> ?me" using self_running(1) [OF assms(2)] by (auto simp: word_unat_eq_iff [symmetric])
      then show ?thesis using call_moves [OF assms(1) len assms(3)] assms(3) by (simp add: 1)
    next
      case (2 n i)
      then show ?thesis using call_moves [OF assms(1) len assms(3)] assms(3) by simp
    next
      case 3
      then show ?thesis using assms(1) by (auto simp: OS_END_def bindR_eq_Inr)
    qed
  qed
  then show ?thesis by (simp add: self)
qed

text \<open>The steps of the system.\<close>

lemma create_moves:
  assumes inv: "os_inv cfg s" and "creation_ok cfg c s" and r: "create_call cfg c s = Inr s'"
  shows "(\<forall>j < unat (nTasks (os_tasks s)). j < unat (nTasks (os_tasks s')) \<and> task_list (os_tasks s') ! j = task_list (os_tasks s) ! j) \<and>
    (\<forall>j. unat (nTasks (os_tasks s)) \<le> j \<and> j < unat (nTasks (os_tasks s')) \<longrightarrow> tcb_life (task_list (os_tasks s') ! j))"
proof (cases c)
  case (Create_task f d p pool n m)
  then obtain tid where t: "os_task_create cfg f d p pool n m s = Inr (tid, s')" using r by (auto simp: bindR_eq_Inr)
  have pl: "n = 0 \<or> pool_ok cfg pool n m s" using assms(2) Create_task by simp
  obtain queue where q: "os_tasks s' = add_task (new_tcb f d p queue (os_tasks s)) (os_tasks s)"
    "unat (nTasks (os_tasks s')) = Suc (unat (nTasks (os_tasks s)))"
    by (rule created_task [OF inv pl t])
  have "unat (nTasks (os_tasks s)) < length (task_list (os_tasks s))" by (rule created_room [OF inv t])
  then show ?thesis using q(2) by (auto simp: q(1) add_task_def less_Suc_eq tcb_life_def)
qed (use r in \<open>auto simp: on_sems_eq_Inr on_events_eq_Inr\<close>)

lemma schedule_moves:
  assumes "os_inv cfg s" and "ROUND_ROBIN cfg \<longrightarrow> 0 < nTasks (os_tasks s)" and "os_schedule cfg (\<lambda>f s. Inr s) s = Inr s'"
  shows "task_list (os_tasks s') = task_list (os_tasks s) \<and> nTasks (os_tasks s') = nTasks (os_tasks s) \<and>
    (os_get_running_tid s' \<noteq> NO_TID \<longrightarrow> tcb_state (task_list (os_tasks s) ! unat (self_tid s')) = READY)"
proof -
  have "ROUND_ROBIN cfg \<longrightarrow> 0 < unat (nTasks (os_tasks s))" using assms(2) by (simp add: word_less_nat_alt)
  then show ?thesis
    by (rule os_schedule_ok [OF assms(1), where procs = "\<lambda>f s. Inr s"])
      (use assms(3) in \<open>auto simp: set_running_tid_def os_get_running_tid_def self_tid_def\<close>)
qed

lemma step_moves:
  assumes "step cfg a x y" and "run_inv cfg x" and "life_inv x" and "j < unat (nTasks (os_tasks (snd x)))"
  shows "j < unat (nTasks (os_tasks (snd y))) \<and>
    moves a (unat (self_tid (snd x))) j (task_list (os_tasks (snd x)) ! j) (task_list (os_tasks (snd y)) ! j)"
  using assms(1)
proof cases
  case (creates s c s')
  then have "os_inv cfg s" using assms(2) by (simp add: run_inv_def sys_inv_def)
  from create_moves [OF this creates(5,6)] show ?thesis using creates assms(4) by simp
next
  case (start s)
  then show ?thesis using assms(4) by simp
next
  case (schedule s s')
  then have "os_inv cfg s" using assms(2) by (simp add: run_inv_def sys_inv_def)
  from schedule_moves [OF this schedule(5,6)] show ?thesis using schedule assms(4) by simp
next
  case (call c s ctl s')
  then have inv: "os_inv cfg s" using assms(2) by (simp add: run_inv_def sys_inv_def)
  have "nTasks (os_tasks s') = nTasks (os_tasks s)"
    using okeepsD [OF okeeps_task_call inv call(4)] by (simp add: os_kept_def)
  moreover have "j < length (task_list (os_tasks s))"
    using assms(4) call task_inv_bounds(1) [OF os_invD(1) [OF inv]] by simp
  ultimately show ?thesis using call_moves [OF call(4), of j] call assms(3,4) by (simp add: life_inv_def)
next
  case (kill i s s')
  then have inv: "os_inv cfg s" using assms(2) by (simp add: run_inv_def sys_inv_def)
  have "j < length (task_list (os_tasks s))"
    using assms(4) kill task_inv_bounds(1) [OF os_invD(1) [OF inv]] by simp
  from kill_moves [OF kill(4) this] kill_kept [OF inv kill(4)] show ?thesis using kill assms(4) by simp
next
  case (return s)
  then show ?thesis using assms(4) by simp
next
  case (irq i s s' b)
  then have inv: "os_inv cfg s" using assms(2) by (simp add: run_inv_def sys_inv_def)
  have "nTasks (os_tasks s') = nTasks (os_tasks s)"
    using okeepsD [OF okeeps_irq inv irq(4)] by (simp add: os_kept_def)
  moreover have "j < length (task_list (os_tasks s))"
    using assms(4) irq task_inv_bounds(1) [OF os_invD(1) [OF inv]] by simp
  moreover have "table_rel wake_rel (os_tasks s) (os_tasks s')"
    using quietD [OF quiet_irq_wake irq(4)] by (simp add: undisturbed_def)
  ultimately show ?thesis using irq assms(4) by (auto simp: table_rel_def wake_rel_def)
qed

text \<open>The executing task stays ready.\<close>

lemma step_executing:
  assumes "step cfg a x y" and "run_inv cfg x" and "life_inv x" and "fst y"
  shows "tcb_state (task_list (os_tasks (snd y)) ! unat (self_tid (snd y))) = READY"
  using assms(1)
proof cases
  case (schedule s s')
  then have "os_inv cfg s" using assms(2) by (simp add: run_inv_def sys_inv_def)
  from schedule_moves [OF this schedule(5,6)] show ?thesis using schedule assms(4) by simp
next
  case (call c s ctl s')
  then show ?thesis using assms(2-4) call_goes_on [of cfg c s s'] by (simp add: life_inv_def)
next
  case (kill i s s')
  then have b: "run_inv cfg (True, s)" "tcb_state (task_list (os_tasks s) ! unat (self_tid s)) = READY" "unat (self_tid s) \<noteq> unat i"
    using assms(2-4) by (auto simp: life_inv_def word_unat_eq_iff)
  have "self_tid s' = self_tid s"
    using kill_kept [OF run_invD(1) [OF b(1)] kill(4)] by (simp add: self_tid_def os_get_running_tid_def)
  moreover have "tcb_state (task_list (os_tasks s') ! unat (self_tid s)) = READY"
    using step_moves [OF assms(1-3), of "unat (self_tid s)"] self_running(2) [OF b(1)] b(2,3) kill by (auto split: if_split_asm)
  ultimately show ?thesis using kill by simp
next
  case (irq i s s' b)
  then have b: "run_inv cfg (True, s)" "tcb_state (task_list (os_tasks s) ! unat (self_tid s)) = READY"
    using assms(2-4) by (simp_all add: life_inv_def)
  have "self_tid s' = self_tid s"
    using irq_same_kern [OF irq(4)] by (simp add: self_tid_def os_get_running_tid_def)
  moreover have "tcb_state (task_list (os_tasks s') ! unat (self_tid s)) = READY"
    using step_moves [OF assms(1-3), of "unat (self_tid s)"] self_running(2) [OF b(1)] b(2) irq by auto
  ultimately show ?thesis using irq by simp
qed (use assms(4) in simp_all)

lemma step_life_inv:
  assumes "step cfg a x y" and "run_inv cfg x" and "life_inv x"
  shows "life_inv y"
proof -
  have "tcb_life (task_list (os_tasks (snd y)) ! j)" if j: "j < unat (nTasks (os_tasks (snd y)))" for j
  proof (cases "j < unat (nTasks (os_tasks (snd x)))")
    case True
    then show ?thesis using moves_life step_moves [OF assms True] assms(3) by (auto simp: life_inv_def simp del: moves.simps)
  next
    case False
    show ?thesis using assms(1)
    proof cases
      case (creates s c s')
      then have "os_inv cfg s" using assms(2) by (simp add: run_inv_def sys_inv_def)
      from create_moves [OF this creates(5,6)] show ?thesis using creates False j by simp
    next
      case (schedule s s')
      then have "os_inv cfg s" using assms(2) by (simp add: run_inv_def sys_inv_def)
      from schedule_moves [OF this schedule(5,6)] show ?thesis using schedule False j by simp
    next
      case (call c s ctl s')
      then have "os_inv cfg s" using assms(2) by (simp add: run_inv_def sys_inv_def)
      from okeepsD [OF okeeps_task_call this call(4)] show ?thesis using call False j by (simp add: os_kept_def)
    next
      case (kill i s s')
      then have "os_inv cfg s" using assms(2) by (simp add: run_inv_def sys_inv_def)
      from kill_kept [OF this kill(4)] show ?thesis using kill False j by simp
    next
      case (irq i s s' b)
      then have "os_inv cfg s" using assms(2) by (simp add: run_inv_def sys_inv_def)
      from okeepsD [OF okeeps_irq this irq(4)] show ?thesis using irq False j by (simp add: os_kept_def)
    qed (use False j in simp_all)
  qed
  then show ?thesis using step_executing [OF assms] by (simp add: life_inv_def)
qed

lemma reachable_life_inv:
  assumes "reachable cfg x" and "limits_ok cfg"
  shows "life_inv x"
  using assms(1)
proof induction
  case (init s)
  have "nTasks (os_tasks (os_init cfg s)) = 0"
    by (rule os_init_ok [THEN conjunct2, THEN conjunct1]) (use init assms(2) in \<open>simp_all add: storage_ok_def limits_ok_def\<close>)
  then show ?case by (simp add: life_inv_def)
next
  case (step x a y)
  then show ?case using step_life_inv reachable_run_inv assms(2) by blast
qed

section \<open>Properties\<close>

text \<open>C5: in every reachable state an action changes the states of the tasks only as their life cycle
  allows: interrupts and ticks only make waiting tasks ready; a call of the running task makes that task
  wait at most, and waiting tasks ready, unless it ends it, suspends a task that is neither suspended nor
  killed, or puts a suspended one back into its saved state; \<open>os_task_kill\<close> kills the task it names;
  everything else changes no state.\<close>

theorem life_cycle:
  assumes "reachable cfg (b, s)" and "limits_ok cfg" and "step cfg a (b, s) (b', s')" and "j < unat (nTasks (os_tasks s))"
  shows "j < unat (nTasks (os_tasks s')) \<and>
    moves a (unat (self_tid s)) j (task_list (os_tasks s) ! j) (task_list (os_tasks s') ! j)"
  using step_moves [OF assms(3) reachable_run_inv [OF assms(1,2)] reachable_life_inv [OF assms(1,2)]] assms(4) by simp

theorem life_cycle_witness:
  "\<exists>s b' s'. acts demo_cfg demo_boot_acts demo_init = Some (True, s) \<and> act demo_cfg (Call (Suspend 12 1)) (True, s) = Some (b', s') \<and>
    tcb_state (task_list (os_tasks s') ! 1) = SUSPENDED \<and> tcb_savedState (task_list (os_tasks s') ! 1) = READY"
proof -
  have "case acts demo_cfg demo_boot_acts demo_init of Some (b, s) \<Rightarrow> b \<and> nTasks (os_tasks s) = 2 \<and>
      tcb_state (task_list (os_tasks s) ! 1) = READY \<and> act demo_cfg (Call (Suspend 12 1)) (True, s) \<noteq> None | None \<Rightarrow> False"
    by code_simp
  then obtain s b' s' where s: "acts demo_cfg demo_boot_acts demo_init = Some (True, s)" "nTasks (os_tasks s) = 2"
    "tcb_state (task_list (os_tasks s) ! 1) = READY" "act demo_cfg (Call (Suspend 12 1)) (True, s) = Some (b', s')"
    by (auto simp del: act.simps split: option.splits)
  have "1 < unat (nTasks (os_tasks s))" using s(2) by simp
  from life_cycle [OF demo_reach [OF s(1)] demo_limits s(4) [folded step_act] this] s show ?thesis by auto
qed







end
