(* ===== verification/Os_Countdown.thy ===== *)
theory Os_Countdown
  imports Os_Life
begin

text \<open>
  Time in the runs of the system: what a run leaves of a task that takes no part in it and is neither suspended nor killed,
  and how a condition on the task that a clock counts down goes on through the run. Both as contracts, with
  one instance for the tasks that sleep and one for the waits with a timeout.
\<close>

section \<open>Tasks that take no part\<close>

text \<open>The tasks in \<open>X\<close> may change in any way; the others only by being woken, if \<open>W\<close> says so, or resumed.\<close>

locale bystander =
  fixes R :: "nat set \<Rightarrow> nat \<Rightarrow> tcb \<Rightarrow> tcb \<Rightarrow> bool" and W :: "tcb \<Rightarrow> bool"
  assumes waking: "waking (R X) W"
    and inside: "j \<in> X \<Longrightarrow> R X j t t'"
    and resumed: "tcb_state t = SUSPENDED \<Longrightarrow> R X j t (t\<lparr>tcb_state := tcb_savedState t\<rparr>)"
begin

lemma preorder: "table_preorder (R X)"
  by (rule waking.axioms(1) [OF waking])

lemma quiet_others: "quiet_relation (\<lambda>me. R X)"
  by (rule waking_quiet [OF waking])

lemma leaves_sets:
  assumes "unat tid \<in> X"
  shows "leaves (R X) (os_task_wait_time_set tid c time)" "leaves (R X) (os_task_wait_event tid e single timeout)"
    "leaves (R X) (task_wait_sem_set tid sem)" "leaves (R X) (os_task_kill tid)" "leaves (R X) (os_task_suspend tid)"
    "leaves (R X) (tick_time cfg c n tid)"
  unfolding os_task_wait_time_set_def [abs_def] os_task_wait_event_def [abs_def] task_wait_sem_set_def [abs_def]
    os_task_kill_def [abs_def] os_task_suspend_def [abs_def] task_suspended_set_def [abs_def] task_waiting_time_set_def [abs_def]
    task_waiting_event_set_def [abs_def] task_waiting_event_timeout_set_def [abs_def] tick_time_def [abs_def]
    os_task_clear_wait_queue_def [abs_def] task_ready_set_def [abs_def] Let_def
  by (intro table_preorder.leaves_rules [OF preorder] leaves_if_const inside assms)+

lemma leaves_resume: "leaves (R X) (os_task_resume i)"
proof (rule leavesI)
  fix s s' assume "os_task_resume i s = Inr s'"
  then have "s' = s \<or> unat i < length (task_list s) \<and> tcb_state (task_list s ! unat i) = SUSPENDED \<and>
      s' = s\<lparr>task_list := (task_list s)[unat i := (task_list s ! unat i)\<lparr>tcb_state := tcb_savedState (task_list s ! unat i)\<rparr>]\<rparr>"
    by (auto simp: os_task_resume_def res_simps split: if_split_asm)
  then show "table_rel (R X) s s'"
    by (auto simp: table_rel_def nth_list_update table_preorder.refl [OF preorder] resumed)
qed

lemma call_others: "call_relation (\<lambda>me. R (insert me X))"
  by (intro call_relation.intro waking_quiet [OF waking] call_relation_axioms.intro)
    (intro leaves_sets waking.leaves_clear [OF waking] table_preorder.leaves_wait_args [OF preorder] insertI1 inside)+

lemmas call_rules = call_relation.gives_up_yield [OF call_others] call_relation.gives_up_end [OF call_others leaves_sets(4) [OF insertI1]]
  call_relation.gives_up_wait_single [OF call_others] call_relation.gives_up_plain [OF call_others]
  call_relation.gives_up_resume [OF call_others leaves_resume] call_relation.gives_up_msg [OF call_others]
  call_relation.gives_up_signal_sem [OF call_others] call_relation.gives_up_wait_sem [OF call_others leaves_sets(3) [OF insertI1]]

lemma task_call_others: "gives_up (call_line c) (\<lambda>me. R (insert me (call_resets c))) False (\<lambda>r. r) (task_call cfg c)"
proof (cases c)
  case (Suspend n i)
  then show ?thesis
    by (simp only: task_call.simps [abs_def] call_line.simps call_resets.simps)
      (rule call_relation.gives_up_suspend [OF call_others], simp add: leaves_sets)
qed (simp_all only: task_call.simps [abs_def] call_line.simps gives_up_drop_msg call_rules)

lemma isr_others: "quiet (\<lambda>me. R X) False (OS_INT_SIGNAL_EVENT cfg e)" "quiet (\<lambda>me. R X) False (OS_SIGNAL_SEM_NO_SCHEDULE cfg sem)"
  by (intro quiet_relation.quiet_int_signal [OF quiet_others] quiet_relation.quiet_isr_sem [OF quiet_others])+

text \<open>The tick of another task, with its queue.\<close>

lemma tick_task_others: "unat i \<in> X \<Longrightarrow> quiet (\<lambda>me. R X) False (tick_task cfg c n i)"
  by (intro quiet_relation.quiet_tick_task [OF quiet_others] leaves_sets)

end

section \<open>The time that passes in a run\<close>

text \<open>The time that an action makes pass on clock \<open>c\<close>.\<close>

fun time_on :: "u8 \<Rightarrow> action \<Rightarrow> nat" where
  "time_on c (Irq Tick) = (if c = 0 then 1 else 0)"
| "time_on c (Irq (Sub_tick i)) = (if i = c \<and> c \<noteq> 0 then 1 else 0)"
| "time_on c (Irq (Sub_ticks i n)) = (if i = c \<and> c \<noteq> 0 then unat n else 0)"
| "time_on c _ = 0"

definition elapsed :: "u8 \<Rightarrow> action list \<Rightarrow> nat" where
  "elapsed c as = sum_list (map (time_on c) as)"

text \<open>\<open>P r\<close> says that \<open>r\<close> is left; a tick of one task takes its size from that, and nothing else does.\<close>

locale countdown = bystander +
  fixes P :: "nat \<Rightarrow> tcb \<Rightarrow> bool" and c :: u8
  assumes stays: "R X j t t' \<Longrightarrow> j \<notin> X \<Longrightarrow> P r t \<Longrightarrow> P r t'"
    and ticked: "P r t \<Longrightarrow> P (r - (if c' = c then unat n else 0)) (tick_tcb c' n t)"
begin

lemma quiet_stays:
  assumes "quiet (\<lambda>me. R X) False f" and "f s = Inr s'" and "j < length (task_list (os_tasks s))" and "j \<notin> X"
    and "P r (task_list (os_tasks s) ! j)"
  shows "P r (task_list (os_tasks s') ! j)"
  using stays [OF _ assms(4,5)] quietD [OF assms(1,2)] assms(3) by (simp add: undisturbed_def table_rel_def)

lemma quiet_length: "quiet (\<lambda>me. R X) False f \<Longrightarrow> f s = Inr s' \<Longrightarrow> length (task_list (os_tasks s')) = length (task_list (os_tasks s))"
  by (drule (1) quietD) (simp add: undisturbed_def table_rel_def)

lemma tick_of_task:
  assumes inv: "os_inv cfg s" and j: "unat i < unat (nTasks (os_tasks s))" and t: "P r (task_list (os_tasks s) ! unat i)"
    and s': "tick_task cfg c' n i s = Inr s'"
  shows "P (r - (if c' = c then unat n else 0)) (task_list (os_tasks s') ! unat i)"
proof -
  note ti = os_invD(1) [OF inv]
  have l: "unat i < length (task_list (os_tasks s))" "i < nTasks (os_tasks s)"
    using j task_inv_bounds(1) [OF ti] by (simp_all add: word_less_nat_alt)
  let ?s1 = "s\<lparr>os_tasks := (os_tasks s)\<lparr>task_list := (task_list (os_tasks s))[unat i := tick_tcb c' n (task_list (os_tasks s) ! unat i)]\<rparr>\<rparr>"
  have "on_tasks (tick_time cfg c' n i) s = Inr ?s1"
    using tick_time_at [OF l task_inv_queue [OF ti l(1)]] by (simp add: on_tasks_def)
  then have s1: "s' = ?s1 \<or> (\<exists>q. os_msgQ_tick cfg q ?s1 = Inr s')"
    using s' by (auto simp: tick_task_def bindR_eq_Inr split: if_split_asm)
  have p: "P (r - (if c' = c then unat n else 0)) (task_list (os_tasks ?s1) ! unat i)" using ticked [OF t, of c' n] l(1) by simp
  have len: "unat i < length (task_list (os_tasks ?s1))" using l(1) by simp
  show ?thesis
    using s1
  proof (elim disjE exE)
    show ?thesis if "s' = ?s1" using p unfolding that .
    show ?thesis if "os_msgQ_tick cfg q ?s1 = Inr s'" for q
      by (rule quiet_stays [OF quiet_relation.quiet_msgQ_tick [OF quiet_others [of "{}"]] that len _ p]) simp
  qed
qed

lemma ticks_keep:
  assumes "foldR (\<lambda>k. tick_task cfg c' n (of_nat k)) ks s = Inr s'" and "os_inv cfg s" and "\<forall>k \<in> set ks. k < unat (nTasks (os_tasks s))"
  shows "os_inv cfg s' \<and> nTasks (os_tasks s') = nTasks (os_tasks s)"
proof (rule foldR_inv [OF _ _ assms(1)])
  fix k x x' assume k: "k \<in> set ks" and I: "os_inv cfg x \<and> nTasks (os_tasks x) = nTasks (os_tasks s)" and r: "tick_task cfg c' n (of_nat k) x = Inr x'"
  then have "k < unat (nTasks (os_tasks x))" using assms(3) by simp
  from tick_task_ok [OF I [THEN conjunct1] this, of c' n] show "os_inv cfg x' \<and> nTasks (os_tasks x') = nTasks (os_tasks s)"
    using r I by (metis Inr_inject task_keptD(2))
qed (use assms(2) in simp)

lemma ticks_of_others:
  assumes "foldR (\<lambda>k. tick_task cfg c' n (of_nat k)) ks s = Inr s'" and "\<forall>k \<in> set ks. k < 255 \<and> k \<noteq> j"
    and "j < length (task_list (os_tasks s))" and "P r (task_list (os_tasks s) ! j)"
  shows "P r (task_list (os_tasks s') ! j)"
proof -
  have "quiet (\<lambda>me. R (- {j})) False (tick_task cfg c' n (of_nat k))" if "k \<in> set ks" for k
    using that assms(2) by (intro tick_task_others) (auto simp: unat_of_nat_u8)
  then have q: "quiet (\<lambda>me. R (- {j})) False (foldR (\<lambda>k. tick_task cfg c' n (of_nat k)) ks)"
    by (rule quiet_relation.quiet_foldR [OF quiet_others])
  show ?thesis by (rule quiet_stays [OF q assms(1,3) _ assms(4)]) simp
qed

lemma task_tick_counts:
  assumes inv: "os_inv cfg s" and j: "j < unat (nTasks (os_tasks s))" and t: "P r (task_list (os_tasks s) ! j)"
    and s': "task_tick cfg c' n s = Inr s'"
  shows "P (r - (if c' = c then unat n else 0)) (task_list (os_tasks s') ! j)"
proof -
  let ?f = "\<lambda>k. tick_task cfg c' n (of_nat k)" and ?n = "unat (nTasks (os_tasks s))"
  have n: "?n < 255" "j < 255" using task_inv_bounds(2) [OF os_invD(1) [OF inv]] j by simp_all
  have u: "unat (of_nat j :: u8) = j" using n by (simp add: unat_of_nat_u8)
  have len: "j < length (task_list (os_tasks x))" if "os_inv cfg x" "nTasks (os_tasks x) = nTasks (os_tasks s)" for x
    using task_inv_bounds(1) [OF os_invD(1) [OF that(1)]] that(2) j by simp
  have "[0..<?n] = [0..<j] @ [j..<?n]" using upt_add_eq_append [of 0 j "?n - j"] j by simp
  then have "[0..<?n] = [0..<j] @ j # [Suc j..<?n]" using j by (simp only: upt_conv_Cons)
  then obtain s1 s2 where s1: "foldR ?f [0..<j] s = Inr s1" "?f j s1 = Inr s2" "foldR ?f [Suc j..<?n] s2 = Inr s'"
    using s' by (auto simp: task_tick_def for_ne_fold foldR_append bindR_eq_Inr)
  have k1: "os_inv cfg s1 \<and> nTasks (os_tasks s1) = nTasks (os_tasks s)" by (rule ticks_keep [OF s1(1) inv]) (use j in simp)
  have k2: "os_inv cfg s2 \<and> nTasks (os_tasks s2) = nTasks (os_tasks s1)"
    by (rule ticks_keep [of cfg c' n "[j]" s1 s2]) (use s1(2) k1 j in simp_all)
  have "P r (task_list (os_tasks s1) ! j)" by (rule ticks_of_others [OF s1(1) _ len [OF inv refl] t]) (use n in simp)
  then have p2: "P (r - (if c' = c then unat n else 0)) (task_list (os_tasks s2) ! j)"
    using tick_of_task [of cfg s1 "of_nat j", unfolded u] k1 j s1(2) by simp
  show ?thesis by (rule ticks_of_others [OF s1(3) _ _ p2]) (use n k1 k2 len in simp_all)
qed

lemma irq_counts:
  assumes inv: "os_inv cfg s" and j: "j < unat (nTasks (os_tasks s))" and t: "P r (task_list (os_tasks s) ! j)"
    and s': "irq_call cfg i s = Inr s'"
  shows "P (r - time_on c (Irq i)) (task_list (os_tasks s') ! j)"
proof -
  note tick = task_tick_counts [OF assms(1-3)]
  have len: "j < length (task_list (os_tasks s))" using j task_inv_bounds(1) [OF os_invD(1) [OF inv]] by simp
  have quiet: "P r (task_list (os_tasks s') ! j)" if "quiet (\<lambda>me. R {}) False (irq_call cfg i)"
    by (rule quiet_stays [OF that s' len _ t]) simp
  show ?thesis
  proof (cases i)
    case Tick
    then show ?thesis using tick [of 0 1] s' by (auto simp: os_tick_def)
  next
    case (Sub_tick k)
    then show ?thesis using tick [of k 1] s' t by (auto simp: os_sub_tick_def split: if_split_asm)
  next
    case (Sub_ticks k n)
    then show ?thesis using tick [of k n] s' t by (auto simp: os_sub_nTick_def split: if_split_asm)
  next
    case (Isr_event e)
    show ?thesis using quiet isr_others(1) [of "{}"] unfolding Isr_event irq_call.simps [abs_def] by simp
  next
    case (Isr_sem sem)
    show ?thesis using quiet isr_others(2) [of "{}"] unfolding Isr_sem irq_call.simps [abs_def] by simp
  qed
qed

lemma step_counts:
  assumes "step cfg a x y" and "spares j a x" and "run_inv cfg x" and j: "j < unat (nTasks (os_tasks (snd x)))"
    and t: "P r (task_list (os_tasks (snd x)) ! j)"
  shows "j < unat (nTasks (os_tasks (snd y))) \<and> P (r - time_on c a) (task_list (os_tasks (snd y)) ! j)"
  using assms(1)
proof cases
  case (creates s k s')
  then show ?thesis using create_same_tcb [of cfg s k s' j] run_invD(1) [of cfg False s] assms(3) j t by simp
next
  case (start s)
  then show ?thesis using j t by simp
next
  case (schedule s s')
  then have inv: "os_inv cfg s" using assms(3) run_invD(1) by blast
  obtain tid u where "s' = set_running_tid tid (s\<lparr>os_tasks := u\<rparr>)" "task_list u = task_list (os_tasks s)" "nTasks u = nTasks (os_tasks s)"
    by (rule schedule_result [OF inv schedule(5,6)])
  then show ?thesis using schedule j t by (simp add: set_running_tid_def)
next
  case (call k s ctl s')
  then have inv: "os_inv cfg s" using assms(3) run_invD(1) by blast
  have len: "j < length (task_list (os_tasks s))" using j call task_inv_bounds(1) [OF os_invD(1) [OF inv]] by simp
  have "table_rel (R (insert (unat (self_tid s)) (call_resets k))) (os_tasks s) (os_tasks s')"
    using gives_upD [OF task_call_others call(4)] by (simp add: ended_def)
  then have "R (insert (unat (self_tid s)) (call_resets k)) j (task_list (os_tasks s) ! j) (task_list (os_tasks s') ! j)"
    using len by (simp add: table_rel_def)
  moreover have "j \<notin> insert (unat (self_tid s)) (call_resets k)" using assms(2) call(1,2) by (simp add: spares_def)
  moreover have "P r (task_list (os_tasks s) ! j)" using t call(2) by simp
  ultimately have "P r (task_list (os_tasks s') ! j)" by (rule stays)
  moreover have "nTasks (os_tasks s') = nTasks (os_tasks s)"
    using okeepsD [OF okeeps_task_call inv call(4)] by (simp add: os_kept_def)
  ultimately show ?thesis using call j by simp
next
  case (kill i s s')
  then have inv: "os_inv cfg s" using assms(3) run_invD(1) by blast
  have "unat i \<noteq> j" using assms(2) kill(1) by (simp add: spares_def)
  then have "task_list (os_tasks s') ! j = task_list (os_tasks s) ! j" by (rule kill_others [OF kill(4)])
  then show ?thesis using kill_kept [OF inv kill(4)] kill j t by simp
next
  case (return s)
  then show ?thesis using j t by simp
next
  case (irq i s s' b)
  then have inv: "os_inv cfg s" using assms(3) run_invD(1) by blast
  have "nTasks (os_tasks s') = nTasks (os_tasks s)"
    using okeepsD [OF okeeps_irq inv irq(4)] by (simp add: os_kept_def)
  then show ?thesis using irq_counts [OF inv _ _ irq(4), of j r] irq j t by simp
qed

lemma run_counts:
  assumes "acts_sparing cfg j as x = Some y" and "run_inv cfg x" and "limits_ok cfg"
    and "j < unat (nTasks (os_tasks (snd x)))" and "P r (task_list (os_tasks (snd x)) ! j)"
  shows "P (r - elapsed c as) (task_list (os_tasks (snd y)) ! j)"
  using assms(1,2,4,5)
proof (induction "as" arbitrary: x r)
  case (Cons a as)
  then obtain x1 where x1: "spares j a x" "act cfg a x = Some x1" "acts_sparing cfg j as x1 = Some y"
    by (auto split: option.splits if_split_asm)
  note st = x1(2) [folded step_act]
  have "r - (time_on c a + elapsed c as) = r - time_on c a - elapsed c as" by simp
  then show ?case
    using Cons.IH [OF x1(3) step_run_inv [OF st Cons.prems(2) assms(3)], of "r - time_on c a"] step_counts [OF st x1(1) Cons.prems(2-4)]
    by (simp add: elapsed_def)
qed (simp add: elapsed_def)

end

end
