(* ===== verification/Os_Delay.thy ===== *)
theory Os_Delay
  imports Os_Countdown
begin

text \<open>
  Waiting for ticks in the whole system: the task sleeps until exactly the time it asked for has passed on
  its clock, whatever the other tasks, the other clocks and the interrupts do in between. A sleeping task
  is not woken by signals or releases; a ready task stays ready.
\<close>

section \<open>Tasks that sleep or are ready\<close>

text \<open>Task sleeps on clock \<open>c\<close> for \<open>r\<close> more ticks, or is ready when no tick is left.\<close>

definition sleeps :: "u8 \<Rightarrow> nat \<Rightarrow> tcb \<Rightarrow> bool" where
  "sleeps c r t \<longleftrightarrow> (if r = 0 then tcb_state t = READY
     else tcb_state t = WAITING_TIME \<and> tcb_clockId t = c \<and> unat (tcb_time t) = r)"

definition calm :: "tcb \<Rightarrow> bool" where
  "calm t \<longleftrightarrow> tcb_state t = WAITING_TIME \<or> tcb_state t = READY"

lemma sleeps_calm: "sleeps c r t \<Longrightarrow> calm t"
  by (auto simp: sleeps_def calm_def split: if_split_asm)

text \<open>Tasks outside \<open>X\<close> that sleep or are ready are left alone by everything but a clock.\<close>

definition sleep_rel :: "nat set \<Rightarrow> nat \<Rightarrow> tcb \<Rightarrow> tcb \<Rightarrow> bool" where
  "sleep_rel X j t t' \<longleftrightarrow> (j \<notin> X \<longrightarrow> calm t \<longrightarrow>
     tcb_state t' = tcb_state t \<and> tcb_time t' = tcb_time t \<and> tcb_clockId t' = tcb_clockId t)"

lemma sleep_rel_sleeps: "sleep_rel X j t t' \<Longrightarrow> j \<notin> X \<Longrightarrow> sleeps c r t \<Longrightarrow> sleeps c r t'"
  using sleeps_calm [of c r t] by (auto simp: sleep_rel_def sleeps_def split: if_split_asm)

interpretation sleep: waking "sleep_rel X" "\<lambda>t. \<not> calm t" for X
  by unfold_locales (auto simp: sleep_rel_def calm_def event_waiting_def)

lemma sleeps_tick: "sleeps c r t \<Longrightarrow> sleeps c (r - (if c' = c then unat n else 0)) (tick_tcb c' n t)"
  by (auto simp: sleeps_def tick_tcb_def word_le_nat_alt unat_sub split: if_split_asm)

interpretation asleep: countdown sleep_rel "\<lambda>t. \<not> calm t" "sleeps c" c for c
proof (rule countdown.intro)
  show "bystander sleep_rel (\<lambda>t. \<not> calm t)"
    by (rule bystander.intro [OF sleep.waking_axioms]) (simp_all add: sleep_rel_def calm_def)
  show "countdown_axioms sleep_rel (sleeps c) c"
    by (rule countdown_axioms.intro) (rule sleep_rel_sleeps, assumption+, rule sleeps_tick)
qed

section \<open>Waiting for ticks\<close>

lemma wait_ticks_sleeps:
  assumes "run_inv cfg (True, s)" and "task_call cfg (Wait_ticks line T c) s = Inr r"
  shows "sleeps c (unat T) (task_list (os_tasks (snd r)) ! unat (self_tid s))" and "0 < unat T"
proof -
  let ?i = "unat (self_tid s)"
  from assms(2) obtain t where t: "os_task_wait_time_set (self_tid s) c T (os_tasks s) = Inr t"
    "OS_YIELD line (s\<lparr>os_tasks := t\<rparr>) = Inr r" by (auto simp: OS_WAIT_TICKS_def res_simps)
  have T: "0 < unat T" using t(1) by (simp add: os_task_wait_time_set_def os_assert_eq_Inr word_less_nat_alt)
  have "tcb_state (task_list t ! ?i) = WAITING_TIME \<and> tcb_clockId (task_list t ! ?i) = c \<and> tcb_time (task_list t ! ?i) = T"
    using t(1) by (auto simp: os_task_wait_time_set_def task_waiting_time_set_def res_simps)
  then show "sleeps c (unat T) (task_list (os_tasks (snd r)) ! ?i)" "0 < unat T"
    using t(2) T by (auto simp: sleeps_def OS_YIELD_def os_task_internal_state_set_def self_tid_def os_get_running_tid_def
        os_free_tid_def set_running_tid_def res_simps)
qed

text \<open>C25: a task that calls \<open>OS_WAIT_TICKS\<close> for \<open>T\<close> ticks of the master clock (0) or of a sub clock sleeps for
  exactly that time: in every run after the call in which nobody suspends or kills it, whatever other tasks are
  scheduled and call, and whatever interrupts, signals and ticks of other clocks occur, it waits, with the rest of
  the time left, and is not executed, as long as less than \<open>T\<close> has passed on its clock, and it is
  ready from then on.\<close>

theorem wait_ticks_in_runs:
  assumes "reachable cfg (True, s)" and "limits_ok cfg"
    and "step cfg (Call (Wait_ticks line T c)) (True, s) y"
    and "acts_sparing cfg (unat (self_tid s)) as y = Some (b, s')"
  shows "let t = task_list (os_tasks s') ! unat (self_tid s) in
    if elapsed c as < unat T
    then tcb_state t = WAITING_TIME \<and> unat (tcb_time t) = unat T - elapsed c as \<and> (b \<longrightarrow> self_tid s' \<noteq> self_tid s)
    else tcb_state t = READY"
proof -
  let ?i = "unat (self_tid s)"
  have inv: "run_inv cfg (True, s)" "run_inv cfg y" "reachable cfg y"
    using reachable_run_inv [OF assms(1,2)] step_run_inv [OF assms(3)] assms(1-3) reachable.step by blast+
  from assms(3) obtain r where r: "task_call cfg (Wait_ticks line T c) s = Inr r" "y = (fst r = Goes_on, snd r)"
    by cases auto
  note w = wait_ticks_sleeps [OF inv(1) r(1)]
  have "nTasks (os_tasks (snd r)) = nTasks (os_tasks s)"
    using okeepsD [OF okeeps_task_call run_invD(1) [OF inv(1)] r(1)] by (simp add: os_kept_def)
  then have "?i < unat (nTasks (os_tasks (snd y)))" using self_running(2) [OF inv(1)] r(2) by simp
  from asleep.run_counts [OF assms(4) inv(2) assms(2) this] w(1) r(2)
  have s: "sleeps c (unat T - elapsed c as) (task_list (os_tasks s') ! ?i)" by simp
  have "tcb_state (task_list (os_tasks s') ! unat (self_tid s')) = READY" if b
    using reachable_life_inv [OF reachable_acts [OF inv(3) sparing_acts [OF assms(4)]] assms(2)] that by (simp add: life_inv_def)
  then show ?thesis using s w(2) by (auto simp: Let_def sleeps_def split: if_split_asm)
qed

text \<open>The first task waits for 3 ticks; the other one is scheduled, signals and is interrupted in between.\<close>

theorem wait_ticks_in_runs_witness:
  "\<exists>s y b s'. acts demo_cfg demo_boot_acts demo_init = Some (True, s) \<and> act demo_cfg (Call (Wait_ticks 10 3 0)) (True, s) = Some y \<and>
    acts_sparing demo_cfg (unat (self_tid s)) [Irq Tick, Schedule, Irq (Sub_tick 2), Call (Yield 20), Irq (Isr_sem 0), Irq Tick, Irq Tick] y = Some (b, s') \<and>
    tcb_state (task_list (os_tasks s') ! unat (self_tid s)) = READY"
proof -
  let ?as = "[Irq Tick, Schedule, Irq (Sub_tick 2), Call (Yield 20), Irq (Isr_sem 0), Irq Tick, Irq Tick]"
  have "case acts demo_cfg demo_boot_acts demo_init of Some (b, s) \<Rightarrow> b \<and>
      (case act demo_cfg (Call (Wait_ticks 10 3 0)) (b, s) of Some (b1, s1) \<Rightarrow>
        (case acts_sparing demo_cfg (unat (self_tid s)) ?as (b1, s1) of Some (b2, s2) \<Rightarrow> True | None \<Rightarrow> False) | None \<Rightarrow> False) | None \<Rightarrow> False"
    by code_simp
  from some_case [OF this] obtain s where s: "acts demo_cfg demo_boot_acts demo_init = Some (True, s)"
    "case act demo_cfg (Call (Wait_ticks 10 3 0)) (True, s) of Some (b1, s1) \<Rightarrow>
        (case acts_sparing demo_cfg (unat (self_tid s)) ?as (b1, s1) of Some (b2, s2) \<Rightarrow> True | None \<Rightarrow> False) | None \<Rightarrow> False" by auto
  from some_case [OF s(2)] obtain b1 s1 where s1: "act demo_cfg (Call (Wait_ticks 10 3 0)) (True, s) = Some (b1, s1)"
    "case acts_sparing demo_cfg (unat (self_tid s)) ?as (b1, s1) of Some (b2, s2) \<Rightarrow> True | None \<Rightarrow> False" by blast
  from some_case [OF s1(2)] obtain b2 s2 where s2: "acts_sparing demo_cfg (unat (self_tid s)) ?as (b1, s1) = Some (b2, s2)" by blast
  have "\<not> elapsed 0 ?as < unat (3 :: u32)" by (simp add: elapsed_def)
  then have "tcb_state (task_list (os_tasks s2) ! unat (self_tid s)) = READY"
    using wait_ticks_in_runs [OF demo_reach [OF s(1)] demo_limits s1(1) [folded step_act] s2] by (simp only: Let_def if_False)
  then show ?thesis using s(1) s1(1) s2 by blast
qed

end
