(* ===== verification/Os_Fair.thy ===== *)
theory Os_Fair
  imports Os_Delay
begin

text \<open>
  Scheduling in the runs of the whole system: the decision of a policy is the task that is executed, with
  priorities the best of the ready tasks, and round robin serves every task that stays ready.
\<close>

section \<open>A scheduling decision\<close>

lemma schedule_step:
  assumes "step cfg Schedule (b, s) (b', s')" and "run_inv cfg (b, s)"
  obtains tid t where "os_select_task cfg (os_tasks s) = Inr (tid, t)" "os_tasks s' = t"
    "b' \<longleftrightarrow> tid \<noteq> NO_TID" "b' \<longrightarrow> self_tid s' = tid" "nTasks t = nTasks (os_tasks s)" "task_list t = task_list (os_tasks s)"
    "os_running s' = os_running s"
proof -
  have inv: "os_inv cfg s" by (rule run_invD(1) [OF assms(2)])
  from assms(1) have r: "os_schedule cfg (\<lambda>f s. Inr s) s = Inr s'" "b' \<longleftrightarrow> os_get_running_tid s' \<noteq> NO_TID"
    and n: "ROUND_ROBIN cfg \<longrightarrow> 0 < unat (nTasks (os_tasks s))" by (auto elim!: step.cases simp: word_less_nat_alt)
  show ?thesis
  proof (rule os_schedule_ok [OF inv n, of "\<lambda>f s. Inr s"], goal_cases)
    case (1 tid t)
    have tid: "tid \<noteq> NO_TID" "(ucast tid :: u16) \<noteq> NO_TID" "ucast (ucast tid :: u16) = tid" if "tid < nTasks (os_tasks s)"
    proof -
      have u: "unat tid < 255" using that task_inv_bounds(2) [OF os_invD(1) [OF inv]] by (simp add: word_less_nat_alt)
      then show "tid \<noteq> NO_TID" by auto
      then show "(ucast tid :: u16) \<noteq> NO_TID" using ucast_u8_255 [of tid] by auto
      show "ucast (ucast tid :: u16) = tid" by simp
    qed
    show ?thesis
      by (rule that [OF 1(1)]) (use 1(3-5) r tid in \<open>auto simp: set_running_tid_def os_running_def os_get_running_tid_def self_tid_def\<close>)
  qed
qed

section \<open>Priorities\<close>

text \<open>C14: with priority scheduling a scheduling decision has a task executed exactly when a task of a
  priority below 255 is ready; it is then the ready task whose priority number is strictly smaller than
  that of every other ready task, and no task is changed.\<close>

theorem schedule_executes_best:
  assumes "reachable cfg (b, s)" and "limits_ok cfg" and "\<not> ROUND_ROBIN cfg" and "step cfg Schedule (b, s) (b', s')"
  shows "os_tasks s' = os_tasks s \<and> (b' \<longleftrightarrow> (\<exists>j. hp_eligible (os_tasks s) j)) \<and>
    (b' \<longrightarrow> hp_eligible (os_tasks s) (unat (self_tid s')) \<and> (\<forall>j. hp_eligible (os_tasks s) j \<longrightarrow> j \<noteq> unat (self_tid s') \<longrightarrow>
      tcb_prio (task_list (os_tasks s) ! unat (self_tid s')) < tcb_prio (task_list (os_tasks s) ! j)))"
proof -
  have inv: "run_inv cfg (b, s)" by (rule reachable_run_inv [OF assms(1,2)])
  note ti = os_invD(1) [OF run_invD(1) [OF inv]]
  obtain tid t where t: "os_select_task cfg (os_tasks s) = Inr (tid, t)" "os_tasks s' = t" "b' \<longleftrightarrow> tid \<noteq> NO_TID" "b' \<longrightarrow> self_tid s' = tid"
    by (rule schedule_step [OF assms(4) inv])
  show ?thesis
  proof (cases "\<exists>j. hp_eligible (os_tasks s) j")
    case True
    then obtain i where i: "os_select_task cfg (os_tasks s) = Inr (of_nat i, os_tasks s)" "hp_eligible (os_tasks s) i"
      "\<forall>j. hp_eligible (os_tasks s) j \<longrightarrow> j \<noteq> i \<longrightarrow> tcb_prio (task_list (os_tasks s) ! i) < tcb_prio (task_list (os_tasks s) ! j)"
      using prio_schedule_optimal [OF ti assms(3)] by blast
    have "i < 255" using i(2) task_inv_bounds(2) [OF ti] by (simp add: hp_eligible_def)
    then have u: "unat (of_nat i :: u8) = i" by (simp add: unat_of_nat_u8)
    then have "(of_nat i :: u8) \<noteq> NO_TID" using \<open>i < 255\<close> by auto
    then show ?thesis using t i u True by auto
  next
    case False
    then have "highest_prio_ready_task (os_tasks s) = Inr NO_TID" using highest_prio_none [OF ti] by blast
    then show ?thesis using t assms(3) False by (auto simp: os_select_task_def)
  qed
qed

text \<open>The first task sleeps for a tick; then it is executed again although the second one is ready.\<close>

theorem schedule_executes_best_witness:
  "\<exists>b s b' s'. acts demo_cfg (demo_boot_acts @ [Call (Wait_ticks 10 1 0), Schedule, Call (Yield 20), Irq Tick]) demo_init = Some (b, s) \<and>
    act demo_cfg Schedule (b, s) = Some (b', s') \<and> b' \<and> self_tid s' = 0 \<and>
    tcb_prio (task_list (os_tasks s) ! 0) < tcb_prio (task_list (os_tasks s) ! 1)"
proof -
  let ?as = "demo_boot_acts @ [Call (Wait_ticks 10 1 0), Schedule, Call (Yield 20), Irq Tick]"
  have "case acts demo_cfg ?as demo_init of Some (b, s) \<Rightarrow> nTasks (os_tasks s) = 2 \<and> tcb_state (task_list (os_tasks s) ! 1) = READY \<and>
      tcb_prio (task_list (os_tasks s) ! 1) < 255 \<and>
      (case act demo_cfg Schedule (b, s) of Some (b', s') \<Rightarrow> b' \<and> self_tid s' = 0 | None \<Rightarrow> False) | None \<Rightarrow> False" by code_simp
  from some_case [OF this] obtain b s where s: "acts demo_cfg ?as demo_init = Some (b, s)" "nTasks (os_tasks s) = 2"
    "tcb_state (task_list (os_tasks s) ! 1) = READY" "tcb_prio (task_list (os_tasks s) ! 1) < 255"
    "case act demo_cfg Schedule (b, s) of Some (b', s') \<Rightarrow> b' \<and> self_tid s' = 0 | None \<Rightarrow> False" by blast
  from some_case [OF s(5)] obtain s' where s': "act demo_cfg Schedule (b, s) = Some (True, s')" "self_tid s' = 0" by auto
  have "hp_eligible (os_tasks s) 1" using s(2-4) by (simp add: hp_eligible_def)
  moreover have "\<not> ROUND_ROBIN demo_cfg" by (simp add: demo_cfg_def)
  ultimately have "tcb_prio (task_list (os_tasks s) ! 0) < tcb_prio (task_list (os_tasks s) ! 1)"
    using schedule_executes_best [OF demo_reach [OF s(1)] demo_limits _ s'(1) [folded step_act]] s'(2) by simp
  then show ?thesis using s(1) s' by blast
qed

section \<open>Round robin\<close>

text \<open>The other actions keep what the choice depends on, once the kernel has been started.\<close>

lemma other_step_kept:
  assumes "step cfg a (b, s) (b', s')" and "run_inv cfg (b, s)" and "os_running s \<noteq> 0" and "a \<noteq> Schedule"
  shows "nTasks (os_tasks s') = nTasks (os_tasks s) \<and> last_running_task (os_tasks s') = last_running_task (os_tasks s) \<and> os_running s' = os_running s"
  using assms(1)
proof cases
  case (call c ctl)
  then show ?thesis
    using okeepsD [OF okeeps_task_call run_invD(1) [OF assms(2)] call(4)] by (simp add: os_kept_def os_running_def)
next
  case (kill i)
  then show ?thesis
    using kill_kept [OF run_invD(1) [OF assms(2)] kill(4)] by (simp add: os_kept_def os_running_def)
next
  case (irq i)
  then show ?thesis
    using okeepsD [OF okeeps_irq run_invD(1) [OF assms(2)] irq(3)] by (simp add: os_kept_def os_running_def)
qed (use assms(3,4) in simp_all)

text \<open>A decision executes task \<open>i\<close>, or fewer tasks come before it from then on.\<close>

lemma rr_schedule_step:
  assumes "step cfg Schedule (b, s) (b', s')" and "run_inv cfg (b, s)" and "ROUND_ROBIN cfg" and el: "rr_eligible (os_tasks s) i"
  shows "b' \<and> unat (self_tid s') = i \<or> rr_dist (os_tasks s') i < rr_dist (os_tasks s) i"
proof -
  note ti = os_invD(1) [OF run_invD(1) [OF assms(2)]]
  obtain tid t where t: "os_select_task cfg (os_tasks s) = Inr (tid, t)" "os_tasks s' = t" "b' \<longleftrightarrow> tid \<noteq> NO_TID"
    "b' \<longrightarrow> self_tid s' = tid" "nTasks t = nTasks (os_tasks s)" by (rule schedule_step [OF assms(1,2)])
  then have "next_ready_task (os_tasks s) = Inr (tid, t)" using assms(3) by (simp add: os_select_task_def)
  then have d: "tid = of_nat i \<or> rr_dist (os_tasks s') i < rr_dist (os_tasks s) i"
    using rr_step [OF ti el _ t(5)] t(2) by simp
  have "i < 255" using el task_inv_bounds(2) [OF ti] by (simp add: rr_eligible_def)
  then have u: "unat (of_nat i :: u8) = i" by (simp add: unat_of_nat_u8)
  then have "(of_nat i :: u8) \<noteq> NO_TID" using \<open>i < 255\<close> by auto
  then show ?thesis using d t(3,4) u by auto
qed

lemma rr_run:
  assumes "acts_sparing cfg i as (b, s) = Some y" and "run_inv cfg (b, s)" and "limits_ok cfg" and "ROUND_ROBIN cfg"
    and "os_running s \<noteq> 0" and "rr_eligible (os_tasks s) i" and "rr_dist (os_tasks s) i < count_list as Schedule"
  shows "\<exists>as1 as2 s1. as = as1 @ Schedule # as2 \<and> acts_sparing cfg i (as1 @ [Schedule]) (b, s) = Some (True, s1) \<and> unat (self_tid s1) = i"
  using assms(1,2,5-7)
proof (induction "as" arbitrary: b s)
  case (Cons a as)
  then obtain b1 s1 where s1: "spares i a (b, s)" "act cfg a (b, s) = Some (b1, s1)" "acts_sparing cfg i as (b1, s1) = Some y"
    by (auto split: option.splits if_split_asm)
  note st = s1(2) [folded step_act]
  have inv1: "run_inv cfg (b1, s1)" by (rule step_run_inv [OF st Cons.prems(2) assms(3)])
  have r: "sleeps 0 0 (task_list (os_tasks s) ! i)" "i < unat (nTasks (os_tasks s))"
    using Cons.prems(4) by (simp_all add: rr_eligible_def sleeps_def)
  have el1: "rr_eligible (os_tasks s1) i"
    using asleep.step_counts [OF st s1(1) Cons.prems(2), of 0 0] r by (simp add: rr_eligible_def sleeps_def)
  have first: ?case if "a = Schedule" "b1" "unat (self_tid s1) = i"
    by (rule exI [of _ "[]"], rule exI [of _ "as"], rule exI [of _ s1]) (use that s1(1,2) in simp)
  have later: ?case if "os_running s1 \<noteq> 0" "rr_dist (os_tasks s1) i < count_list as Schedule"
  proof -
    note rest = that
    obtain as1 as2 s2 where "as = as1 @ Schedule # as2" "acts_sparing cfg i (as1 @ [Schedule]) (b1, s1) = Some (True, s2)" "unat (self_tid s2) = i"
      using Cons.IH [OF s1(3) inv1 rest(1) el1 rest(2)] by blast
    then show ?thesis using s1(1,2) by (intro exI [of _ "a # as1"] exI [of _ as2] exI [of _ s2]) simp
  qed
  show ?case
  proof (cases "a = Schedule")
    case True
    have "os_running s1 = os_running s" by (rule schedule_step [OF st [unfolded True] Cons.prems(2)])
    then show ?thesis using rr_schedule_step [OF st [unfolded True] Cons.prems(2) assms(4) Cons.prems(4)] first [OF True] later Cons.prems(3,5) True by auto
  next
    case False
    have "nTasks (os_tasks s1) = nTasks (os_tasks s) \<and> last_running_task (os_tasks s1) = last_running_task (os_tasks s) \<and> os_running s1 = os_running s"
      by (rule other_step_kept [OF st Cons.prems(2,3) False])
    then have "rr_dist (os_tasks s1) i = rr_dist (os_tasks s) i" "os_running s1 = os_running s"
      by (simp_all add: rr_dist_def rr_from_def cong: if_cong)
    then show ?thesis using later Cons.prems(3,5) False by simp
  qed
qed simp

text \<open>C15: round robin serves every task that stays ready: in every run of a started kernel in which task
  \<open>i\<close>, which is ready, is neither suspended nor killed, it is executed after at most as many scheduling decisions as there are
  tasks, whatever the other tasks, the clocks and the interrupts do in between.\<close>

theorem rr_serves_all:
  assumes "reachable cfg (b, s)" and "limits_ok cfg" and "ROUND_ROBIN cfg" and "os_running s \<noteq> 0"
    and "i < unat (nTasks (os_tasks s))" and "tcb_state (task_list (os_tasks s) ! i) = READY"
    and "acts_sparing cfg i as (b, s) = Some y" and "unat (nTasks (os_tasks s)) \<le> count_list as Schedule"
  shows "\<exists>as1 as2 s1. as = as1 @ Schedule # as2 \<and> acts_sparing cfg i (as1 @ [Schedule]) (b, s) = Some (True, s1) \<and> unat (self_tid s1) = i"
proof -
  have "rr_dist (os_tasks s) i < count_list as Schedule" using rr_dist_reach(2) [of "os_tasks s" i] assms(5,8) by simp
  moreover have "rr_eligible (os_tasks s) i" using assms(5,6) by (simp add: rr_eligible_def)
  ultimately show ?thesis using rr_run [OF assms(7) reachable_run_inv [OF assms(1,2)] assms(2,3,4)] by blast
qed

text \<open>Two tasks; the one that has been executed first is executed again after the other, with a tick and a signal in between.\<close>

lemma demo_rr_reach: "acts demo_rr as (False, os_init demo_rr demo_boot) = Some y \<Longrightarrow> reachable demo_rr y"
proof (rule reachable_acts)
  show "reachable demo_rr (False, os_init demo_rr demo_boot)"
    by (rule reachable.init) (simp add: storage_ok_def demo_rr_def demo_boot_def demo_msg_os_def demo_os_def demo_msgqs_def
        EVENT_QUEUE_SIZE_def N_TOTAL_EVENTS_def N_TOTAL_SEMAPHORES_def)
qed

lemma demo_rr_limits: "limits_ok demo_rr"
  by (simp add: limits_ok_def config_ok_def demo_rr_def N_TOTAL_EVENTS_def N_TOTAL_SEMAPHORES_def)

theorem rr_serves_all_witness:
  "\<exists>b s as1 as2 s1. acts demo_rr demo_boot_acts (False, os_init demo_rr demo_boot) = Some (b, s) \<and>
    [Return, Schedule, Irq Tick, Call (Yield 10), Irq (Isr_sem 0), Schedule] = as1 @ Schedule # as2 \<and>
    acts_sparing demo_rr 1 (as1 @ [Schedule]) (b, s) = Some (True, s1) \<and> unat (self_tid s1) = 1"
proof -
  let ?as = "[Return, Schedule, Irq Tick, Call (Yield 10), Irq (Isr_sem 0), Schedule]"
  have "case acts demo_rr demo_boot_acts (False, os_init demo_rr demo_boot) of Some (b, s) \<Rightarrow> nTasks (os_tasks s) = 2 \<and>
      tcb_state (task_list (os_tasks s) ! 1) = READY \<and> os_running s \<noteq> 0 \<and>
      (case acts_sparing demo_rr 1 ?as (b, s) of Some (b1, s1) \<Rightarrow> True | None \<Rightarrow> False) | None \<Rightarrow> False"
    by code_simp
  from some_case [OF this] obtain b s where s: "acts demo_rr demo_boot_acts (False, os_init demo_rr demo_boot) = Some (b, s)"
    "nTasks (os_tasks s) = 2" "tcb_state (task_list (os_tasks s) ! 1) = READY" "os_running s \<noteq> 0"
    "case acts_sparing demo_rr 1 ?as (b, s) of Some (b1, s1) \<Rightarrow> True | None \<Rightarrow> False" by blast
  from some_case [OF s(5)] obtain y where y: "acts_sparing demo_rr 1 ?as (b, s) = Some y" by blast
  have "1 < unat (nTasks (os_tasks s))" "unat (nTasks (os_tasks s)) \<le> count_list ?as Schedule" using s(2) by simp_all
  from rr_serves_all [OF demo_rr_reach [OF s(1)] demo_rr_limits demo_rr_inv(2) s(4) this(1) s(3) y this(2)]
  show ?thesis using s(1) by blast
qed

end
