(* ===== verification/Os_Timeout.thy ===== *)
theory Os_Timeout
  imports Os_Delay
begin

text \<open>
  Waiting for an event with a timeout in the whole system: the wait is over, at the latest, when the timeout
  has passed on the master clock.
\<close>

section \<open>Tasks that wait with a timeout or are ready\<close>

text \<open>The task is ready, or waits with a timeout of which at most \<open>r > 0\<close> ticks are left.\<close>

definition alarmed :: "nat \<Rightarrow> tcb \<Rightarrow> bool" where
  "alarmed r t \<longleftrightarrow> tcb_state t = READY \<or> 0 < r \<and> tcb_state t = WAITING_EVENT_TIMEOUT \<and> tcb_clockId t = 0 \<and> unat (tcb_time t) \<le> r"

definition alarm_rel :: "nat set \<Rightarrow> nat \<Rightarrow> tcb \<Rightarrow> tcb \<Rightarrow> bool" where
  "alarm_rel X j t t' \<longleftrightarrow> (j \<notin> X \<longrightarrow> (\<forall>r. alarmed r t \<longrightarrow> alarmed r t'))"

text \<open>Signals may end the wait.\<close>

interpretation alarm: waking "alarm_rel X" "\<lambda>t. True" for X
  by unfold_locales (auto simp: alarm_rel_def alarmed_def)

lemma alarmed_tick: "alarmed r t \<Longrightarrow> alarmed (r - (if c' = 0 then unat n else 0)) (tick_tcb c' n t)"
  by (auto simp: alarmed_def tick_tcb_def word_le_nat_alt unat_sub cleared_def split: if_split_asm)

interpretation alarm_clock: countdown alarm_rel "\<lambda>t. True" alarmed 0
proof (rule countdown.intro)
  show "bystander alarm_rel (\<lambda>t. True)"
    by (rule bystander.intro [OF alarm.waking_axioms]) (simp_all add: alarm_rel_def alarmed_def)
  show "countdown_axioms alarm_rel alarmed 0"
    by (rule countdown_axioms.intro) (simp add: alarm_rel_def, rule alarmed_tick)
qed

section \<open>The timeout\<close>

lemma wait_single_alarmed:
  assumes "life_inv (True, s)" and "task_call cfg (Wait_single line e T) s = Inr r" and T: "0 < T"
  shows "alarmed (unat T) (task_list (os_tasks (snd r)) ! unat (self_tid s))"
proof -
  let ?i = "unat (self_tid s)"
  have u: "0 < unat T" "T \<noteq> 0" using T by (auto simp: word_less_nat_alt)
  from assms(2) obtain s1 where s1: "os_wait_event cfg (self_tid s) e True T None s = Inr s1" "OS_YIELD line s1 = Inr r"
    by (auto simp: OS_WAIT_SINGLE_EVENT_def res_simps)
  have "alarmed (unat T) (task_list (os_tasks s1) ! ?i)"
  proof (cases "os_tasks s1 = os_tasks s")
    case True
    then show ?thesis using assms(1) by (simp add: life_inv_def alarmed_def)
  next
    case False
    then obtain t where "os_task_wait_event (self_tid s) e True T (os_tasks s) = Inr t" "os_tasks s1 = t"
      using s1(1) by (auto simp: os_wait_event_def res_simps split: if_split_asm)
    then show ?thesis
      using T u(1) by (auto simp: u(2) alarmed_def os_task_wait_event_def os_task_wait_time_set_def task_waiting_time_set_def
          task_waiting_event_timeout_set_def res_simps)
  qed
  moreover have "self_tid s1 = self_tid s"
    using s1(1) by (auto simp: os_wait_event_def res_simps self_tid_def os_get_running_tid_def split: if_split_asm)
  ultimately show ?thesis
    using s1(2) by (auto simp: alarmed_def OS_YIELD_def os_task_internal_state_set_def
        os_free_tid_def set_running_tid_def res_simps)
qed

text \<open>C26: a task that calls \<open>event_wait_timeout\<close> with a timeout \<open>T > 0\<close> is ready at the latest when \<open>T\<close> ticks of the
  master clock have passed, in every run after the call in which nobody suspends or kills it, whatever happens to the event and
  whatever the other tasks and interrupts do; and it stays ready until it is executed.\<close>

theorem timeout_in_runs:
  assumes "reachable cfg (True, s)" and "limits_ok cfg" and "0 < T"
    and "step cfg (Call (Wait_single line e T)) (True, s) y"
    and "acts_sparing cfg (unat (self_tid s)) as y = Some (b, s')" and "unat T \<le> elapsed 0 as"
  shows "tcb_state (task_list (os_tasks s') ! unat (self_tid s)) = READY"
proof -
  let ?i = "unat (self_tid s)"
  have inv: "run_inv cfg (True, s)" "run_inv cfg y"
    using reachable_run_inv [OF assms(1,2)] step_run_inv [OF assms(4)] assms(2) by blast+
  from assms(4) obtain r where r: "task_call cfg (Wait_single line e T) s = Inr r" "y = (fst r = Goes_on, snd r)"
    by cases auto
  have "nTasks (os_tasks (snd r)) = nTasks (os_tasks s)"
    using okeepsD [OF okeeps_task_call run_invD(1) [OF inv(1)] r(1)] by (simp add: os_kept_def)
  then have n: "?i < unat (nTasks (os_tasks (snd y)))" using self_running(2) [OF inv(1)] r(2) by simp
  have "alarmed (unat T) (task_list (os_tasks (snd y)) ! ?i)"
    using wait_single_alarmed [OF reachable_life_inv [OF assms(1,2)] r(1) assms(3)] r(2) by simp
  from alarm_clock.run_counts [OF assms(5) inv(2) assms(2) n this] show ?thesis using assms(6) by (simp add: alarmed_def)
qed

text \<open>The first task waits for an event that never comes; it is ready after two ticks, with other calls and a signal in between.\<close>

theorem timeout_in_runs_witness:
  "\<exists>s y b s'. acts demo_cfg ([Create Create_event] @ demo_boot_acts) demo_init = Some (True, s) \<and>
    act demo_cfg (Call (Wait_single 10 0 2)) (True, s) = Some y \<and>
    acts_sparing demo_cfg (unat (self_tid s)) [Irq Tick, Schedule, Call (Yield 20), Irq (Isr_sem 0), Irq Tick] y = Some (b, s') \<and>
    tcb_state (task_list (os_tasks s') ! unat (self_tid s)) = READY"
proof -
  let ?as = "[Irq Tick, Schedule, Call (Yield 20), Irq (Isr_sem 0), Irq Tick]"
  have "case acts demo_cfg ([Create Create_event] @ demo_boot_acts) demo_init of Some (b, s) \<Rightarrow> b \<and>
      (case act demo_cfg (Call (Wait_single 10 0 2)) (b, s) of Some (b1, s1) \<Rightarrow>
        (case acts_sparing demo_cfg (unat (self_tid s)) ?as (b1, s1) of Some (b2, s2) \<Rightarrow> True | None \<Rightarrow> False) | None \<Rightarrow> False) | None \<Rightarrow> False"
    by code_simp
  from some_case [OF this] obtain s where s: "acts demo_cfg ([Create Create_event] @ demo_boot_acts) demo_init = Some (True, s)"
    "case act demo_cfg (Call (Wait_single 10 0 2)) (True, s) of Some (b1, s1) \<Rightarrow>
        (case acts_sparing demo_cfg (unat (self_tid s)) ?as (b1, s1) of Some (b2, s2) \<Rightarrow> True | None \<Rightarrow> False) | None \<Rightarrow> False" by auto
  from some_case [OF s(2)] obtain b1 s1 where s1: "act demo_cfg (Call (Wait_single 10 0 2)) (True, s) = Some (b1, s1)"
    "case acts_sparing demo_cfg (unat (self_tid s)) ?as (b1, s1) of Some (b2, s2) \<Rightarrow> True | None \<Rightarrow> False" by blast
  from some_case [OF s1(2)] obtain b2 s2 where s2: "acts_sparing demo_cfg (unat (self_tid s)) ?as (b1, s1) = Some (b2, s2)" by blast
  have "(0 :: u32) < 2" and "unat (2 :: u32) \<le> elapsed 0 ?as" by (simp_all add: elapsed_def)
  from timeout_in_runs [OF demo_reach [OF s(1)] demo_limits this(1) s1(1) [folded step_act] s2 this(2)]
  show ?thesis using s(1) s1(1) s2 by blast
qed

end
