(* ===== verification/Os_Clock.thy ===== *)
theory Os_Clock
  imports Os_Kernel
begin

text \<open>
  The two ways to advance a sub clock, \<open>os_sub_tick\<close> called \<open>n\<close> times and \<open>os_sub_nTick\<close> called once
  with \<open>n\<close>: they agree on everything but the time the waiters of a semaphore have spent.
\<close>

section \<open>One task\<close>

text \<open>A waiter of a semaphore that has waited \<open>k\<close> ticks more.\<close>

definition aged :: "u32 \<Rightarrow> tcb \<Rightarrow> tcb" where
  "aged k t = (if tcb_state t = WAITING_SEM then t\<lparr>tcb_time := tcb_time t + k\<rparr> else t)"

lemma tick_tcb_sem: "tcb_state t = WAITING_SEM \<Longrightarrow> tick_tcb c n t = t\<lparr>tcb_time := tcb_time t + 1\<rparr>"
  by (simp add: tick_tcb_def)

lemma ticks_sem: "tcb_state t = WAITING_SEM \<Longrightarrow> (tick_tcb c 1 ^^ k) t = t\<lparr>tcb_time := tcb_time t + of_nat k\<rparr>"
  by (induction k) (simp_all add: tick_tcb_sem algebra_simps)

text \<open>A task that waits for the time of the clock: \<open>k\<close> ticks and then one more are \<open>k + 1\<close>.\<close>

lemma tick_once_more:
  assumes "tcb_state t = WAITING_TIME \<or> tcb_state t = WAITING_EVENT_TIMEOUT" and "tcb_clockId t = c" and "Suc k < 2 ^ 32"
  shows "tick_tcb c 1 (tick_tcb c (of_nat k) t) = tick_tcb c (of_nat (Suc k)) t"
proof -
  have u: "unat (of_nat k :: u32) = k" "unat (of_nat (Suc k) :: u32) = Suc k"
    using assms(3) by (simp_all only: unat_of_nat) simp_all
  consider "unat (tcb_time t) \<le> k" | "unat (tcb_time t) = Suc k" | "Suc k < unat (tcb_time t)" by linarith
  then show ?thesis
  proof cases
    case 1
    then have "tcb_time t \<le> of_nat k" "tcb_time t \<le> of_nat (Suc k)" by (simp_all only: word_le_nat_alt u)
    then show ?thesis using assms(1,2) by (auto simp: tick_tcb_def cleared_def)
  next
    case 2
    then have t: "tcb_time t = of_nat (Suc k)" using u(2) by (simp only: word_unat_eq_iff)
    then have "\<not> tcb_time t \<le> of_nat k" using u by (simp only: word_le_nat_alt)
    then show ?thesis using assms(1,2) t by (auto simp: tick_tcb_def cleared_def)
  next
    case 3
    then have l: "\<not> tcb_time t \<le> of_nat k" "\<not> tcb_time t \<le> of_nat (Suc k)" by (simp_all only: word_le_nat_alt u)
    then have "unat (tcb_time t - of_nat k) = unat (tcb_time t) - k" using u(1) by (simp add: unat_sub)
    then have "\<not> tcb_time t - of_nat k \<le> 1" using 3 by (simp add: word_le_nat_alt)
    then show ?thesis using assms(1,2) l by (auto simp: tick_tcb_def algebra_simps)
  qed
qed

lemma tick_tcb_others: "\<not> (tcb_state t = WAITING_TIME \<or> tcb_state t = WAITING_EVENT_TIMEOUT) \<or> tcb_clockId t \<noteq> c \<Longrightarrow>
    tcb_state t \<noteq> WAITING_SEM \<Longrightarrow> tick_tcb c n t = t"
  by (auto simp: tick_tcb_def)

lemma ticks_tcb:
  assumes "Suc k < 2 ^ 32"
  shows "(tick_tcb c 1 ^^ Suc k) t = aged (of_nat k) (tick_tcb c (of_nat (Suc k)) t)"
proof (cases "tcb_state t = WAITING_SEM")
  case True
  then show ?thesis unfolding ticks_sem [OF True] tick_tcb_sem [OF True] by (simp add: aged_def)
next
  case sem: False
  then have age: "aged j (tick_tcb c n t) = tick_tcb c n t" for j n by (simp add: aged_def tick_tcb_def cleared_def)
  have "(tick_tcb c 1 ^^ Suc k) t = tick_tcb c (of_nat (Suc k)) t"
  proof (cases "(tcb_state t = WAITING_TIME \<or> tcb_state t = WAITING_EVENT_TIMEOUT) \<and> tcb_clockId t = c")
    case True
    from assms show ?thesis
    proof (induction k)
      case (Suc k)
      have "(tick_tcb c 1 ^^ Suc (Suc k)) t = tick_tcb c 1 (tick_tcb c (of_nat (Suc k)) t)" using Suc by simp
      also have "\<dots> = tick_tcb c (of_nat (Suc (Suc k))) t" using True Suc.prems by (intro tick_once_more) simp_all
      finally show ?case .
    qed simp
  next
    case False
    then have id: "tick_tcb c n t = t" for n using sem by (intro tick_tcb_others) blast+
    have "(tick_tcb c 1 ^^ j) t = t" for j by (induction j) (simp_all add: id)
    then show ?thesis by (simp only: id)
  qed
  then show ?thesis by (simp only: age)
qed

section \<open>All tasks\<close>

text \<open>A change of every task that exists.\<close>

definition each_task :: "(tcb \<Rightarrow> tcb) \<Rightarrow> os \<Rightarrow> os" where
  "each_task f s = s\<lparr>os_tasks := (os_tasks s)\<lparr>task_list :=
     map f (take (unat (nTasks (os_tasks s))) (task_list (os_tasks s))) @ drop (unat (nTasks (os_tasks s))) (task_list (os_tasks s))\<rparr>\<rparr>"

lemma each_task_comp: "unat (nTasks (os_tasks s)) \<le> length (task_list (os_tasks s)) \<Longrightarrow> each_task g (each_task f s) = each_task (g \<circ> f) s"
  by (simp add: each_task_def)

lemma each_task_cong:
  "(\<And>i. i < unat (nTasks (os_tasks s)) \<Longrightarrow> f (task_list (os_tasks s) ! i) = g (task_list (os_tasks s) ! i)) \<Longrightarrow>
     unat (nTasks (os_tasks s)) \<le> length (task_list (os_tasks s)) \<Longrightarrow> each_task f s = each_task g s"
proof -
  assume f: "\<And>i. i < unat (nTasks (os_tasks s)) \<Longrightarrow> f (task_list (os_tasks s) ! i) = g (task_list (os_tasks s) ! i)"
    and "unat (nTasks (os_tasks s)) \<le> length (task_list (os_tasks s))"
  then have "map f (take (unat (nTasks (os_tasks s))) (task_list (os_tasks s))) =
      map g (take (unat (nTasks (os_tasks s))) (task_list (os_tasks s)))" by (intro map_cong refl) (auto simp: in_set_conv_nth)
  then show ?thesis by (simp add: each_task_def)
qed

lemma each_task_id: "each_task (\<lambda>t. t) s = s"
  by (simp add: each_task_def)

lemma each_task_inv:
  assumes "task_inv cfg (os_tasks s)" and "\<And>t. tcb_same t (f t)"
  shows "task_inv cfg (os_tasks (each_task f s))"
  using task_inv_map [OF assms task_inv_bounds(1) [OF assms(1)]] by (simp add: each_task_def)

lemma sub_tick_each: "task_inv cfg (os_tasks s) \<Longrightarrow> c \<noteq> 0 \<Longrightarrow> os_sub_tick cfg c s = Inr (each_task (tick_tcb c 1) s)"
  "task_inv cfg (os_tasks s) \<Longrightarrow> c \<noteq> 0 \<Longrightarrow> os_sub_nTick cfg c n s = Inr (each_task (tick_tcb c n) s)"
  by (simp_all add: os_sub_tick_def os_sub_nTick_def sub_tick_pointwise each_task_def)

lemma sub_ticks_each:
  assumes "task_inv cfg (os_tasks s)" and "c \<noteq> 0"
  shows "iterR k (os_sub_tick cfg c) s = Inr (each_task (tick_tcb c 1 ^^ k) s)"
  using assms(1)
proof (induction k arbitrary: s)
  case 0
  then show ?case by (simp add: id_def each_task_id)
next
  case (Suc k)
  have inv: "task_inv cfg (os_tasks (each_task (tick_tcb c 1) s))" by (rule each_task_inv [OF Suc.prems tick_tcb_same])
  have "each_task (tick_tcb c 1 ^^ k) (each_task (tick_tcb c 1) s) = each_task (tick_tcb c 1 ^^ Suc k) s"
    using each_task_comp [OF task_inv_bounds(1) [OF Suc.prems]] by (simp add: funpow_Suc_right del: funpow.simps)
  then show ?case using sub_tick_each(1) [OF Suc.prems assms(2)] Suc.IH [OF inv] by (simp del: funpow.simps)
qed

text \<open>C31: \<open>os_sub_nTick\<close> with \<open>n > 0\<close> does what \<open>n\<close> calls of \<open>os_sub_tick\<close> do, but for the time
  the waiters of a semaphore have spent, which it counts up by 1 instead of \<open>n\<close>. If no task waits for a
  semaphore, the two are the same.\<close>

theorem sub_nTick_is_n_ticks:
  assumes "task_inv cfg (os_tasks s)" and "c \<noteq> 0" and "0 < n"
  shows "\<exists>s'. os_sub_nTick cfg c n s = Inr s' \<and> iterR (unat n) (os_sub_tick cfg c) s = Inr (each_task (aged (n - 1)) s') \<and>
    ((\<forall>i < unat (nTasks (os_tasks s)). tcb_state (task_list (os_tasks s) ! i) \<noteq> WAITING_SEM) \<longrightarrow>
      iterR (unat n) (os_sub_tick cfg c) s = os_sub_nTick cfg c n s)"
proof -
  note b = task_inv_bounds(1) [OF assms(1)]
  obtain k where k: "unat n = Suc k" using assms(3) by (metis gr0_implies_Suc unat_gt_0 word_greater_zero_iff)
  then have n: "n = of_nat (Suc k)" by (simp only: k [symmetric]) simp
  have "unat n < 2 ^ 32" using unsigned_less [of n] by simp
  then have lt: "Suc k < 2 ^ 32" by (simp only: k)
  have m: "n - 1 = of_nat k" using n by simp
  have "(tick_tcb c 1 ^^ unat n) t = (aged (n - 1) \<circ> tick_tcb c n) t" for t
    using ticks_tcb [OF lt, of c t] by (simp only: k n [symmetric] m o_apply)
  then have "tick_tcb c 1 ^^ unat n = aged (n - 1) \<circ> tick_tcb c n" by (rule ext)
  then have run: "iterR (unat n) (os_sub_tick cfg c) s = Inr (each_task (aged (n - 1) \<circ> tick_tcb c n) s)"
    using sub_ticks_each [OF assms(1,2), of "unat n"] by simp
  have "each_task (aged (n - 1) \<circ> tick_tcb c n) s = each_task (tick_tcb c n) s"
    if "\<forall>i < unat (nTasks (os_tasks s)). tcb_state (task_list (os_tasks s) ! i) \<noteq> WAITING_SEM"
    by (rule each_task_cong [OF _ b]) (use that in \<open>simp add: aged_def tick_tcb_def cleared_def\<close>)
  then show ?thesis using run sub_tick_each(2) [OF assms(1,2), of n] each_task_comp [OF b] by simp
qed

theorem sub_nTick_is_n_ticks_witness:
  "iterR (unat (5 :: u32)) (os_sub_tick demo_cfg 2) demo_boot = os_sub_nTick demo_cfg 2 5 demo_boot"
proof -
  have "\<forall>i < unat (nTasks (os_tasks demo_boot)). tcb_state (task_list (os_tasks demo_boot) ! i) \<noteq> WAITING_SEM"
    by (simp add: demo_boot_def less_2_cases_iff)
  then show ?thesis
    using sub_nTick_is_n_ticks [OF os_invD(1) [OF demo_boot_inv(1)], of 2 5] by force
qed

end
