(* ===== verification/Os_Links.thy ===== *)
theory Os_Links
  imports Os_Runs
begin

text \<open>
  The identifiers in the tables: in every reachable state each one names an object that exists, and the
  links between the tasks and their queues are mutual.
\<close>

section \<open>Queues and their tasks\<close>

text \<open>A queue belongs to the task whose queue it is, and no two queues share a change event.\<close>

definition linked :: "os \<Rightarrow> bool" where
  "linked s \<longleftrightarrow>
     (\<forall>q < unat (nQueues (os_msgqs s)). unat (mq_taskId (msgQList (os_msgqs s) ! q)) < unat (nTasks (os_tasks s)) \<and>
        tcb_msgQ (task_list (os_tasks s) ! unat (mq_taskId (msgQList (os_msgqs s) ! q))) = of_nat q) \<and>
     (\<forall>i < unat (nTasks (os_tasks s)). tcb_msgQ (task_list (os_tasks s) ! i) = NO_QUEUE \<or>
        unat (tcb_msgQ (task_list (os_tasks s) ! i)) < unat (nQueues (os_msgqs s)) \<and>
        mq_taskId (msgQList (os_msgqs s) ! unat (tcb_msgQ (task_list (os_tasks s) ! i))) = of_nat i) \<and>
     (\<forall>q < unat (nQueues (os_msgqs s)). \<forall>q' < unat (nQueues (os_msgqs s)).
        mq_change (msgQList (os_msgqs s) ! q) = mq_change (msgQList (os_msgqs s) ! q') \<longrightarrow> q = q')"

lemma linkedI:
  assumes "\<And>q. q < unat (nQueues (os_msgqs s)) \<Longrightarrow> unat (mq_taskId (msgQList (os_msgqs s) ! q)) < unat (nTasks (os_tasks s)) \<and>
      tcb_msgQ (task_list (os_tasks s) ! unat (mq_taskId (msgQList (os_msgqs s) ! q))) = of_nat q"
    and "\<And>i. i < unat (nTasks (os_tasks s)) \<Longrightarrow> tcb_msgQ (task_list (os_tasks s) ! i) = NO_QUEUE \<or>
      unat (tcb_msgQ (task_list (os_tasks s) ! i)) < unat (nQueues (os_msgqs s)) \<and>
      mq_taskId (msgQList (os_msgqs s) ! unat (tcb_msgQ (task_list (os_tasks s) ! i))) = of_nat i"
    and "\<And>q q'. q < unat (nQueues (os_msgqs s)) \<Longrightarrow> q' < unat (nQueues (os_msgqs s)) \<Longrightarrow>
      mq_change (msgQList (os_msgqs s) ! q) = mq_change (msgQList (os_msgqs s) ! q') \<Longrightarrow> q = q'"
  shows "linked s"
  unfolding linked_def using assms by blast

lemma linkedD:
  assumes "linked s"
  shows "q < unat (nQueues (os_msgqs s)) \<Longrightarrow> unat (mq_taskId (msgQList (os_msgqs s) ! q)) < unat (nTasks (os_tasks s))"
    and "q < unat (nQueues (os_msgqs s)) \<Longrightarrow>
      tcb_msgQ (task_list (os_tasks s) ! unat (mq_taskId (msgQList (os_msgqs s) ! q))) = of_nat q"
    and "i < unat (nTasks (os_tasks s)) \<Longrightarrow> tcb_msgQ (task_list (os_tasks s) ! i) = NO_QUEUE \<or>
      unat (tcb_msgQ (task_list (os_tasks s) ! i)) < unat (nQueues (os_msgqs s)) \<and>
      mq_taskId (msgQList (os_msgqs s) ! unat (tcb_msgQ (task_list (os_tasks s) ! i))) = of_nat i"
    and "q < unat (nQueues (os_msgqs s)) \<Longrightarrow> q' < unat (nQueues (os_msgqs s)) \<Longrightarrow>
      mq_change (msgQList (os_msgqs s) ! q) = mq_change (msgQList (os_msgqs s) ! q') \<Longrightarrow> q = q'"
  using assms unfolding linked_def by blast+

text \<open>What keeps the ids of the queues and the queues of the tasks keeps the links.\<close>

lemma linked_same:
  assumes "linked s" and "os_inv cfg s" and "0 < N_QUEUES cfg" and "queue_ids (os_msgqs s') = queue_ids (os_msgqs s)"
    and "nTasks (os_tasks s') = nTasks (os_tasks s)" and "map tcb_msgQ (task_list (os_tasks s')) = map tcb_msgQ (task_list (os_tasks s))"
  shows "linked s'"
proof -
  note ids = queue_idsD [OF assms(4)] and l = linkedD [OF assms(1)]
  have len: "unat (nQueues (os_msgqs s)) \<le> length (msgQList (os_msgqs s))" "unat (nTasks (os_tasks s)) \<le> length (task_list (os_tasks s))"
    using os_invD(4) [OF assms(2,3)] task_inv_bounds(1) [OF os_invD(1) [OF assms(2)]] by (simp_all add: queues_inv_def msgq_inv_def)
  have q: "tcb_msgQ (task_list (os_tasks s') ! i) = tcb_msgQ (task_list (os_tasks s) ! i)" if "i < unat (nTasks (os_tasks s))" for i
    by (rule msgQ_kept [OF assms(6)]) (use that len(2) in simp)
  have m: "mq_taskId (msgQList (os_msgqs s') ! i) = mq_taskId (msgQList (os_msgqs s) ! i)"
    "mq_change (msgQList (os_msgqs s') ! i) = mq_change (msgQList (os_msgqs s) ! i)" if "i < unat (nQueues (os_msgqs s))" for i
    using ids(3,4) [of i] that len(1) by simp_all
  show ?thesis
  proof (rule linkedI, unfold ids(1) assms(5))
    fix i assume "i < unat (nTasks (os_tasks s))"
    then show "tcb_msgQ (task_list (os_tasks s') ! i) = NO_QUEUE \<or> unat (tcb_msgQ (task_list (os_tasks s') ! i)) < unat (nQueues (os_msgqs s)) \<and>
        mq_taskId (msgQList (os_msgqs s') ! unat (tcb_msgQ (task_list (os_tasks s') ! i))) = of_nat i"
      using l(3) [of i] q [of i] m(1) [of "unat (tcb_msgQ (task_list (os_tasks s) ! i))"] by fastforce
  qed (use l(1,2,4) q m in \<open>simp_all\<close>)
qed

section \<open>Creation\<close>

lemma linked_add_task:
  assumes "linked s" and "os_inv cfg s" and "unat (nTasks (os_tasks s)) < N_TASKS cfg"
    and "os_tasks s' = add_task (new_tcb f d p NO_QUEUE (os_tasks s)) (os_tasks s)" and "os_msgqs s' = os_msgqs s"
    and "unat (nTasks (os_tasks s')) = Suc (unat (nTasks (os_tasks s)))"
  shows "linked s'"
proof -
  have "task_list (os_tasks s') ! i = (if i = unat (nTasks (os_tasks s)) then new_tcb f d p NO_QUEUE (os_tasks s) else task_list (os_tasks s) ! i)" for i
    using assms(3,4) os_invD(1) [OF assms(2)] by (simp add: add_task_def task_inv_def)
  note tl = this and l = linkedD [OF assms(1)]
  have own: "unat (mq_taskId (msgQList (os_msgqs s) ! i)) \<noteq> unat (nTasks (os_tasks s))" if "i < unat (nQueues (os_msgqs s))" for i
    using l(1) [OF that] by simp
  show ?thesis
  proof (rule linkedI, unfold assms(5,6))
    fix i assume "i < unat (nQueues (os_msgqs s))"
    then show "unat (mq_taskId (msgQList (os_msgqs s) ! i)) < Suc (unat (nTasks (os_tasks s))) \<and>
        tcb_msgQ (task_list (os_tasks s') ! unat (mq_taskId (msgQList (os_msgqs s) ! i))) = of_nat i"
      using l(1,2) [of i] own [of i] by (simp add: tl)
  next
    fix i assume "i < Suc (unat (nTasks (os_tasks s)))"
    then show "tcb_msgQ (task_list (os_tasks s') ! i) = NO_QUEUE \<or> unat (tcb_msgQ (task_list (os_tasks s') ! i)) < unat (nQueues (os_msgqs s)) \<and>
        mq_taskId (msgQList (os_msgqs s) ! unat (tcb_msgQ (task_list (os_tasks s') ! i))) = of_nat i"
      using l(3) [of i] by (cases "i = unat (nTasks (os_tasks s))") (simp_all add: tl less_Suc_eq)
  qed (rule l(4))
qed

lemma linked_add_queue:
  assumes "linked s" and "os_inv cfg s" and "unat (nTasks (os_tasks s)) < N_TASKS cfg" and pool: "pool_ok cfg pool n m s"
    and t: "os_tasks s' = add_task (new_tcb f d p (nQueues (os_msgqs s)) (os_tasks s)) (os_tasks s)"
    and q: "os_msgqs s' = add_queue pool n m (nTasks (os_tasks s)) (nEvents (os_events s)) (os_msgqs s)"
    and n: "unat (nTasks (os_tasks s')) = Suc (unat (nTasks (os_tasks s)))"
  shows "linked s'"
proof -
  let ?k = "nQueues (os_msgqs s)" and ?n = "nTasks (os_tasks s)"
  have p: "0 < N_QUEUES cfg" "unat ?k < N_QUEUES cfg" "N_QUEUES cfg < 255" using pool by (simp_all add: pool_ok_def)
  note qi = os_invD(4) [OF assms(2) p(1)]
  have k: "unat (nQueues (os_msgqs s')) = Suc (unat ?k)" "unat ?k < length (msgQList (os_msgqs s))"
    using unat_u8_succ [OF p(2)] p qi by (simp_all add: q add_queue_def queues_inv_def msgq_inv_def)
  have tl: "task_list (os_tasks s') ! i = (if i = unat ?n then new_tcb f d p ?k (os_tasks s) else task_list (os_tasks s) ! i)" for i
    using assms(3) os_invD(1) [OF assms(2)] by (simp add: t add_task_def task_inv_def)
  have ml: "msgQList (os_msgqs s') ! i = (if i = unat ?k then \<lparr>mq_q = new_queue pool n m, mq_taskId = ?n, mq_change = nEvents (os_events s)\<rparr>
      else msgQList (os_msgqs s) ! i)" for i
    using k(2) by (simp add: q add_queue_def)
  have old: "mq_change (msgQList (os_msgqs s) ! i) \<noteq> nEvents (os_events s)" if "i < unat ?k" for i
    using qi that by (auto simp: queues_inv_def)
  note l = linkedD [OF assms(1)]
  have own: "unat (mq_taskId (msgQList (os_msgqs s) ! i)) \<noteq> unat ?n" if "i < unat ?k" for i using l(1) [OF that] by simp
  show ?thesis
  proof (rule linkedI)
    fix i assume "i < unat (nQueues (os_msgqs s'))"
    then show "unat (mq_taskId (msgQList (os_msgqs s') ! i)) < unat (nTasks (os_tasks s')) \<and>
        tcb_msgQ (task_list (os_tasks s') ! unat (mq_taskId (msgQList (os_msgqs s') ! i))) = of_nat i"
      using l(1,2) [of i] own [of i] n k(1) by (cases "i = unat ?k") (simp_all add: ml tl less_Suc_eq)
  next
    fix i assume "i < unat (nTasks (os_tasks s'))"
    then show "tcb_msgQ (task_list (os_tasks s') ! i) = NO_QUEUE \<or> unat (tcb_msgQ (task_list (os_tasks s') ! i)) < unat (nQueues (os_msgqs s')) \<and>
        mq_taskId (msgQList (os_msgqs s') ! unat (tcb_msgQ (task_list (os_tasks s') ! i))) = of_nat i"
      using l(3) [of i] n k(1) by (cases "i = unat ?n") (auto simp: ml tl less_Suc_eq)
  next
    fix i j assume "i < unat (nQueues (os_msgqs s'))" "j < unat (nQueues (os_msgqs s'))"
      "mq_change (msgQList (os_msgqs s') ! i) = mq_change (msgQList (os_msgqs s') ! j)"
    then show "i = j" using l(4) [of i j] old [of i] old [of j] k(1)
      by (cases "i = unat ?k"; cases "j = unat ?k") (simp_all add: ml less_Suc_eq)
  qed
qed

lemma linked_create:
  assumes "linked s" and "os_inv cfg s" and "creation_ok cfg c s" and r: "create_call cfg c s = Inr s'"
  shows "linked s'"
proof (cases c)
  case (Create_task f d p pool n m)
  then obtain tid where t: "os_task_create cfg f d p pool n m s = Inr (tid, s')" using r by (auto simp: bindR_eq_Inr)
  have pl: "n = 0 \<or> pool_ok cfg pool n m s" using assms(3) Create_task by simp
  obtain queue where q: "os_tasks s' = add_task (new_tcb f d p queue (os_tasks s)) (os_tasks s)"
    "unat (nTasks (os_tasks s')) = Suc (unat (nTasks (os_tasks s)))"
    "if n = 0 then queue = NO_QUEUE \<and> os_msgqs s' = os_msgqs s
     else queue = nQueues (os_msgqs s) \<and> os_msgqs s' = add_queue pool n m (nTasks (os_tasks s)) (nEvents (os_events s)) (os_msgqs s)"
    by (rule created_task [OF assms(2) pl t])
  note room = created_conditions(2) [OF assms(2) t]
  show ?thesis
    using q pl linked_add_task [OF assms(1,2) room _ _ q(2)] linked_add_queue [OF assms(1,2) room _ _ _ q(2)] by (auto split: if_split_asm)
qed (use r assms(1) in \<open>auto simp: on_sems_eq_Inr on_events_eq_Inr linked_def\<close>)

section \<open>All steps\<close>

lemma linked_init:
  assumes "0 < N_QUEUES cfg"
  shows "linked (os_init cfg s)"
  using assms by (simp add: linked_def os_init_def os_msgQ_init_def os_task_init_def)

lemma linked_kept: "linked s \<Longrightarrow> os_inv cfg s \<Longrightarrow> 0 < N_QUEUES cfg \<Longrightarrow> os_kept cfg s s' \<Longrightarrow> linked s'"
  by (erule (2) linked_same) (simp_all add: os_kept_def)

lemma step_linked:
  assumes "step cfg a x y" and "run_inv cfg x" and "0 < N_QUEUES cfg" and "linked (snd x)"
  shows "linked (snd y)"
  using assms(1)
proof cases
  case (creates s c s')
  then show ?thesis using linked_create [OF _ _ creates(5,6)] assms(2,4) by (simp add: run_inv_def sys_inv_def)
next
  case (schedule s s')
  then have inv: "os_inv cfg s" using assms(2) by (simp add: run_inv_def sys_inv_def)
  obtain tid t where "s' = set_running_tid tid (s\<lparr>os_tasks := t\<rparr>)" "task_list t = task_list (os_tasks s)" "nTasks t = nTasks (os_tasks s)"
    by (rule schedule_result [OF inv schedule(5,6)])
  then show ?thesis using schedule assms(4) by (simp add: linked_def set_running_tid_def)
next
  case (call c s ctl s')
  then have inv: "os_inv cfg s" using assms(2) by (simp add: run_inv_def sys_inv_def)
  show ?thesis using linked_kept [OF _ inv assms(3) okeepsD [OF okeeps_task_call inv call(4), unfolded snd_conv]] call assms(4) by simp
next
  case (kill i s s')
  then have inv: "os_inv cfg s" using assms(2) by (simp add: run_inv_def sys_inv_def)
  show ?thesis using linked_kept [OF _ inv assms(3)] kill_kept [OF inv kill(4)] kill assms(4) by simp
next
  case (irq i s s' b)
  then have inv: "os_inv cfg s" using assms(2) by (simp add: run_inv_def sys_inv_def)
  show ?thesis using linked_kept [OF _ inv assms(3) okeepsD [OF okeeps_irq inv irq(4)]] irq assms(4) by simp
qed (use assms(4) in \<open>simp_all add: linked_def\<close>)

lemma reachable_linked:
  assumes "reachable cfg x" and "limits_ok cfg" and "0 < N_QUEUES cfg"
  shows "linked (snd x)"
  using assms(1)
proof induction
  case (init s)
  then show ?case using linked_init [OF assms(3)] by simp
next
  case (step x a y)
  then show ?case using step_linked reachable_run_inv [OF step(1) assms(2)] assms(3) by blast
qed

text \<open>The search for the queue of a task finds it.\<close>

lemma find_loop_first:
  "q + k \<le> 255 \<Longrightarrow> q + k \<le> length l \<Longrightarrow> \<exists>r. find_loop l q k t = Inr r \<and>
     (r = NO_QUEUE \<and> (\<forall>i. q \<le> i \<and> i < q + k \<longrightarrow> mq_taskId (l ! i) \<noteq> t) \<or>
      q \<le> unat r \<and> unat r < q + k \<and> mq_taskId (l ! unat r) = t)"
proof (induction k arbitrary: q)
  case (Suc k)
  then have u: "unat (of_nat q :: u8) = q" by (intro unat_of_nat_u8) simp
  show ?case
  proof (cases "mq_taskId (l ! q) = t")
    case True
    then show ?thesis using Suc.prems u by (intro exI [of _ "of_nat q"]) simp
  next
    case False
    obtain r where r: "find_loop l (Suc q) k t = Inr r"
      "r = NO_QUEUE \<and> (\<forall>i. Suc q \<le> i \<and> i < Suc q + k \<longrightarrow> mq_taskId (l ! i) \<noteq> t) \<or>
       Suc q \<le> unat r \<and> unat r < Suc q + k \<and> mq_taskId (l ! unat r) = t"
      using Suc.IH [of "Suc q"] Suc.prems by auto
    have i: "Suc q \<le> i \<longleftrightarrow> q \<le> i \<and> i \<noteq> q" for i by auto
    from r(2) have "r = NO_QUEUE \<and> (\<forall>i. q \<le> i \<and> i < q + Suc k \<longrightarrow> mq_taskId (l ! i) \<noteq> t) \<or>
       q \<le> unat r \<and> unat r < q + Suc k \<and> mq_taskId (l ! unat r) = t"
      by (rule disj_forward) (use False in \<open>auto simp: i\<close>)
    moreover have "find_loop l q (Suc k) t = Inr r" using False r(1) Suc.prems by simp
    ultimately show ?thesis by blast
  qed
qed auto

lemma find_own_queue:
  assumes "linked s" and "os_inv cfg s" and "0 < N_QUEUES cfg" and "N_QUEUES cfg < 255" and "t < nTasks (os_tasks s)"
  shows "os_msgQ_find cfg t (os_msgqs s) = Inr (tcb_msgQ (task_list (os_tasks s) ! unat t))"
proof -
  note l = linkedD [OF assms(1)]
  let ?m = "os_msgqs s" and ?mine = "tcb_msgQ (task_list (os_tasks s) ! unat t)"
  have len: "unat (nQueues ?m) \<le> length (msgQList ?m)" "unat (nQueues ?m) \<le> 255"
    using os_invD(4) [OF assms(2,3)] assms(4) by (simp_all add: queues_inv_def msgq_inv_def)
  have t: "unat t < unat (nTasks (os_tasks s))" using assms(5) by (simp add: word_less_nat_alt)
  obtain r where r: "os_msgQ_find cfg t ?m = Inr r"
    "r = NO_QUEUE \<and> (\<forall>i < unat (nQueues ?m). mq_taskId (msgQList ?m ! i) \<noteq> t) \<or>
     unat r < unat (nQueues ?m) \<and> mq_taskId (msgQList ?m ! unat r) = t"
    using find_loop_first [of 0 "unat (nQueues ?m)" "msgQList ?m" t] len assms(3) by (auto simp: os_msgQ_find_def)
  from r(2) have "r = ?mine"
  proof
    assume "r = NO_QUEUE \<and> (\<forall>i < unat (nQueues ?m). mq_taskId (msgQList ?m ! i) \<noteq> t)"
    then show ?thesis using l(3) [OF t] by auto
  next
    assume "unat r < unat (nQueues ?m) \<and> mq_taskId (msgQList ?m ! unat r) = t"
    then show ?thesis using l(2) [of "unat r"] by simp
  qed
  then show ?thesis using r(1) by simp
qed

section \<open>Property\<close>

text \<open>C11: the identifiers of a task name the right objects. In every reachable state the control block of a task
  carries the number of the task, and the search for its queue finds the queue noted there: none, or one that
  exists, belongs to this task, and has a change event that exists, carries its own number and is the change event
  of no other queue.\<close>

theorem ids_name_objects:
  assumes "reachable cfg (b, s)" and "limits_ok cfg" and "0 < N_QUEUES cfg" and "t < nTasks (os_tasks s)"
  shows "tcb_tid (task_list (os_tasks s) ! unat t) = t \<and>
    (\<exists>queue. os_msgQ_find cfg t (os_msgqs s) = Inr queue \<and> tcb_msgQ (task_list (os_tasks s) ! unat t) = queue \<and>
      (queue = NO_QUEUE \<or>
       queue < nQueues (os_msgqs s) \<and> mq_taskId (msgQList (os_msgqs s) ! unat queue) = t \<and>
       (\<exists>e. os_msgQ_event_get cfg queue (os_msgqs s) = Inr e \<and> e < nEvents (os_events s) \<and>
         event_id (eventList (os_events s) ! unat e) = e \<and>
         (\<forall>queue' < nQueues (os_msgqs s). os_msgQ_event_get cfg queue' (os_msgqs s) = Inr e \<longrightarrow> queue' = queue))))"
proof -
  have inv: "os_inv cfg s" by (rule run_invD(1) [OF reachable_run_inv [OF assms(1,2)]])
  have l: "linked s" using reachable_linked [OF assms(1-3)] by simp
  let ?q = "tcb_msgQ (task_list (os_tasks s) ! unat t)"
  have tid: "tcb_tid (task_list (os_tasks s) ! unat t) = t"
    using os_invD(1) [OF inv] assms(4) by (simp add: task_inv_def word_less_nat_alt)
  have find: "os_msgQ_find cfg t (os_msgqs s) = Inr ?q"
    by (rule find_own_queue [OF l inv assms(3) _ assms(4)]) (use assms(2) in \<open>simp add: limits_ok_def config_ok_def\<close>)
  note qi = os_invD(4) [OF inv assms(3)]
  have get: "os_msgQ_event_get cfg k (os_msgqs s) = Inr (mq_change (msgQList (os_msgqs s) ! unat k))" if "k < nQueues (os_msgqs s)" for k
  proof -
    have "unat k < length (msgQList (os_msgqs s))" "\<not> nQueues (os_msgqs s) \<le> k"
      using msgq_invD(1,4) [OF _ that] qi by (auto simp: queues_inv_def)
    then show ?thesis using assms(3) by (simp add: os_msgQ_event_get_def)
  qed
  have "?q = NO_QUEUE \<or> unat ?q < unat (nQueues (os_msgqs s)) \<and> mq_taskId (msgQList (os_msgqs s) ! unat ?q) = t"
    using linkedD(3) [OF l, of "unat t"] assms(4) by (simp add: word_less_nat_alt)
  moreover have "mq_change (msgQList (os_msgqs s) ! unat ?q) < nEvents (os_events s) \<and>
      event_id (eventList (os_events s) ! unat (mq_change (msgQList (os_msgqs s) ! unat ?q))) = mq_change (msgQList (os_msgqs s) ! unat ?q)"
    if "unat ?q < unat (nQueues (os_msgqs s))"
    using qi that os_invD(3) [OF inv] by (simp add: queues_inv_def event_inv_def word_less_nat_alt)
  moreover have "k = ?q" if "unat ?q < unat (nQueues (os_msgqs s))" "k < nQueues (os_msgqs s)"
      "os_msgQ_event_get cfg k (os_msgqs s) = Inr (mq_change (msgQList (os_msgqs s) ! unat ?q))" for k
    using linkedD(4) [OF l that(1), of "unat k"] get [OF that(2)] that(2,3) by (simp add: word_less_nat_alt word_unat_eq_iff)
  ultimately show ?thesis using tid find get [of ?q] by (simp add: word_less_nat_alt) blast
qed

theorem ids_name_objects_witness:
  "\<exists>b s. acts demo_cfg [Create Create_event, Create (Create_task 1 0 3 [] 0 0), Create (Create_task 1 0 5 (replicate 24 0) 2 12)] demo_init = Some (b, s) \<and>
     os_msgQ_find demo_cfg 1 (os_msgqs s) = Inr 0 \<and> os_msgQ_event_get demo_cfg 0 (os_msgqs s) = Inr 1"
proof -
  let ?as = "[Create Create_event, Create (Create_task 1 0 3 [] 0 0), Create (Create_task 1 0 5 (replicate 24 0) 2 12)]"
  have "case acts demo_cfg ?as demo_init of Some (b, s) \<Rightarrow> nTasks (os_tasks s) = 2 \<and> tcb_msgQ (task_list (os_tasks s) ! 1) = 0 \<and>
      os_msgQ_event_get demo_cfg 0 (os_msgqs s) = Inr 1 | None \<Rightarrow> False"
    by code_simp
  from some_case [OF this] obtain b s where s: "acts demo_cfg ?as demo_init = Some (b, s)" "nTasks (os_tasks s) = 2"
    "tcb_msgQ (task_list (os_tasks s) ! 1) = 0" "os_msgQ_event_get demo_cfg 0 (os_msgqs s) = Inr 1" by blast
  have "0 < N_QUEUES demo_cfg" "(1 :: u8) < nTasks (os_tasks s)" using s(2) by simp_all
  from ids_name_objects [OF demo_reach [OF s(1)] demo_limits this] s show ?thesis by auto
qed

end
