(* ===== verification/Os_Start.thy ===== *)
theory Os_Start
  imports Os_Runs
begin

text \<open>
  \<open>os_start\<close> and \<open>os_start_locking\<close> with task procedures that call the kernel and let interrupts come: the loop
  is a run of the transition system of \<open>Os_System\<close>, so that what holds in the reachable states holds there.
\<close>

section \<open>What a procedure does\<close>

text \<open>While a procedure is executed the program makes calls, kills tasks, returns, or is interrupted.\<close>

fun in_procedure :: "action \<Rightarrow> bool" where
  "in_procedure (Create c) = False"
| "in_procedure Start = False"
| "in_procedure Schedule = False"
| "in_procedure (Call c) = True"
| "in_procedure (Kill i) = True"
| "in_procedure Return = True"
| "in_procedure (Irq i) = True"

text \<open>Each task procedure is some run that ends with the procedure left; which one may depend on the state.\<close>

definition runs_tasks :: "config \<Rightarrow> (nat \<Rightarrow> proc) \<Rightarrow> bool" where
  "runs_tasks cfg procs \<longleftrightarrow> (\<forall>f s. reachable cfg (True, s) \<longrightarrow>
     (\<exists>as s'. procs f s = Inr s' \<and> list_all in_procedure as \<and> acts cfg as (True, s) = Some (False, s')))"

text \<open>Between two rounds there are only interrupts: the ticks of another thread, as the comment on
  \<open>os_start_locking\<close> has it.\<close>

definition interrupts_only :: "config \<Rightarrow> proc \<Rightarrow> bool" where
  "interrupts_only cfg p \<longleftrightarrow> (\<forall>s. reachable cfg (False, s) \<longrightarrow>
     (\<exists>is s'. p s = Inr s' \<and> acts cfg (map Irq is) (False, s) = Some (False, s')))"

lemma interrupts_none: "interrupts_only cfg Inr"
  unfolding interrupts_only_def by (metis acts.simps(1) list.map(1))

section \<open>The loop\<close>

lemma in_procedure_kept:
  assumes "step cfg a x y" and "in_procedure a" and "os_inv cfg (snd x)"
  shows "nTasks (os_tasks (snd y)) = nTasks (os_tasks (snd x)) \<and> os_running (snd y) = os_running (snd x)"
  using assms(1)
proof cases
  case (call c s ctl s')
  then show ?thesis using okeepsD [OF okeeps_task_call _ call(4)] assms(3) by (simp add: os_kept_def os_running_def)
next
  case (kill i s s')
  then show ?thesis using kill_kept [OF _ kill(4)] assms(3) by (simp add: os_running_def)
next
  case (irq i s s' b)
  then show ?thesis using okeepsD [OF okeeps_irq _ irq(4)] assms(3) by (simp add: os_kept_def os_running_def)
qed (use assms(2) in simp_all)

lemma procedure_run_kept:
  assumes "limits_ok cfg"
  shows "reachable cfg x \<Longrightarrow> list_all in_procedure as \<Longrightarrow> acts cfg as x = Some y \<Longrightarrow>
    reachable cfg y \<and> nTasks (os_tasks (snd y)) = nTasks (os_tasks (snd x)) \<and> os_running (snd y) = os_running (snd x)"
proof (induction as arbitrary: x)
  case (Cons a as)
  then obtain z where z: "act cfg a x = Some z" "acts cfg as z = Some y" by (auto split: option.splits)
  have st: "step cfg a x z" using z(1) by (simp add: step_act)
  have "os_inv cfg (snd x)" using run_invD(1) [of cfg "fst x" "snd x"] reachable_run_inv [OF Cons.prems(1) assms] by simp
  then show ?case
    using in_procedure_kept [OF st] Cons.prems(2) Cons.IH [OF reachable.step [OF Cons.prems(1) st] _ z(2)] by simp
qed simp

text \<open>The state between two rounds.\<close>

definition between :: "config \<Rightarrow> os \<Rightarrow> bool" where
  "between cfg s \<longleftrightarrow> reachable cfg (False, s) \<and> os_running s \<noteq> 0 \<and> (ROUND_ROBIN cfg \<longrightarrow> 0 < nTasks (os_tasks s))"

lemma between_run:
  assumes "limits_ok cfg" and "between cfg s" and "reachable cfg (b, s1)" and "list_all in_procedure as"
    and "acts cfg as (b, s1) = Some (False, s2)" and "nTasks (os_tasks s1) = nTasks (os_tasks s)" and "os_running s1 = os_running s"
  shows "between cfg s2"
  using procedure_run_kept [OF assms(1,3-5)] assms(2,6,7) by (simp add: between_def)

lemma between_interrupts:
  assumes "limits_ok cfg" and "interrupts_only cfg p" and "between cfg s"
  obtains s' where "p s = Inr s'" "between cfg s'"
proof -
  have r: "reachable cfg (False, s)" using assms(3) by (simp add: between_def)
  then obtain "is" s' where s': "p s = Inr s'" "acts cfg (map Irq is) (False, s) = Some (False, s')"
    using assms(2) unfolding interrupts_only_def by blast
  have "list_all in_procedure (map Irq is)" by (simp add: list_all_iff)
  from between_run [OF assms(1,3) r this s'(2)] s'(1) show ?thesis using that by simp
qed

lemma between_schedule:
  assumes "limits_ok cfg" and "runs_tasks cfg procs" and "between cfg s"
  obtains s' where "os_schedule cfg procs s = Inr s'" "between cfg s'"
proof -
  have r: "reachable cfg (False, s)" "os_running s \<noteq> 0" "ROUND_ROBIN cfg \<longrightarrow> 0 < nTasks (os_tasks s)"
    using assms(3) by (simp_all add: between_def)
  have inv: "os_inv cfg s" by (rule run_invD(1) [OF reachable_run_inv [OF r(1) assms(1)]])
  have n: "ROUND_ROBIN cfg \<longrightarrow> 0 < unat (nTasks (os_tasks s))" using r(3) by (simp add: word_less_nat_alt)
  note ok = os_schedule_ok [OF inv n]
  obtain tid t where t: "os_select_task cfg (os_tasks s) = Inr (tid, t)" "nTasks t = nTasks (os_tasks s)"
    "tid = NO_TID \<and> os_schedule cfg procs s = Inr (set_running_tid NO_TID (s\<lparr>os_tasks := t\<rparr>)) \<or>
     tid < nTasks (os_tasks s) \<and> os_schedule cfg procs s =
       procs (tcb_taskproc (task_list (os_tasks s) ! unat tid)) (set_running_tid (ucast tid) (s\<lparr>os_tasks := t\<rparr>))"
    by (rule ok [of procs]) blast
  let ?s1 = "set_running_tid (ucast tid) (s\<lparr>os_tasks := t\<rparr>)"
  have sch: "os_schedule cfg (\<lambda>f s. Inr s) s = Inr ?s1"
    by (rule ok [of "\<lambda>f s. Inr s"]) (use t(1) in auto)
  have same: "nTasks (os_tasks ?s1) = nTasks (os_tasks s)" "os_running ?s1 = os_running s"
    using t(2) by (simp_all add: set_running_tid_def os_running_def)
  have go: "reachable cfg (os_get_running_tid ?s1 \<noteq> NO_TID, ?s1)"
    by (rule reachable.step [OF r(1) step.schedule [OF r(2,3) sch]])
  from t(3) show ?thesis
  proof
    assume c: "tid = NO_TID \<and> os_schedule cfg procs s = Inr (set_running_tid NO_TID (s\<lparr>os_tasks := t\<rparr>))"
    then have "os_get_running_tid ?s1 = NO_TID" by (simp add: os_get_running_tid_def set_running_tid_def)
    then have "between cfg ?s1" using go r(2,3) same by (simp add: between_def)
    then show ?thesis using that c by simp
  next
    assume c: "tid < nTasks (os_tasks s) \<and> os_schedule cfg procs s = procs (tcb_taskproc (task_list (os_tasks s) ! unat tid)) ?s1"
    then have "unat tid < 255" using task_inv_bounds(2) [OF os_invD(1) [OF inv]] by (simp add: word_less_nat_alt)
    then have "tid \<noteq> NO_TID" by auto
    then have "os_get_running_tid ?s1 \<noteq> NO_TID" by (simp add: os_get_running_tid_def set_running_tid_def ucast_u8_255)
    then have go: "reachable cfg (True, ?s1)" using go by simp
    then obtain as s' where s': "os_schedule cfg procs s = Inr s'" "list_all in_procedure as" "acts cfg as (True, ?s1) = Some (False, s')"
      using assms(2) c unfolding runs_tasks_def by metis
    from between_run [OF assms(1,3) go s'(2,3) same] that s'(1) show ?thesis by blast
  qed
qed

lemma between_rounds:
  assumes "limits_ok cfg" and "runs_tasks cfg procs" and "interrupts_only cfg lock" and "interrupts_only cfg unlock"
  shows "between cfg s \<Longrightarrow> \<exists>s'. iterR k (\<lambda>s. bindR (lock s) (\<lambda>s. bindR (os_schedule cfg procs s) unlock)) s = Inr s' \<and> between cfg s'"
proof (induction k arbitrary: s)
  case (Suc k)
  obtain s1 where s1: "lock s = Inr s1" "between cfg s1" by (rule between_interrupts [OF assms(1,3) Suc.prems])
  obtain s2 where s2: "os_schedule cfg procs s1 = Inr s2" "between cfg s2" by (rule between_schedule [OF assms(1,2) s1(2)])
  obtain s3 where s3: "unlock s2 = Inr s3" "between cfg s3" by (rule between_interrupts [OF assms(1,4) s2(2)])
  show ?case using Suc.IH [OF s3(2)] s1(1) s2(1) s3(1) by simp
qed simp

lemma start_between:
  "reachable cfg (False, s) \<Longrightarrow> os_running s = 0 \<Longrightarrow> (ROUND_ROBIN cfg \<longrightarrow> 0 < nTasks (os_tasks s)) \<Longrightarrow>
    between cfg (s\<lparr>os_kern := (os_kern s)\<lparr>running := 1\<rparr>\<rparr>)"
  using reachable.step [OF _ step.start, of cfg s] by (simp add: between_def os_running_def)

section \<open>Property\<close>

text \<open>C10: the loops of \<open>os_start\<close> and \<open>os_start_locking\<close> are runs of the transition system. Let every task
  procedure be some sequence of calls and interrupts that leaves the procedure, whatever the state, and let
  the lock functions do nothing to the kernel but let interrupts in. From a reachable state with the kernel not yet started,
  both loops return after their rounds, without a fault, in a reachable state (so that what holds in every
  reachable state holds then), with the kernel running and no procedure executed.\<close>

theorem os_start_is_run:
  assumes "reachable cfg (False, s)" and "limits_ok cfg" and "os_running s = 0" and "ROUND_ROBIN cfg \<longrightarrow> 0 < nTasks (os_tasks s)"
    and "runs_tasks cfg procs" and "interrupts_only cfg lock" and "interrupts_only cfg unlock"
    and "limit \<noteq> 0" and "limit \<noteq> - 1" and "unat limit + 2 \<le> fuel"
  shows "(\<exists>s'. os_start fuel cfg procs limit s = Inr s' \<and> reachable cfg (False, s') \<and> os_running s' \<noteq> 0) \<and>
    (\<exists>s'. os_start_locking fuel cfg procs limit lock unlock s = Inr s' \<and> reachable cfg (False, s') \<and> os_running s' \<noteq> 0)"
proof -
  note b = start_between [OF assms(1,3,4)]
  have "(\<lambda>s. bindR (Inr s) (\<lambda>s. bindR (os_schedule cfg procs s) Inr)) = os_schedule cfg procs"
    by (rule ext) (simp add: bindR_def split: sum.splits)
  then show ?thesis
    using between_rounds [OF assms(2,5) interrupts_none interrupts_none b, of "unat limit + 1"]
      between_rounds [OF assms(2,5-7) b, of "unat limit + 1"]
    unfolding os_start_def os_start_locking_def os_enable_interrupts_def start_loop_rounds [OF assms(8-10)] between_def by auto
qed

text \<open>Tasks that yield, with a tick before every round.\<close>

definition demo_yields :: "nat \<Rightarrow> proc" where
  "demo_yields f s = bindR (OS_YIELD 5 s) (\<lambda>r. Inr (snd r))"

theorem os_start_is_run_witness:
  "\<exists>s s'. acts demo_cfg [Create (Create_task 1 0 3 [] 0 0), Create (Create_task 1 0 5 [] 0 0)] demo_init = Some (False, s) \<and>
     os_start_locking 5 demo_cfg demo_yields 3 (os_tick demo_cfg) Inr s = Inr s' \<and> reachable demo_cfg (False, s')"
proof -
  let ?as = "[Create (Create_task 1 0 3 [] 0 0), Create (Create_task 1 0 5 [] 0 0)]"
  have "case acts demo_cfg ?as demo_init of Some (b, s) \<Rightarrow> \<not> b \<and> os_running s = 0 | None \<Rightarrow> False" by code_simp
  from some_case [OF this] obtain s where s: "acts demo_cfg ?as demo_init = Some (False, s)" "os_running s = 0" by auto
  have "runs_tasks demo_cfg demo_yields"
    unfolding runs_tasks_def
  proof (intro allI impI)
    fix f s assume r: "reachable demo_cfg (True, s)"
    note inv = run_invD(1,2,3) [OF reachable_run_inv [OF r demo_limits]]
    obtain s' where "OS_YIELD 5 s = Inr (Returns, s')" using yield_never_stuck(1) [OF inv(1,2)] inv(3) by blast
    then show "\<exists>as s'. demo_yields f s = Inr s' \<and> list_all in_procedure as \<and> acts demo_cfg as (True, s) = Some (False, s')"
      by (intro exI [of _ "[Call (Yield 5)]"]) (simp add: demo_yields_def)
  qed
  moreover have "interrupts_only demo_cfg (os_tick demo_cfg)"
    unfolding interrupts_only_def
  proof (intro allI impI)
    fix s assume r: "reachable demo_cfg (False, s)"
    obtain s' where "task_tick demo_cfg 0 1 s = Inr s'"
      by (rule task_tick_ok [OF run_invD(1) [OF reachable_run_inv [OF r demo_limits]], of 0 1]) blast
    then have "os_tick demo_cfg s = Inr s'" by (simp add: os_tick_def)
    then show "\<exists>is s'. os_tick demo_cfg s = Inr s' \<and> acts demo_cfg (map Irq is) (False, s) = Some (False, s')"
      by (intro exI [of _ "[Tick]"] exI [of _ s']) simp
  qed
  moreover have "ROUND_ROBIN demo_cfg \<longrightarrow> 0 < nTasks (os_tasks s)" by simp
  ultimately show ?thesis
    using os_start_is_run [OF demo_reach [OF s(1)] demo_limits s(2) _ _ _ interrupts_none, of demo_yields "os_tick demo_cfg" 3 5] s(1)
    by auto
qed

end
