(* ===== verification/Os_Mutex.thy ===== *)
theory Os_Mutex
  imports Os_Runs
begin

text \<open>
  What a semaphore is for: a task that has taken it holds it until it signals it. In any run in which only
  holders signal, there are never more holders than the value the semaphore had; a semaphore of value 1 excludes
  all others.
\<close>

section \<open>Taking and giving back\<close>

fun signals :: "u16 \<Rightarrow> action \<Rightarrow> bool" where
  "signals sem (Call (Signal_sem line m)) = (m = sem)"
| "signals sem (Irq (Isr_sem m)) = (m = sem)"
| "signals sem a = False"

text \<open>The waiters that are ready afterwards.\<close>

definition released :: "u16 \<Rightarrow> os \<Rightarrow> os \<Rightarrow> nat set" where
  "released sem s s' = set (filter (\<lambda>i. waiting_this_sem sem (task_list (os_tasks s) ! i) \<and>
     tcb_state (task_list (os_tasks s') ! i) = READY) [0..<unat (nTasks (os_tasks s))])"

text \<open>The tasks that take the semaphore in a step: the task whose \<open>sem_wait\<close> goes on, or the waiter that a signal
  makes ready.\<close>

definition takes :: "u16 \<Rightarrow> action \<Rightarrow> bool \<times> os \<Rightarrow> bool \<times> os \<Rightarrow> nat set" where
  "takes sem a x y = (case a of
       Call (Wait_sem line m) \<Rightarrow> if m = sem \<and> fst y then {unat (self_tid (snd x))} else {}
     | _ \<Rightarrow> if signals sem a then released sem (snd x) (snd y) else {})"

text \<open>A run in which only the holders of the semaphore signal it (no interrupt does), and who holds it then.\<close>

fun by_task :: "action \<Rightarrow> bool" where
  "by_task (Call c) = True"
| "by_task a = False"

fun critical :: "config \<Rightarrow> u16 \<Rightarrow> action list \<Rightarrow> nat set \<Rightarrow> bool \<times> os \<Rightarrow> (nat set \<times> bool \<times> os) option" where
  "critical cfg sem [] H x = Some (H, x)"
| "critical cfg sem (a # as) H x =
     (if signals sem a \<and> \<not> (by_task a \<and> unat (self_tid (snd x)) \<in> H) then None
      else case act cfg a x of None \<Rightarrow> None
      | Some y \<Rightarrow> critical cfg sem as ((if signals sem a then H - {unat (self_tid (snd x))} else H) \<union> takes sem a x y) y)"

section \<open>The value of a semaphore in a step\<close>

lemma sem_no_other: "sem_index m = Inr k \<Longrightarrow> sem_handle sm sem \<Longrightarrow> m \<noteq> sem \<Longrightarrow> k \<noteq> sem_no sem"
  using sem_no_inj [of m sem] by (auto simp: sem_index_def sem_no_def sem_handle_def split: if_split_asm)

lemma sem_update_same:
  assumes "os_sem_increment cfg m sm = Inr sm' \<or> os_sem_decrement cfg m sm = Inr sm'" and "sem_handle sm sem"
  shows "sem_handle sm' sem" and "m \<noteq> sem \<Longrightarrow> sem_val sem sm' = sem_val sem sm"
proof -
  have "nSemaphores sm' = nSemaphores sm"
    using assms(1) by (auto simp: os_sem_increment_def os_sem_decrement_def res_simps split: if_split_asm)
  then show "sem_handle sm' sem" using assms(2) by (simp add: sem_handle_def)
  have "sm' = sm \<or> (\<exists>k v. sem_index m = Inr k \<and> k < length (semList sm) \<and> semList sm' = (semList sm)[k := v])"
    using assms(1) sem_update_cases by blast
  then show "m \<noteq> sem \<Longrightarrow> sem_val sem sm' = sem_val sem sm" using sem_no_other [OF _ assms(2)] by (auto simp: sem_val_def)
qed

text \<open>What a step may do to the semaphore and its holders.\<close>

definition gives :: "u16 \<Rightarrow> action \<Rightarrow> bool \<times> os \<Rightarrow> bool \<times> os \<Rightarrow> bool" where
  "gives sem a x y \<longleftrightarrow> sem_handle (os_sems (snd y)) sem \<and>
     card (takes sem a x y) + sem_val sem (os_sems (snd y)) \<le> sem_val sem (os_sems (snd x)) + (if signals sem a then 1 else 0)"

lemma finite_takes: "finite (takes sem a x y)"
  by (simp add: takes_def released_def split: action.split kcall.split)

lemma gives_same:
  "sem_handle (os_sems (snd x)) sem \<Longrightarrow> os_sems (snd y) = os_sems (snd x) \<Longrightarrow> takes sem a x y = {} \<Longrightarrow> gives sem a x y"
  by (simp add: gives_def)

lemma gives_wait:
  assumes "os_inv cfg s" and "sem_handle (os_sems s) sem" and "OS_WAIT_SEM cfg n m s = Inr (c, s')"
  shows "gives sem (Call (Wait_sem n m)) (b, s) (c = Goes_on, s')"
proof -
  from assms(3) obtain positive where p: "os_sem_larger_than_zero cfg m (os_sems s) = Inr positive"
    "(if positive then bindR (on_sems (os_sem_decrement cfg m) s) (\<lambda>s. Inr (Goes_on, s))
      else bindR (on_tasks (task_wait_sem_set (self_tid s) m) s) (OS_YIELD n)) = Inr (c, s')"
    by (auto simp: OS_WAIT_SEM_def bindR_eq_Inr)
  show ?thesis
  proof (cases positive)
    case True
    then obtain sm where sm: "os_sem_decrement cfg m (os_sems s) = Inr sm" "s' = s\<lparr>os_sems := sm\<rparr>" "c = Goes_on"
      using p(2) by (auto simp: bindR_eq_Inr on_sems_eq_Inr)
    note same = sem_update_same [OF disjI2 [OF sm(1)] assms(2)]
    show ?thesis
    proof (cases "m = sem")
      case eq: True
      note si = os_invD(2) [OF assms(1)]
      have "0 < sem_val sem (os_sems s)"
        using p(1) True eq sem_handleD [OF assms(2) si] by (simp add: os_sem_larger_than_zero_def sem_val_def word_less_nat_alt)
      moreover have "sem_val sem sm = sem_val sem (os_sems s) - 1"
        by (rule os_sem_decrement_valid [OF si assms(2)]) (use sm(1) eq in simp)
      ultimately show ?thesis using same(1) sm eq by (simp add: gives_def takes_def)
    next
      case False
      then show ?thesis using same sm(2) by (simp add: gives_def takes_def)
    qed
  next
    case False
    then have "os_sems s' = os_sems s \<and> c = Returns"
      using p(2) by (auto simp: bindR_eq_Inr on_tasks_eq_Inr OS_YIELD_def os_free_tid_def set_running_tid_def)
    then show ?thesis using assms(2) by (intro gives_same) (simp_all add: takes_def)
  qed
qed

text \<open>A signal of the semaphore in two stages: the counter or the release, then at most a yield.\<close>

lemma signal_gives:
  assumes "os_inv cfg s" and "sem_handle (os_sems s) sem"
    and "OS_SIGNAL_SEM_NO_SCHEDULE cfg m s = Inr s1"
    and "os_sems s' = os_sems s1" and "\<forall>i. tcb_state (task_list (os_tasks s') ! i) = tcb_state (task_list (os_tasks s1) ! i)"
  shows "sem_handle (os_sems s') sem" and "m \<noteq> sem \<Longrightarrow> sem_val sem (os_sems s') = sem_val sem (os_sems s)"
    and "m = sem \<Longrightarrow> card (released sem s s') + sem_val sem (os_sems s') \<le> Suc (sem_val sem (os_sems s))"
proof -
  note ti = os_invD(1) [OF assms(1)] and si = os_invD(2) [OF assms(1)]
  have cases: "(\<forall>i. \<not> waiter m (os_tasks s) i) \<and> (\<exists>sm. os_sem_increment cfg m (os_sems s) = Inr sm \<and> s1 = s\<lparr>os_sems := sm\<rparr>) \<or>
      (\<exists>t. os_task_release_waiting_task cfg m (os_tasks s) = Inr t \<and> s1 = s\<lparr>os_tasks := t\<rparr>)"
    using assms(3) waiting_this_semaphore_iff [OF ti, of m]
    by (auto simp: OS_SIGNAL_SEM_NO_SCHEDULE_def on_sems_eq_Inr on_tasks_eq_Inr split: if_split_asm)
  show "sem_handle (os_sems s') sem" "m \<noteq> sem \<Longrightarrow> sem_val sem (os_sems s') = sem_val sem (os_sems s)"
    using cases sem_update_same [OF disjI1 assms(2)] assms(2,4) by auto
  assume eq: "m = sem"
  have rel: "i \<in> released sem s s' \<longleftrightarrow> waiter sem (os_tasks s) i \<and> tcb_state (task_list (os_tasks s') ! i) = READY" for i
    by (auto simp: released_def waiter_def)
  show "card (released sem s s') + sem_val sem (os_sems s') \<le> Suc (sem_val sem (os_sems s))"
    using cases
  proof
    assume c: "(\<forall>i. \<not> waiter m (os_tasks s) i) \<and> (\<exists>sm. os_sem_increment cfg m (os_sems s) = Inr sm \<and> s1 = s\<lparr>os_sems := sm\<rparr>)"
    then have "released sem s s' = {}" using eq rel by auto
    moreover have "sem_val sem (os_sems s') \<le> Suc (sem_val sem (os_sems s))"
      by (rule os_sem_increment_valid [OF si assms(2)]) (use c eq assms(4) in auto)
    ultimately show ?thesis by simp
  next
    assume "\<exists>t. os_task_release_waiting_task cfg m (os_tasks s) = Inr t \<and> s1 = s\<lparr>os_tasks := t\<rparr>"
    then obtain t where t: "os_task_release_waiting_task cfg m (os_tasks s) = Inr t" "s1 = s\<lparr>os_tasks := t\<rparr>" by blast
    have "\<exists>j. released sem s s' \<subseteq> {j}"
    proof (cases "\<exists>j. releasable cfg m (os_tasks s) j")
      case True
      then obtain i j where "os_task_release_waiting_task cfg m (os_tasks s) = Inr (with_ready i (os_tasks s))"
        using release_some [OF ti] by blast
      then have "os_tasks s1 = with_ready i (os_tasks s)" using t by simp
      then have "j = i" if "j \<in> released sem s s'" for j
        using that assms(5) rel [of j] by (cases "j = i") (auto simp: with_ready_def waiter_def waiting_this_sem_def)
      then show ?thesis by blast
    next
      case False
      then have "os_tasks s1 = os_tasks s" using t release_none [OF ti] by auto
      then have "released sem s s' = {}" using assms(5) rel by (auto simp: waiter_def waiting_this_sem_def)
      then show ?thesis by simp
    qed
    then obtain j where "released sem s s' \<subseteq> {j}" by blast
    then have "card (released sem s s') \<le> 1" using card_mono [of "{j}"] by simp
    then show ?thesis using t(2) assms(4) by simp
  qed
qed

lemma yield_same:
  assumes "OS_YIELD n s = Inr (c, s')"
  shows "os_sems s' = os_sems s \<and> (\<forall>i. tcb_state (task_list (os_tasks s') ! i) = tcb_state (task_list (os_tasks s) ! i))"
proof -
  from assms obtain t where t: "os_task_internal_state_set (self_tid s) (of_nat n) (os_tasks s) = Inr t"
    "s' = os_free_tid (s\<lparr>os_tasks := t\<rparr>)"
    by (auto simp: OS_YIELD_def on_tasks_eq_Inr bindR_eq_Inr)
  have "tcb_state (task_list t ! i) = tcb_state (task_list (os_tasks s) ! i)" for i
    using t(1) by (cases "i = unat (self_tid s)") (auto simp: os_task_internal_state_set_def res_simps split: if_split_asm)
  then show ?thesis using t(2) by (simp add: os_free_tid_def set_running_tid_def)
qed

lemma gives_signal_sem:
  assumes "os_inv cfg s" and "sem_handle (os_sems s) sem" and "OS_SIGNAL_SEM cfg n m s = Inr (c, s')"
  shows "gives sem (Call (Signal_sem n m)) (b, s) (c = Goes_on, s')"
proof -
  from assms(3) obtain s1 where s1: "OS_SIGNAL_SEM_NO_SCHEDULE cfg m s = Inr s1" "s' = s1 \<or> OS_YIELD n s1 = Inr (c, s')"
    by (auto simp: OS_SIGNAL_SEM_def OS_SIGNAL_SEM_NO_SCHEDULE_def bindR_eq_Inr split: if_split_asm)
  have "os_sems s' = os_sems s1 \<and> (\<forall>i. tcb_state (task_list (os_tasks s') ! i) = tcb_state (task_list (os_tasks s1) ! i))"
    using s1(2) yield_same by blast
  then show ?thesis
    using signal_gives [OF assms(1,2) s1(1), of s'] by (cases "m = sem") (simp_all add: gives_def takes_def)
qed

lemma gives_isr_sem:
  assumes "os_inv cfg s" and "sem_handle (os_sems s) sem" and "OS_SIGNAL_SEM_NO_SCHEDULE cfg m s = Inr s'"
  shows "gives sem (Irq (Isr_sem m)) (b, s) (b, s')"
  using signal_gives [OF assms, of s'] by (cases "m = sem") (simp_all add: gives_def takes_def)

lemma gives_call:
  assumes "os_inv cfg s" and "sem_handle (os_sems s) sem" and "task_call cfg c s = Inr (ctl, s')"
  shows "gives sem (Call c) (b, s) (ctl = Goes_on, s')"
proof -
  from sem_rel_task_call [of c cfg] consider n m where "c = Wait_sem n m" | n m where "c = Signal_sem n m"
    | "gives_up (call_line c) (\<lambda>me. sem_rel) True (\<lambda>r. r) (task_call cfg c)" "\<nexists>n m. c = Wait_sem n m \<or> c = Signal_sem n m" by blast
  then show ?thesis
  proof cases
    case 1
    then show ?thesis using gives_wait [OF assms(1,2)] assms(3) by simp
  next
    case 2
    then show ?thesis using gives_signal_sem [OF assms(1,2)] assms(3) by simp
  next
    case 3
    have "os_sems s' = os_sems s" using gives_upD [OF 3(1) assms(3)] by (simp add: ended_def)
    moreover have "takes sem (Call c) x y = {}" for x y using 3(2) by (cases c) (simp_all add: takes_def)
    ultimately show ?thesis using assms(2) by (intro gives_same) simp_all
  qed
qed

lemma gives_irq:
  assumes "os_inv cfg s" and "sem_handle (os_sems s) sem" and "irq_call cfg i s = Inr s'"
  shows "gives sem (Irq i) (b, s) (b, s')"
proof -
  from sem_rel_irq [of i cfg] consider m where "i = Isr_sem m" | "quiet (\<lambda>me. sem_rel) True (irq_call cfg i)" "\<nexists>m. i = Isr_sem m" by blast
  then show ?thesis
  proof cases
    case 1
    then show ?thesis using gives_isr_sem [OF assms(1,2)] assms(3) by simp
  next
    case 2
    have "os_sems s' = os_sems s" using quietD [OF 2(1) assms(3)] by (simp add: undisturbed_def)
    moreover have "takes sem (Irq i) x y = {}" for x y using 2(2) by (cases i) (simp_all add: takes_def)
    ultimately show ?thesis using assms(2) by (intro gives_same) simp_all
  qed
qed

section \<open>Runs\<close>

text \<open>A started kernel with the semaphore created.\<close>

definition with_sem :: "config \<Rightarrow> u16 \<Rightarrow> bool \<times> os \<Rightarrow> bool" where
  "with_sem cfg sem x \<longleftrightarrow> run_inv cfg x \<and> os_running (snd x) \<noteq> 0 \<and> sem_handle (os_sems (snd x)) sem"

lemma step_gives:
  assumes "step cfg a x y" and "with_sem cfg sem x" and "limits_ok cfg"
  shows "gives sem a x y \<and> with_sem cfg sem y"
proof -
  have x: "run_inv cfg x" "os_running (snd x) \<noteq> 0" "sem_handle (os_sems (snd x)) sem" using assms(2) by (simp_all add: with_sem_def)
  have inv: "os_inv cfg (snd x)" using run_invD(1) [of cfg "fst x" "snd x"] x(1) by simp
  from assms(1) have "gives sem a x y \<and> os_running (snd y) = os_running (snd x)"
  proof cases
    case (schedule s s')
    have "os_inv cfg s" using inv schedule by simp
    from schedule_result [OF this schedule(5,6)] obtain tid t where "s' = set_running_tid tid (s\<lparr>os_tasks := t\<rparr>)" by blast
    then show ?thesis using schedule x(3) gives_same [of x sem y a] by (simp add: takes_def set_running_tid_def os_running_def)
  next
    case (call c s ctl s')
    then show ?thesis using gives_call [of cfg s sem c ctl s' True] okeepsD [OF okeeps_task_call _ call(4)] inv x(3)
      by (simp add: os_kept_def os_running_def)
  next
    case (kill i s s')
    have "os_sems s' = os_sems s \<and> os_kern s' = os_kern s"
      by (rule kill_result [OF kill(4)]) simp
    then show ?thesis using kill x(3) gives_same [of x sem y a] by (simp add: takes_def os_running_def)
  next
    case (return s)
    then show ?thesis using x(3) gives_same [of x sem y a] by (simp add: takes_def)
  next
    case (irq i s s' b)
    then show ?thesis using gives_irq [of cfg s sem i s' b] okeepsD [OF okeeps_irq _ irq(4)] inv x(3)
      by (simp add: os_kept_def os_running_def)
  qed (use x(2) in simp_all)
  then show ?thesis using step_run_inv [OF assms(1) x(1) assms(3)] x(2) by (simp add: with_sem_def gives_def)
qed

lemma critical_bound:
  assumes "limits_ok cfg"
  shows "critical cfg sem as H x = Some (H', y) \<Longrightarrow> with_sem cfg sem x \<Longrightarrow> finite H \<Longrightarrow> card H + sem_val sem (os_sems (snd x)) \<le> n \<Longrightarrow>
    finite H' \<and> card H' + sem_val sem (os_sems (snd y)) \<le> n"
proof (induction as arbitrary: H x)
  case (Cons a as)
  let ?me = "unat (self_tid (snd x))"
  from Cons.prems(1) obtain z where z: "act cfg a x = Some z" "signals sem a \<longrightarrow> ?me \<in> H"
    "critical cfg sem as ((if signals sem a then H - {?me} else H) \<union> takes sem a x z) z = Some (H', y)"
    by (auto split: if_split_asm option.splits)
  let ?H = "if signals sem a then H - {?me} else H"
  note g = step_gives [OF step_act [THEN iffD2, OF z(1)] Cons.prems(2) assms]
  have "card ?H + (if signals sem a then 1 else 0) = card H"
    using z(2) Cons.prems(3) card_Suc_Diff1 [of H ?me] by simp
  moreover have "card (?H \<union> takes sem a x z) \<le> card ?H + card (takes sem a x z)" by (rule card_Un_le)
  ultimately have "card (?H \<union> takes sem a x z) + sem_val sem (os_sems (snd z)) \<le> n"
    using g Cons.prems(4) by (simp add: gives_def)
  from Cons.IH [OF z(3) _ _ this] g Cons.prems(3) finite_takes show ?case by simp
qed simp

section \<open>Property\<close>

text \<open>C12: a semaphore protects a resource. Start from a reachable state of the running kernel, with a
  semaphore that has been created and is held by nobody. In any run (whatever else the tasks call, however the interrupts come
  and the scheduler chooses) in which only a task that holds the semaphore signals it, there are never more
  holders than the value the semaphore had at the start; with the value 1 at most one task holds it.\<close>

theorem semaphore_excludes:
  assumes "reachable cfg x" and "limits_ok cfg" and "os_running (snd x) \<noteq> 0" and "sem_handle (os_sems (snd x)) sem"
    and "critical cfg sem as {} x = Some (H, y)"
  shows "card H + sem_val sem (os_sems (snd y)) \<le> sem_val sem (os_sems (snd x)) \<and>
    (sem_val sem (os_sems (snd x)) = 1 \<longrightarrow> (\<forall>i \<in> H. \<forall>j \<in> H. i = j))"
proof -
  have "with_sem cfg sem x" using reachable_run_inv [OF assms(1,2)] assms(3,4) by (simp add: with_sem_def)
  from critical_bound [OF assms(2,5) this, of "sem_val sem (os_sems (snd x))"]
  have H: "finite H" "card H + sem_val sem (os_sems (snd y)) \<le> sem_val sem (os_sems (snd x))" by simp_all
  moreover have "i = j" if "sem_val sem (os_sems (snd x)) = 1" "i \<in> H" "j \<in> H" for i j
    using card_le_Suc0_iff_eq [OF H(1)] H(2) that by simp
  ultimately show ?thesis by blast
qed

text \<open>Task 0 takes the semaphore and lets task 1 run, which then waits for it, until task 0 hands it over.\<close>

definition demo_lock :: "action list" where
  "demo_lock = [Create (Create_task 1 0 3 [] 0 0), Create (Create_task 1 0 5 [] 0 0), Create (Create_sem 1 1), Start]"

definition demo_hand_over :: "action list" where
  "demo_hand_over = [Schedule, Call (Wait_sem 10 0), Call (Wait_ticks 11 1 0), Schedule, Call (Wait_sem 20 0), Irq Tick,
     Schedule, Call (Signal_sem 12 0)]"

theorem semaphore_excludes_witness:
  "\<exists>x y. acts demo_cfg demo_lock demo_init = Some x \<and> critical demo_cfg 0 demo_hand_over {} x = Some ({1}, y) \<and>
     sem_val 0 (os_sems (snd y)) = 0"
proof -
  have "case acts demo_cfg demo_lock demo_init of Some x \<Rightarrow> os_running (snd x) \<noteq> 0 \<and> sem_handle (os_sems (snd x)) 0 \<and>
      sem_val 0 (os_sems (snd x)) = 1 \<and> (case critical demo_cfg 0 demo_hand_over {} x of Some (H, y) \<Rightarrow> H = {1} | None \<Rightarrow> False)
    | None \<Rightarrow> False"
    by code_simp
  then obtain x y where x: "acts demo_cfg demo_lock demo_init = Some x" "os_running (snd x) \<noteq> 0" "sem_handle (os_sems (snd x)) 0"
    "sem_val 0 (os_sems (snd x)) = 1" "critical demo_cfg 0 demo_hand_over {} x = Some ({1}, y)"
    by (auto split: option.splits)
  have "sem_val 0 (os_sems (snd y)) = 0"
    using semaphore_excludes [OF demo_reach [OF x(1)] demo_limits x(2,3,5)] x(4) by simp
  with x(1,5) show ?thesis by blast
qed

end
