(* ===== verification/Os_Assert.thy ===== *)
theory Os_Assert
  imports Os_Prelude
begin

text \<open>
  Failed assertions, \<open>os_assert.c\<close> and \<open>os_assert.h\<close>: the callback of the user is called, then the function
  loops for ever. Hence the faults of the development: behind a failed \<open>os_assert\<close> nothing is executed.
\<close>

section \<open>The failure handler\<close>

text \<open>The callback may change anything the program can see, a state of some type \<open>'w\<close>.\<close>

type_synonym 'w user_callback = "string \<Rightarrow> u16 \<Rightarrow> string \<Rightarrow> 'w \<Rightarrow> 'w"

definition os_on_assert_attach_callback :: "'w user_callback option \<Rightarrow> 'w user_callback option \<Rightarrow> 'w user_callback option" where
  "os_on_assert_attach_callback callback user_callback = callback"

text \<open>\<open>while(1);\<close>\<close>

partial_function (option) endless_loop :: "'w \<Rightarrow> 'w option" where
  "endless_loop w = endless_loop w"

text \<open>The static copy of the line is never read.\<close>

definition os_on_assert :: "'w user_callback option \<Rightarrow> string \<Rightarrow> u16 \<Rightarrow> string \<Rightarrow> 'w \<Rightarrow> 'w option" where
  "os_on_assert user_callback file line expr w =
     (let w = os_disable_interrupts w in
      endless_loop (case user_callback of Some f \<Rightarrow> f file line expr w | None \<Rightarrow> w))"

text \<open>The statement \<open>os_assert( test )\<close> in front of the rest of a function; the macro returns after the handler.\<close>

definition os_assert_macro :: "'w user_callback option \<Rightarrow> string \<Rightarrow> u16 \<Rightarrow> bool \<Rightarrow> string \<Rightarrow> ('w \<Rightarrow> 'w option) \<Rightarrow> 'w \<Rightarrow> 'w option" where
  "os_assert_macro user_callback file line test expr rest w =
     (if \<not> test then Option.bind (os_on_assert user_callback file line expr w) Some else rest w)"

section \<open>It does not return\<close>

lemma endless_loop_None: "endless_loop w = None"
proof (cases "endless_loop w")
  case (Some v)
  then have False by (rule endless_loop.raw_induct [rotated]) blast
  then show ?thesis ..
qed

lemma os_on_assert_None: "os_on_assert user_callback file line expr w = None"
  by (simp add: os_on_assert_def endless_loop_None Let_def)

text \<open>So the macro is the fault of the development, to anyone who can only see a result that comes.\<close>

definition seen :: "'a res \<Rightarrow> 'a option" where
  "seen m = (case m of Inr a \<Rightarrow> Some a | Inl _ \<Rightarrow> None)"

lemma os_assert_macro_fault:
  "os_assert_macro user_callback file line test expr (\<lambda>w. seen (rest w)) w = seen (os_assert test expr (rest w))"
  by (simp add: os_assert_macro_def os_on_assert_None os_assert_def seen_def)

end
