(* ===== verification/Os_Msgq_Period.thy ===== *)
theory Os_Msgq_Period
  imports Os_Msgq_Props
begin

text \<open>
  Messages over time: a message posted with a delay is delivered when the delay is over and not before, and one
  posted with a period comes back after every period, as it was posted.
\<close>

section \<open>A message over time\<close>

lemma set_fld_twice: "set_fld (set_fld m i a) i b = set_fld m i b"
  by (rule nth_equalityI) (simp_all add: set_fld_def nth_list_update_if)

lemma set_fld_same:
  assumes "i + 3 < length m"
  shows "set_fld m i (fld m i) = m"
proof -
  have "ucast (fld m i) = m ! i" "ucast (drop_bit 8 (fld m i)) = m ! (i + 1)"
    "ucast (drop_bit 16 (fld m i)) = m ! (i + 2)" "ucast (drop_bit 24 (fld m i)) = m ! (i + 3)"
    by (rule bit_word_eqI; auto simp: fld_def bit_simps dest: bit_imp_le_length)+
  then show ?thesis by (simp add: set_fld_def)
qed

lemma mdelay_set [simp]: "12 \<le> length m \<Longrightarrow> mdelay (set_fld m delay_at d) = d"
  by (simp add: mdelay_def fld_set_same)

lemma mreload_set [simp]: "mreload (set_fld m delay_at d) = mreload m"
  by (simp add: mreload_def fld_set_other)

lemma ticks_down:
  "12 \<le> length m \<Longrightarrow> k \<le> unat (mdelay m) \<Longrightarrow> (ticked ^^ k) m = set_fld m delay_at (mdelay m - of_nat k)"
proof (induction k)
  case 0
  then show ?case by (simp add: mdelay_def set_fld_same)
next
  case (Suc k)
  have "mdelay m - of_nat k \<noteq> 0"
  proof
    assume "mdelay m - of_nat k = 0"
    then have "unat (mdelay m) = k mod 2 ^ 32" by (simp add: unat_of_nat)
    then show False using Suc.prems(2) mod_less_eq_dividend [of k "2 ^ 32"] by linarith
  qed
  then show ?case using Suc by (simp add: ticked_def set_fld_twice algebra_simps)
qed

lemma ticks_over:
  assumes "12 \<le> length m" and "unat (mdelay m) \<le> k"
  shows "(ticked ^^ k) m = set_fld m delay_at 0"
proof -
  have z: "(ticked ^^ j) (set_fld m delay_at 0) = set_fld m delay_at 0" for j
    using assms(1) by (induction j) (simp_all add: ticked_def)
  have "(ticked ^^ k) m = (ticked ^^ (k - unat (mdelay m))) ((ticked ^^ unat (mdelay m)) m)"
    using assms(2) by (metis comp_apply funpow_add le_add_diff_inverse2)
  then show ?thesis using ticks_down [OF assms(1), of "unat (mdelay m)"] z by simp
qed

lemma set_delay_stamped:
  assumes "12 \<le> n" and "n \<le> length msg"
  shows "set_fld (take n (stamped d p msg)) delay_at v = take n (stamped v p msg)"
  by (rule nth_equalityI) (use assms in \<open>simp_all add: stamped_def set_fld_def nth_list_update_if\<close>)

text \<open>A stamped message when its delay is over, and as it is delivered.\<close>

lemma stamped_over:
  assumes "12 \<le> n" and "n \<le> length msg" and "unat d \<le> k"
  shows "(ticked ^^ k) (take n (stamped d p msg)) = take n (stamped 0 p msg)" "delivered (take n (stamped 0 p msg)) = take n (stamped p p msg)"
proof -
  have "12 \<le> length (take n (stamped d p msg))" using assms(1,2) by simp
  from ticks_over [OF this] show "(ticked ^^ k) (take n (stamped d p msg)) = take n (stamped 0 p msg)"
    using stamped_fields(1) [OF assms(1,2)] assms(3) set_delay_stamped [OF assms(1,2)] by simp
  show "delivered (take n (stamped 0 p msg)) = take n (stamped p p msg)"
    using stamped_fields [OF assms(1,2)] set_delay_stamped [OF assms(1,2)] by (simp add: delivered_def word_gt_0)
qed

section \<open>A message with a delay\<close>

text \<open>A post and some ticks.\<close>

lemma post_then_ticks:
  assumes "tickable cfg queue s" and "qm (queue_at (os_msgqs s) queue) \<le> length msg"
    and "length (qmsgs (queue_at (os_msgqs s) queue)) < qn (queue_at (os_msgqs s) queue) - 1"
  obtains m s1 where "os_msg_post cfg msg queue d p (os_msgqs s) = Inr (MSG_QUEUE_POSTED, stamped d p msg, m)"
    "iterR k (os_msgQ_tick cfg queue) (s\<lparr>os_msgqs := m\<rparr>) = Inr s1" "tickable cfg queue s1"
    "qm (queue_at (os_msgqs s1) queue) = qm (queue_at (os_msgqs s) queue)"
    "qmsgs (queue_at (os_msgqs s1) queue) =
      map (ticked ^^ k) (qmsgs (queue_at (os_msgqs s) queue)) @ [(ticked ^^ k) (take (qm (queue_at (os_msgqs s) queue)) (stamped d p msg))]"
proof -
  have t: "msgq_inv cfg (os_msgqs s)" "queue < nQueues (os_msgqs s)"
    "signalable cfg (mq_change (msgQList (os_msgqs s) ! unat queue)) s" using assms(1) by (simp_all add: tickable_def)
  note i = msgq_invD(1) [OF t(1,2)]
  obtain q where q: "os_msg_post cfg msg queue d p (os_msgqs s) = Inr (MSG_QUEUE_POSTED, stamped d p msg, with_queue (os_msgqs s) queue q)"
    "queue_inv q" "qmsgs q = qmsgs (queue_at (os_msgqs s) queue) @ [take (qm (queue_at (os_msgqs s) queue)) (stamped d p msg)]"
    "q_messageSize q = q_messageSize (queue_at (os_msgqs s) queue)"
    using msg_post_room [OF t(1,2) assms(2,3)] by blast
  let ?s = "s\<lparr>os_msgqs := with_queue (os_msgqs s) queue q\<rparr>"
  have "tickable cfg queue ?s"
    using t i msgq_inv_with_queue [OF t(1) q(2)] by (simp add: tickable_def signalable_def with_queue_def)
  from ticks_run [OF this, of k] obtain s1 where "iterR k (os_msgQ_tick cfg queue) ?s = Inr s1" "tickable cfg queue s1"
    "qmsgs (queue_at (os_msgqs s1) queue) = map (ticked ^^ k) (qmsgs q)" "q_messageSize (queue_at (os_msgqs s1) queue) = q_messageSize q"
    using i by auto
  then show ?thesis using that [OF q(1)] q(3,4) by simp
qed

text \<open>Then a reception finds the first message that is due, if there is one.\<close>

lemma mreload_ticks: "mreload ((ticked ^^ k) m) = mreload m"
  by (induction k) (simp_all add: ticked_def mreload_def fld_set_other)

lemma due_after: "12 \<le> length x \<Longrightarrow> mdelay ((ticked ^^ k) x) = 0 \<longleftrightarrow> unat (mdelay x) \<le> k"
  using mdelay_ticks [of x k] by (simp add: unat_eq_0 [symmetric] del: unat_eq_0)

lemma tickable_receive:
  assumes "tickable cfg queue s1" and "\<And>x. x \<in> set old \<Longrightarrow> 12 \<le> length x"
    and "qmsgs (queue_at (os_msgqs s1) queue) = map (ticked ^^ k) old @ [(ticked ^^ k) mine]" and "12 \<le> length mine"
    and "qm (queue_at (os_msgqs s1) queue) \<le> length buf"
  shows "\<exists>x \<in> set old. unat (mdelay x) \<le> k \<Longrightarrow>
      \<exists>ds x rest m2. old = ds @ x # rest \<and> (\<forall>y \<in> set ds. k < unat (mdelay y)) \<and> unat (mdelay x) \<le> k \<and>
        os_msg_receive cfg buf queue (os_msgqs s1) =
          Inr (MSG_QUEUE_RECEIVED, delivered ((ticked ^^ k) x) @ drop (qm (queue_at (os_msgqs s1) queue)) buf, m2) \<and>
        qmsgs (queue_at m2 queue) = map (ticked ^^ k) (rest @ mine # ds) @
          (if mreload x = 0 then [] else [delivered ((ticked ^^ k) x)])"
    and "\<forall>x \<in> set old. k < unat (mdelay x) \<Longrightarrow> k < unat (mdelay mine) \<Longrightarrow>
      os_msg_receive cfg buf queue (os_msgqs s1) = Inr (MSG_QUEUE_EMPTY, buf, os_msgqs s1)"
    and "\<forall>x \<in> set old. k < unat (mdelay x) \<Longrightarrow> unat (mdelay mine) \<le> k \<Longrightarrow>
      \<exists>m2. os_msg_receive cfg buf queue (os_msgqs s1) =
          Inr (MSG_QUEUE_RECEIVED, delivered ((ticked ^^ k) mine) @ drop (qm (queue_at (os_msgqs s1) queue)) buf, m2) \<and>
        qmsgs (queue_at m2 queue) = map (ticked ^^ k) old @ (if mreload mine = 0 then [] else [delivered ((ticked ^^ k) mine)])"
proof -
  have t: "msgq_inv cfg (os_msgqs s1)" "queue < nQueues (os_msgqs s1)" using assms(1) by (simp_all add: tickable_def)
  note at = queue_at_with_queue [OF msgq_invD(1) [OF t]] and due = due_after [OF assms(2)] due_after [OF assms(4)]
  show "os_msg_receive cfg buf queue (os_msgqs s1) = Inr (MSG_QUEUE_EMPTY, buf, os_msgqs s1)"
    if "\<forall>x \<in> set old. k < unat (mdelay x)" "k < unat (mdelay mine)"
    by (rule msg_receive_none [OF t]) (use that due in \<open>auto simp: assms(3) not_le\<close>)
  show "\<exists>m2. os_msg_receive cfg buf queue (os_msgqs s1) =
          Inr (MSG_QUEUE_RECEIVED, delivered ((ticked ^^ k) mine) @ drop (qm (queue_at (os_msgqs s1) queue)) buf, m2) \<and>
        qmsgs (queue_at m2 queue) = map (ticked ^^ k) old @ (if mreload mine = 0 then [] else [delivered ((ticked ^^ k) mine)])"
    if "\<forall>x \<in> set old. k < unat (mdelay x)" "unat (mdelay mine) \<le> k"
    using msg_receive_due [OF t assms(5), of "map (ticked ^^ k) old" "(ticked ^^ k) mine" "[]"] assms(3) that due at
    by (fastforce simp: mreload_ticks)
  assume "\<exists>x \<in> set old. unat (mdelay x) \<le> k"
  from split_list_first_prop [OF this] obtain ds x rest where sp: "old = ds @ x # rest" "unat (mdelay x) \<le> k"
    "\<forall>y \<in> set ds. k < unat (mdelay y)" by (auto simp: not_le)
  obtain q where q: "os_msg_receive cfg buf queue (os_msgqs s1) =
      Inr (MSG_QUEUE_RECEIVED, delivered ((ticked ^^ k) x) @ drop (qm (queue_at (os_msgqs s1) queue)) buf, with_queue (os_msgqs s1) queue q)"
    "qmsgs q = (map (ticked ^^ k) rest @ [(ticked ^^ k) mine]) @ map (ticked ^^ k) ds @
      (if mreload x = 0 then [] else [delivered ((ticked ^^ k) x)])"
    using msg_receive_due [OF t assms(5), of "map (ticked ^^ k) ds" "(ticked ^^ k) x" "map (ticked ^^ k) rest @ [(ticked ^^ k) mine]"]
      assms(3) sp due by (auto simp: mreload_ticks not_le)
  then show "\<exists>ds x rest m2. old = ds @ x # rest \<and> (\<forall>y \<in> set ds. k < unat (mdelay y)) \<and> unat (mdelay x) \<le> k \<and>
        os_msg_receive cfg buf queue (os_msgqs s1) =
          Inr (MSG_QUEUE_RECEIVED, delivered ((ticked ^^ k) x) @ drop (qm (queue_at (os_msgqs s1) queue)) buf, m2) \<and>
        qmsgs (queue_at m2 queue) = map (ticked ^^ k) (rest @ mine # ds) @
          (if mreload x = 0 then [] else [delivered ((ticked ^^ k) x)])"
    using sp at by (intro exI [of _ ds] exI [of _ x] exI [of _ rest] exI [of _ "with_queue (os_msgqs s1) queue q"]) simp
qed

text \<open>After a full period it is due, and its delivery sets it back.\<close>

lemma period_over:
  assumes "12 \<le> length m" and "mdelay m = mreload m" and "0 < mreload m"
  shows "mdelay ((ticked ^^ unat (mreload m)) m) = 0" "mreload ((ticked ^^ unat (mreload m)) m) = mreload m"
    "delivered ((ticked ^^ unat (mreload m)) m) = m"
proof -
  have t: "(ticked ^^ unat (mreload m)) m = set_fld m delay_at 0"
    using ticks_down [of m "unat (mreload m)"] assms by simp
  show "mdelay ((ticked ^^ unat (mreload m)) m) = 0" "mreload ((ticked ^^ unat (mreload m)) m) = mreload m"
    unfolding t using assms(1) by simp_all
  have "set_fld m delay_at (mreload m) = m"
    using set_fld_same [of delay_at m] assms(1,2) by (simp add: mdelay_def)
  then show "delivered ((ticked ^^ unat (mreload m)) m) = m"
    unfolding t using assms by (simp add: delivered_def set_fld_twice)
qed

section \<open>Receiving once in every period\<close>

text \<open>The results of \<open>n\<close> receptions into the same buffer, each after \<open>p\<close> ticks of the queue.\<close>

fun deliveries :: "config \<Rightarrow> u8 \<Rightarrow> nat \<Rightarrow> bytes \<Rightarrow> nat \<Rightarrow> os \<Rightarrow> ((u8 \<times> bytes) list \<times> os) res" where
  "deliveries cfg queue p buf 0 s = Inr ([], s)"
| "deliveries cfg queue p buf (Suc n) s =
     bindR (iterR p (os_msgQ_tick cfg queue) s) (\<lambda>s.
     bindR (os_msg_receive cfg buf queue (os_msgqs s)) (\<lambda>r. case r of (result, msg, m) \<Rightarrow>
     bindR (deliveries cfg queue p buf n (s\<lparr>os_msgqs := m\<rparr>)) (\<lambda>r. case r of (ds, s) \<Rightarrow> Inr ((result, msg) # ds, s))))"

text \<open>A queue that holds one periodic message that has just been posted or delivered.\<close>

definition periodic :: "config \<Rightarrow> u8 \<Rightarrow> bytes \<Rightarrow> os \<Rightarrow> bool" where
  "periodic cfg queue m s \<longleftrightarrow> tickable cfg queue s \<and> qmsgs (queue_at (os_msgqs s) queue) = [m] \<and>
     mdelay m = mreload m \<and> 0 < mreload m"

lemma periodicD:
  assumes "periodic cfg queue m s"
  shows "tickable cfg queue s" "qmsgs (queue_at (os_msgqs s) queue) = [m]" "12 \<le> length m"
    "length m = qm (queue_at (os_msgqs s) queue)" "mdelay m = mreload m" "0 < mreload m"
proof -
  show a: "tickable cfg queue s" "qmsgs (queue_at (os_msgqs s) queue) = [m]" "mdelay m = mreload m" "0 < mreload m"
    using assms by (simp_all add: periodic_def)
  have q: "queue_inv (queue_at (os_msgqs s) queue)"
    using a(1) msgq_invD(2) unfolding tickable_def by blast
  show "length m = qm (queue_at (os_msgqs s) queue)" using qmsgs_length [OF q] a(2) by simp
  then show "12 \<le> length m" using queue_invD(5) [OF q] by simp
qed

lemma period_round:
  assumes "periodic cfg queue m s" and "length m \<le> length buf"
  shows "\<exists>s1 q. iterR (unat (mreload m)) (os_msgQ_tick cfg queue) s = Inr s1 \<and>
    os_msg_receive cfg buf queue (os_msgqs s1) =
      Inr (MSG_QUEUE_RECEIVED, m @ drop (length m) buf, with_queue (os_msgqs s1) queue q) \<and>
    periodic cfg queue m (s1\<lparr>os_msgqs := with_queue (os_msgqs s1) queue q\<rparr>)"
proof -
  note p = periodicD [OF assms(1)]
  let ?x = "(ticked ^^ unat (mreload m)) m"
  obtain s1 where s1: "iterR (unat (mreload m)) (os_msgQ_tick cfg queue) s = Inr s1" "tickable cfg queue s1"
    "qmsgs (queue_at (os_msgqs s1) queue) = [?x]"
    "q_messageSize (queue_at (os_msgqs s1) queue) = q_messageSize (queue_at (os_msgqs s) queue)"
    using ticks_run [OF p(1), of "unat (mreload m)"] p(2) by auto
  then have t: "msgq_inv cfg (os_msgqs s1)" "queue < nQueues (os_msgqs s1)"
    "signalable cfg (mq_change (msgQList (os_msgqs s1) ! unat queue)) s1" by (simp_all add: tickable_def)
  note o = period_over [OF p(3,5,6)]
  obtain q where q: "os_msg_receive cfg buf queue (os_msgqs s1) =
      Inr (MSG_QUEUE_RECEIVED, m @ drop (length m) buf, with_queue (os_msgqs s1) queue q)" "queue_inv q" "qmsgs q = [m]"
    using msg_receive_due [OF t(1,2), of buf "[]" ?x "[]"] s1(3,4) o p(4,6) assms(2) by auto
  note i = msgq_invD(1) [OF t(1,2)]
  have "tickable cfg queue (s1\<lparr>os_msgqs := with_queue (os_msgqs s1) queue q\<rparr>)"
    using t i msgq_inv_with_queue [OF t(1) q(2)] by (simp add: tickable_def signalable_def with_queue_def)
  then have "periodic cfg queue m (s1\<lparr>os_msgqs := with_queue (os_msgqs s1) queue q\<rparr>)"
    using i q(3) p(5,6) by (simp add: periodic_def)
  then show ?thesis using s1(1) q(1) by blast
qed

lemma deliveries_eq:
  "periodic cfg queue m s \<Longrightarrow> length m \<le> length buf \<Longrightarrow>
   \<exists>s'. deliveries cfg queue (unat (mreload m)) buf n s =
     Inr (replicate n (MSG_QUEUE_RECEIVED, m @ drop (length m) buf), s') \<and> periodic cfg queue m s'"
proof (induction n arbitrary: s)
  case (Suc n)
  obtain s1 q where r: "iterR (unat (mreload m)) (os_msgQ_tick cfg queue) s = Inr s1"
    "os_msg_receive cfg buf queue (os_msgqs s1) =
      Inr (MSG_QUEUE_RECEIVED, m @ drop (length m) buf, with_queue (os_msgqs s1) queue q)"
    "periodic cfg queue m (s1\<lparr>os_msgqs := with_queue (os_msgqs s1) queue q\<rparr>)"
    using period_round [OF Suc.prems] by blast
  from Suc.IH [OF r(3) Suc.prems(2)] r(1,2) show ?case by auto
qed simp

section \<open>Properties\<close>

text \<open>C23: a delay is exact from the post to the reception. Post a message with delay \<open>d\<close> and period \<open>p\<close> (0 for
  none) to a queue with room, which may hold other messages, let the queue tick \<open>k\<close> times and receive. When none of
  the older messages is due by then, the reception reports an empty queue and changes nothing if \<open>k < d\<close>, and
  otherwise it delivers the bytes of this message, its delay field set to the period, and leaves the older messages
  in their order, with the message behind them if it is periodic. When an older message is due, the first of those is delivered
  and the posted message stays in the queue, its delay counted down.\<close>

theorem delayed_delivery:
  assumes "msgq_inv cfg (os_msgqs s)" and "queue < nQueues (os_msgqs s)"
    and "signalable cfg (mq_change (msgQList (os_msgqs s) ! unat queue)) s"
    and "n = qm (queue_at (os_msgqs s) queue)" and "old = qmsgs (queue_at (os_msgqs s) queue)"
    and "length old < qn (queue_at (os_msgqs s) queue) - 1" and "n \<le> length msg" and "n \<le> length buf"
  shows "\<exists>m s1. os_msg_post cfg msg queue d p (os_msgqs s) = Inr (MSG_QUEUE_POSTED, stamped d p msg, m) \<and>
    iterR k (os_msgQ_tick cfg queue) (s\<lparr>os_msgqs := m\<rparr>) = Inr s1 \<and>
    (if \<exists>x \<in> set old. unat (mdelay x) \<le> k then
       \<exists>ds x rest m2. old = ds @ x # rest \<and> (\<forall>y \<in> set ds. k < unat (mdelay y)) \<and> unat (mdelay x) \<le> k \<and>
         os_msg_receive cfg buf queue (os_msgqs s1) = Inr (MSG_QUEUE_RECEIVED, delivered ((ticked ^^ k) x) @ drop n buf, m2) \<and>
         qmsgs (queue_at m2 queue) = map (ticked ^^ k) (rest @ take n (stamped d p msg) # ds) @
           (if mreload x = 0 then [] else [delivered ((ticked ^^ k) x)])
     else if k < unat d then os_msg_receive cfg buf queue (os_msgqs s1) = Inr (MSG_QUEUE_EMPTY, buf, os_msgqs s1)
     else \<exists>m2. os_msg_receive cfg buf queue (os_msgqs s1) = Inr (MSG_QUEUE_RECEIVED, take n (stamped p p msg) @ drop n buf, m2) \<and>
         qmsgs (queue_at m2 queue) = map (ticked ^^ k) old @ (if p = 0 then [] else [take n (stamped p p msg)]))"
proof -
  have t: "tickable cfg queue s" using assms(1-3) by (simp add: tickable_def)
  let ?mine = "take n (stamped d p msg)"
  obtain m s1 where r: "os_msg_post cfg msg queue d p (os_msgqs s) = Inr (MSG_QUEUE_POSTED, stamped d p msg, m)"
    "iterR k (os_msgQ_tick cfg queue) (s\<lparr>os_msgqs := m\<rparr>) = Inr s1" "tickable cfg queue s1" "qm (queue_at (os_msgqs s1) queue) = n"
    "qmsgs (queue_at (os_msgqs s1) queue) = map (ticked ^^ k) old @ [(ticked ^^ k) ?mine]"
    by (rule post_then_ticks [OF t, of msg d p k]) (use assms(4-7) in simp_all)
  have q: "queue_inv (queue_at (os_msgqs s) queue)" by (rule msgq_invD(2) [OF assms(1,2)])
  have n: "12 \<le> n" using queue_invD(5) [OF q] assms(4) by simp
  have len: "12 \<le> length x" if "x \<in> set old" for x using qmsgs_length [OF q] that n assms(4,5) by simp
  note receive = tickable_receive [OF r(3), of old k, unfolded r(4), OF len r(5) _ assms(8)]
  note mine = stamped_fields [OF n assms(7)]
  show ?thesis
  proof (cases "\<exists>x \<in> set old. unat (mdelay x) \<le> k")
    case True
    then show ?thesis using r(1,2) receive(1) n assms(7) by fastforce
  next
    case False
    then have none: "\<forall>x \<in> set old. k < unat (mdelay x)" by (simp add: not_le)
    show ?thesis
    proof (cases "k < unat d")
      case early: True
      then show ?thesis using False r(1,2) receive(2) none mine n assms(7) by auto
    next
      case late: False
      then have d: "unat d \<le> k" by simp
      note over = stamped_over [OF n assms(7) d]
      show ?thesis using False late r(1,2) receive(3) none mine n assms(7) over by auto
    qed
  qed
qed

text \<open>C24: a message posted with \<open>msg_post_every\<close> (its delay and its period are the same number \<open>p > 0\<close>)
  into an empty queue is delivered after every \<open>p\<close> ticks, any number of times, always as it was posted;
  after fewer than \<open>p\<close> ticks since the post or the last delivery the queue is reported empty.\<close>

theorem periodic_delivery:
  assumes "msgq_inv cfg (os_msgqs s)" and "queue < nQueues (os_msgqs s)"
    and "signalable cfg (mq_change (msgQList (os_msgqs s) ! unat queue)) s"
    and "qmsgs (queue_at (os_msgqs s) queue) = [m]" and "mdelay m = mreload m" and "0 < mreload m" and "length m \<le> length buf"
  shows "\<exists>s'. deliveries cfg queue (unat (mreload m)) buf n s =
      Inr (replicate n (MSG_QUEUE_RECEIVED, m @ drop (length m) buf), s') \<and>
    (\<forall>k < unat (mreload m). \<exists>s1. iterR k (os_msgQ_tick cfg queue) s' = Inr s1 \<and>
      os_msg_receive cfg buf queue (os_msgqs s1) = Inr (MSG_QUEUE_EMPTY, buf, os_msgqs s1))"
proof -
  have "periodic cfg queue m s" using assms by (simp add: periodic_def tickable_def)
  then obtain s' where s': "deliveries cfg queue (unat (mreload m)) buf n s =
      Inr (replicate n (MSG_QUEUE_RECEIVED, m @ drop (length m) buf), s')" "periodic cfg queue m s'"
    using deliveries_eq [OF _ assms(7)] by blast
  note p = periodicD [OF s'(2)]
  have "\<exists>s1. iterR k (os_msgQ_tick cfg queue) s' = Inr s1 \<and>
      os_msg_receive cfg buf queue (os_msgqs s1) = Inr (MSG_QUEUE_EMPTY, buf, os_msgqs s1)"
    if k: "k < unat (mreload m)" for k
  proof -
    obtain s1 where s1: "iterR k (os_msgQ_tick cfg queue) s' = Inr s1" "tickable cfg queue s1"
      "qmsgs (queue_at (os_msgqs s1) queue) = [(ticked ^^ k) m]"
      using ticks_run [OF p(1), of k] p(2) by auto
    have "mdelay ((ticked ^^ k) m) \<noteq> 0"
      using mdelay_ticks [OF p(3), of k] k p(5) by (auto simp: word_unat_eq_iff)
    then show ?thesis using msg_receive_none [of cfg "os_msgqs s1" queue buf] s1 by (simp add: tickable_def)
  qed
  then show ?thesis using s'(1) by blast
qed

definition demo_every_queue :: OSQueue_t where
  "demo_every_queue = \<lparr>q_list = replicate 12 0 @ demo_msg 7 2 2 @ replicate 12 0, q_messageSize = 12, q_head = 2, q_tail = 0, q_size = 3\<rparr>"

definition demo_every :: os where
  "demo_every = demo_msg_os\<lparr>os_msgqs := \<lparr>msgQList = [\<lparr>mq_q = demo_every_queue, mq_taskId = 1, mq_change = 1\<rparr>], nQueues = 1\<rparr>\<rparr>"

lemma demo_every_queue_ok:
  "queue_inv demo_every_queue" "qmsgs demo_every_queue = [demo_msg 7 2 2]" "queue_at (os_msgqs demo_every) 0 = demo_every_queue"
  "msgq_inv demo_cfg (os_msgqs demo_every)" "0 < nQueues (os_msgqs demo_every)"
  "signalable demo_cfg (mq_change (msgQList (os_msgqs demo_every) ! unat (0 :: u8))) demo_every"
proof -
  show q: "queue_inv demo_every_queue"
    by (simp add: queue_inv_def demo_every_queue_def demo_msg_def)
  show "queue_at (os_msgqs demo_every) 0 = demo_every_queue" by (simp add: queue_at_def demo_every_def)
  show "qmsgs demo_every_queue = [demo_msg 7 2 2]"
    by (simp add: qmsgs_def ring_def live_def ring_len_def demo_every_queue_def sl_def nxt_def demo_msg_def)
  show "msgq_inv demo_cfg (os_msgqs demo_every)" using q by (simp add: msgq_inv_def demo_every_def)
  show "0 < nQueues (os_msgqs demo_every)" by (simp add: demo_every_def)
  show "signalable demo_cfg (mq_change (msgQList (os_msgqs demo_every) ! unat (0 :: u8))) demo_every"
    using demo_msg_os_sel(2) by (simp add: signalable_def demo_every_def demo_msgqs_def)
qed

lemma demo_msg_fields: "mreload (demo_msg sig d p) = ucast p" "mdelay (demo_msg sig d p) = ucast d" "length (demo_msg sig d p) = 12"
  by (simp_all add: demo_msg_def mdelay_def mreload_def fld_def)

text \<open>The queue holds a message that is due in 2 ticks; the posted one is due in one tick, and overtakes it.\<close>

theorem delayed_delivery_witness:
  "\<exists>m s1. os_msg_post demo_cfg (demo_msg 9 0 0) 0 1 5 (os_msgqs demo_every) = Inr (MSG_QUEUE_POSTED, demo_msg 9 1 5, m) \<and>
    os_msg_receive demo_cfg (demo_msg 0 0 0) 0 m = Inr (MSG_QUEUE_EMPTY, demo_msg 0 0 0, m) \<and>
    iterR 1 (os_msgQ_tick demo_cfg 0) (demo_every\<lparr>os_msgqs := m\<rparr>) = Inr s1 \<and>
    (\<exists>m2. os_msg_receive demo_cfg (demo_msg 0 0 0) 0 (os_msgqs s1) = Inr (MSG_QUEUE_RECEIVED, demo_msg 9 5 5, m2) \<and>
      qmsgs (queue_at m2 0) = [demo_msg 7 1 2, demo_msg 9 5 5])"
proof -
  note ok = demo_every_queue_ok
  have q: "12 = qm (queue_at (os_msgqs demo_every) 0)" "[demo_msg 7 2 2] = qmsgs (queue_at (os_msgqs demo_every) 0)"
    "length [demo_msg 7 2 2] < qn (queue_at (os_msgqs demo_every) 0) - 1"
    by (simp_all add: ok(3) ok(2)) (simp_all add: demo_every_queue_def)
  have st: "stamped d p (demo_msg 9 0 0) = demo_msg 9 (ucast d) (ucast p)" if "d \<in> {1, 5}" "p \<in> {1, 5}" for d p
    using that by (auto simp: stamped_def set_fld_def demo_msg_def)
  have tick: "ticked (demo_msg 7 2 2) = demo_msg 7 1 2" by (simp add: ticked_def mdelay_def fld_def set_fld_def demo_msg_def)
  note run = delayed_delivery [OF ok(4,5,6) q, of "demo_msg 9 0 0" "demo_msg 0 0 0" 1 5, unfolded demo_msg_fields, OF order.refl order.refl]
  from run [of 0] run [of 1] show ?thesis by (auto simp: st tick demo_msg_fields)
qed

theorem periodic_delivery_witness:
  "\<exists>s'. deliveries demo_cfg 0 2 (demo_msg 0 0 0) 3 demo_every =
      Inr (replicate 3 (MSG_QUEUE_RECEIVED, demo_msg 7 2 2), s') \<and>
    (\<exists>s1. iterR 1 (os_msgQ_tick demo_cfg 0) s' = Inr s1 \<and>
      os_msg_receive demo_cfg (demo_msg 0 0 0) 0 (os_msgqs s1) = Inr (MSG_QUEUE_EMPTY, demo_msg 0 0 0, os_msgqs s1))"
proof -
  note ok = demo_every_queue_ok
  from periodic_delivery [OF ok(4-6), of "demo_msg 7 2 2" "demo_msg 0 0 0" 3]
  obtain s' where s': "deliveries demo_cfg 0 2 (demo_msg 0 0 0) 3 demo_every =
      Inr (replicate 3 (MSG_QUEUE_RECEIVED, demo_msg 7 2 2), s')"
    "\<forall>k < 2. \<exists>s1. iterR k (os_msgQ_tick demo_cfg 0) s' = Inr s1 \<and>
      os_msg_receive demo_cfg (demo_msg 0 0 0) 0 (os_msgqs s1) = Inr (MSG_QUEUE_EMPTY, demo_msg 0 0 0, os_msgqs s1)"
    unfolding ok(2,3) by (auto simp: demo_msg_fields)
  have "(1 :: nat) < 2" by simp
  from s'(2) [rule_format, OF this] s'(1) show ?thesis by blast
qed

end
