(* ===== verification/Spec2Isabelle.thy ===== *)
theory Spec2Isabelle
  imports Os_Race_Signal Os_Fair Os_Timeout Os_Clock Os_Links Os_Start Os_Mutex Os_Assert Os_Life Os_Msgq_Period
begin

text \<open>
  cocoOS, a cooperative kernel for small microcontrollers: a model of the kernel under \<open>src/os\<close> and the
  properties its users rely on.

  \<^bold>\<open>The program.\<close> A program creates tasks, semaphores and events, calls \<open>os_start\<close>, and from then on
  the kernel calls the procedure of one ready task at a time. A procedure is a switch on the line at which
  the task left it (\<open>OS_BEGIN\<close> of \<open>os_reentry.h\<close>); a macro that waits records its line, gives up the
  processor and returns from the procedure. Interrupts call \<open>os_tick\<close> and signal events and semaphores.
  The modules share their static variables through calls: the macros of \<open>os_sem.h\<close>, \<open>os_event.h\<close>,
  \<open>os_task.h\<close> and \<open>os_msgqueue.h\<close> act on the tables of several modules; posting, receiving and the tick
  of a message queue signal the change event of the queue; the tick of the tasks ticks their queues; a
  semaphore that is signalled releases a waiting task.

  \<^bold>\<open>The model.\<close> Every static variable of a module is a field of the record of the module, the records are
  the fields of the state \<open>os\<close> (\<open>Os_Types\<close>), and every function is a function on the part of the state it
  uses, with the names of the source. Integers have their width; an array is a list of its declared
  length. A result is \<open>Inr\<close>, or \<open>Inl\<close> a fault: an assertion that fails, an access outside an array,
  a division by zero, reading past the arguments of a variadic function, a loop that does not end. A fault ends the run:
  \<open>Os_Assert\<close> models \<open>os_assert.c\<close>, whose handler never returns.

  \<^item> \<open>Os_Prelude\<close>: widths, results, array accesses, the counting loops of the source and their rules.
  \<^item> \<open>Os_Types\<close>: \<open>os_defines.h\<close> (its macros are the record \<open>config\<close>), the types of all modules.
  \<^item> \<open>Os_Sem\<close>: \<open>os_sem.c\<close>; the locale \<open>saturating_counter\<close>; the table refines a list of natural numbers.
  \<^item> \<open>Os_Task\<close>, \<open>Os_Task_Inv\<close>: \<open>os_task.c\<close>, its plain operations and the invariant of the table.
  \<^item> \<open>Os_Sched\<close>: the choice of the next task and of the task a semaphore releases; the locale
    \<open>scheduler\<close> with an instance for each of the two policies.
  \<^item> \<open>Os_Wait\<close>: the bitmap of awaited events as a set (the locale \<open>event_set\<close>), signals, suspension.
  \<^item> \<open>Os_Event\<close>: \<open>os_event.c\<close> and the interrupt macro of \<open>os_event.h\<close>.
  \<^item> \<open>Os_Msgqueue\<close>: \<open>os_msgqueue.c\<close> at the level of bytes; \<open>Os_Ring\<close>, \<open>Os_Msgq_Ref\<close>: a queue is a list of
    messages; \<open>Os_Msgq_Tick\<close>, \<open>Os_Msgq_Props\<close>, \<open>Os_Msgq_Period\<close>: ticks, first in first out (the locale
    \<open>bounded_fifo\<close>), delays and periods.
  \<^item> \<open>Os_Tick\<close>: \<open>os_task_create\<close>, \<open>task_tick\<close> and the invariant \<open>os_inv\<close> of the whole kernel.
  \<^item> \<open>Os_Kernel\<close>: \<open>os_kernel.c\<close> and \<open>os_cbk.c\<close>: initialisation, scheduling, the loop of \<open>os_start\<close>, ticks.
  \<^item> \<open>Os_Reentry\<close>: the macros of \<open>os_reentry.h\<close> and of the headers of the modules. One that waits inside a
    loop (posting, receiving) has two parts, up to the wait and from there on.
  \<^item> \<open>Os_Calls\<close>: every macro keeps the invariant. \<open>Os_Resume\<close>, \<open>Os_Effects\<close>: what a macro may do to the control
    blocks and to the processor, for any relation that meets a contract (the locales \<open>table_preorder\<close>,
    \<open>task_relation\<close>, \<open>quiet_relation\<close>, \<open>tick_relation\<close>, \<open>call_relation\<close>). \<open>Os_Waking\<close>: the operations that end waits, for any
    relation that says whom they may wake (the locale \<open>waking\<close>).
  \<^item> \<open>Os_System\<close>, \<open>Os_Sem_System\<close>, \<open>Os_Runs\<close>: the kernel as a transition system (creation, start, scheduling,
    calls with any arguments, \<open>os_task_kill\<close>, interrupts), its reachable states and their invariants, and the same steps
    as an executable function.
  \<^item> \<open>Os_Life\<close>: which changes of a task's state a step can make. \<open>Os_Links\<close>: the links between tasks, queues
    and change events. \<open>Os_Start\<close>: the loops of \<open>os_start\<close> and \<open>os_start_locking\<close> are runs of the transition system.
    \<open>Os_Mutex\<close>: a semaphore as a lock, over the runs of that system.
  \<^item> \<open>Os_Countdown\<close>: what a run leaves of a task that takes no part in it, and the time that passes on a clock in a run
    (the locales \<open>bystander\<close> and \<open>countdown\<close>); its instances \<open>Os_Delay\<close>, waiting for ticks, and \<open>Os_Timeout\<close>, waiting
    with a timeout. \<open>Os_Fair\<close>: the two scheduling policies in the same runs.
  \<^item> \<open>Os_Clock\<close>: \<open>os_sub_nTick\<close> against \<open>os_sub_tick\<close>.
  \<^item> \<open>Os_Wakeup\<close>, \<open>Os_Handoff\<close>: how waits end, and the steps of a message between two tasks.
  \<^item> \<open>Os_Api\<close>: the public macros of \<open>os_kernel.h\<close>, and a message to a blocked receiver; \<open>Os_Backpressure\<close>: a message
    from a blocked sender.
  \<^item> \<open>Os_Race\<close>: \<open>OS_WAIT_SEM\<close>, \<open>OS_WAIT_SINGLE_EVENT\<close> and \<open>OS_MSG_Q_RECEIVE\<close> with an interrupt between the test and
    the wait. \<open>Os_Race_Signal\<close>: \<open>OS_SIGNAL_SEM\<close> with one between the question and the release, and
    \<open>os_wait_multiple\<close> with one between its first event and the next.

  \<^bold>\<open>What is shown.\<close> In every reachable state the tables are well formed, no task waits for an available
  semaphore, and no tick, scheduling decision, yield or task end faults (C1, C2, C4); a task goes on behind
  the call it left by, unless it is reset by a suspension (C3); every step changes the states of the tasks only as their
  life cycle allows, a killed task stays killed, and the executing task is ready (C5, C6, C7); a message that is posted wakes the
  blocked receiver and reaches it (C8), and a reception from a full queue wakes the blocked sender, whose
  message follows (C9). The loop of \<open>os_start\<close> makes runs of that transition system, so that all this holds of
  it (C10), and the ids of tasks, queues and change events always name the objects they should (C11).
  A semaphore admits no more tasks than its value (C12). C13 and C34 to C37 show what an interrupt can spoil
  within a call that waits or signals. Scheduling executes the best ready task (C14) or serves every ready task in
  turn (C15), a task that waits for ticks sleeps for exactly that time (C25), and a timeout ends a wait in time (C26),
  in all runs. Then the components: waits for one or several events, with or without a timeout, end exactly when they
  should; queues are first in first out,
  delays and periods are exact from the post to the reception; ticks are exact; semaphores refine counters; creation and initialisation
  give fresh objects; errors are refused. The last properties are the places where the code does not do what it
  says, each proved of the model and listed among the findings.

  \<^bold>\<open>Bounds and assumptions.\<close> The loops over a ring get 256 rounds (\<open>ring_fuel\<close>): that is enough because
  the indices of a well-formed ring stay below its size, at most 255, and \<open>OutOfFuel\<close> is proved not to
  occur there. \<open>os_start\<close> gets a number of rounds as an argument; two more than the tick limit are enough.
  \<open>limits_ok\<close> says that the ids of semaphores and events fit in 8 bits, which the static
  assertions do not ensure. \<open>creation_ok\<close> says what the code does not check when an object is created: the
  message pool has the stated size, with at least two slots of at least 12 bytes, there are at most
  16 events in all, and a semaphore starts within its range. Round robin is only run with a task. The 32-bit fields
  of a message are stored least significant byte first at offsets 4 and 8; the buffer a caller passes does
  not overlap a message pool. In the transition system interrupts come between the calls of a task;
  within a call \<open>Os_Race\<close> and \<open>Os_Race_Signal\<close> place one where it matters, between a test and what depends on it,
  and nowhere else. The time that passes on a clock in a run (\<open>elapsed\<close>) is counted without wrap-around.
  The actions of a task there are the macros of \<open>os_kernel.h\<close> and \<open>os_task_kill\<close>, the documented interface, where a task
  that kills itself is taken to return behind that call; the functions of \<open>os_task.h\<close> the macros are built from
  (\<open>os_task_ready_set\<close>, \<open>os_task_wait_time_set\<close> and the like) are not called by a task directly.
  Callbacks are null in the transition system; elsewhere they are any procedure that keeps the
  invariant. \<open>OS_WAIT_SEM\<close> calls \<open>os_task_wait_sem_set\<close>, which no file defines; the model calls
  \<open>task_wait_sem_set\<close>, the function that was meant.

  \<^bold>\<open>Not modelled.\<close> The statements of a task procedure between its calls are arbitrary: a program is any
  sequence of calls, or a parameter (\<open>procs\<close>). Interrupts between the
  statements of a function, such as in the middle of an update of a bitmap or a ring; builds with
  \<open>NASSERT\<close>, which do not compile; the mocks, unit tests, test platforms and build files.
\<close>

end
